(* ===== verification/Prelude.thy ===== *)
theory Prelude
  imports Main "HOL-Library.Word"
begin

text \<open>
  What every component of the proxy shares: the machine types of the platform (x86-64 Linux,
  g++, \<open>-std=c++17\<close>, assertions enabled as in the Makefile), the outcome of a C++
  statement with its exceptions, the small state-and-exception combinators the operations are
  written in, the weakest-precondition calculus used to reason about them, and the list lemmas
  that more than one component needs.
\<close>

section \<open>Machine types\<close>

type_synonym size_t = "64 word"
type_synonym uint16 = "16 word"

text \<open>A file descriptor is a C \<open>int\<close>; \<open>INVALID_SOCKET_FD\<close> is -1.\<close>

type_synonym fd = int

section \<open>Exceptions and outcomes\<close>

text \<open>
  The exception classes of the program: \<open>spx::Exception\<close> (\<open>common/exception.h\<close>), its three
  subclasses, and the standard exceptions that its library calls can throw. A handler
  \<open>catch (const Exception &)\<close> takes exactly the first four.
\<close>

datatype exn =
    SpxException string
  | AllInUseException
  | KeyNotFoundException
  | ZeroLengthMessageException
  | StdOutOfRange
  | StdInvalidArgument
  | StdLengthError

fun is_spx_exception :: "exn \<Rightarrow> bool" where
  "is_spx_exception (SpxException _) = True"
| "is_spx_exception AllInUseException = True"
| "is_spx_exception KeyNotFoundException = True"
| "is_spx_exception ZeroLengthMessageException = True"
| "is_spx_exception _ = False"

text \<open>
  Running a C++ statement from a state ends in one of five ways: it returns a value, it throws
  (with the state reached so far), it calls \<open>abort\<close> (a failed assertion included), it
  executes undefined behaviour, or it never returns.
\<close>

datatype ('a, 's) outcome =
    Done 'a 's
  | Raise exn 's
  | Abort
  | Undef
  | Hang

type_synonym ('a, 's) act = "'s \<Rightarrow> ('a, 's) outcome"

definition ret :: "'a \<Rightarrow> ('a, 's) act" where
  "ret a = (\<lambda>s. Done a s)"

definition raise :: "exn \<Rightarrow> ('a, 's) act" where
  "raise e = (\<lambda>s. Raise e s)"

definition undefined_behaviour :: "('a, 's) act" where
  "undefined_behaviour = (\<lambda>s. Undef)"

definition call_abort :: "('a, 's) act" where
  "call_abort = (\<lambda>s. Abort)"

definition get :: "('s \<Rightarrow> 'a) \<Rightarrow> ('a, 's) act" where
  "get f = (\<lambda>s. Done (f s) s)"

definition modify :: "('s \<Rightarrow> 's) \<Rightarrow> (unit, 's) act" where
  "modify f = (\<lambda>s. Done () (f s))"

definition andThen :: "('a, 's) act \<Rightarrow> ('a \<Rightarrow> ('b, 's) act) \<Rightarrow> ('b, 's) act" where
  "andThen m f = (\<lambda>s. case m s of
       Done a t \<Rightarrow> f a t | Raise e t \<Rightarrow> Raise e t | Abort \<Rightarrow> Abort | Undef \<Rightarrow> Undef | Hang \<Rightarrow> Hang)"

text \<open>\<open>tryCatch p m h\<close> is \<open>try { m } catch (e) { h }\<close> for the exceptions that satisfy \<open>p\<close>.\<close>

definition tryCatch :: "(exn \<Rightarrow> bool) \<Rightarrow> ('a, 's) act \<Rightarrow> (exn \<Rightarrow> ('a, 's) act) \<Rightarrow> ('a, 's) act" where
  "tryCatch p m h = (\<lambda>s. case m s of
       Raise e t \<Rightarrow> if p e then h e t else Raise e t | r \<Rightarrow> r)"

text \<open>\<open>assertThat b\<close> is \<open>assert(b)\<close> with assertions compiled in.\<close>

definition assertThat :: "bool \<Rightarrow> (unit, 's) act" where
  "assertThat b = (if b then ret () else call_abort)"

text \<open>An operation on a part of the state, as a member function runs on its own object.\<close>

definition zoom :: "('s \<Rightarrow> 't) \<Rightarrow> ('t \<Rightarrow> 's \<Rightarrow> 's) \<Rightarrow> ('a, 't) act \<Rightarrow> ('a, 's) act" where
  "zoom rd wr m = (\<lambda>s. case m (rd s) of
       Done a t \<Rightarrow> Done a (wr t s) | Raise e t \<Rightarrow> Raise e (wr t s)
     | Abort \<Rightarrow> Abort | Undef \<Rightarrow> Undef | Hang \<Rightarrow> Hang)"

text \<open>A range-based \<open>for\<close> over a container the body does not change.\<close>

fun forEach :: "'x list \<Rightarrow> ('x \<Rightarrow> (unit, 's) act) \<Rightarrow> (unit, 's) act" where
  "forEach [] f = ret ()"
| "forEach (x # xs) f = andThen (f x) (\<lambda>_. forEach xs f)"

lemmas act_defs = ret_def raise_def undefined_behaviour_def call_abort_def get_def modify_def
  andThen_def tryCatch_def assertThat_def zoom_def

section \<open>Weakest preconditions\<close>

text \<open>
  \<open>wp C m Q E s\<close>: running \<open>m\<close> from \<open>s\<close> ends in a value and state with \<open>Q\<close> or in an
  exception and state with \<open>E\<close>; aborting and undefined behaviour satisfy it exactly when \<open>C\<close>
  does, not returning never does. \<open>wp False\<close> is total correctness: none of the three can happen.
\<close>

definition wp :: "bool \<Rightarrow> ('a, 's) act \<Rightarrow> ('a \<Rightarrow> 's \<Rightarrow> bool) \<Rightarrow> (exn \<Rightarrow> 's \<Rightarrow> bool) \<Rightarrow> 's \<Rightarrow> bool" where
  "wp C m Q E s = (case m s of
       Done a t \<Rightarrow> Q a t | Raise e t \<Rightarrow> E e t | Abort \<Rightarrow> C | Undef \<Rightarrow> C | Hang \<Rightarrow> False)"

named_theorems wp_simps \<open>weakest preconditions of the combinators\<close>

lemma wp_ret [wp_simps]: "wp C (ret a) Q E s = Q a s"
  by (simp add: wp_def ret_def)

lemma wp_raise [wp_simps]: "wp C (raise e) Q E s = E e s"
  by (simp add: wp_def raise_def)

lemma wp_undefined_behaviour [wp_simps]: "wp C undefined_behaviour Q E s = C"
  by (simp add: wp_def undefined_behaviour_def)

lemma wp_call_abort [wp_simps]: "wp C call_abort Q E s = C"
  by (simp add: wp_def call_abort_def)

lemma wp_get [wp_simps]: "wp C (get f) Q E s = Q (f s) s"
  by (simp add: wp_def get_def)

lemma wp_modify [wp_simps]: "wp C (modify f) Q E s = Q () (f s)"
  by (simp add: wp_def modify_def)

lemma wp_andThen [wp_simps]:
  "wp C (andThen m f) Q E s = wp C m (\<lambda>a. wp C (f a) Q E) E s"
  by (simp add: wp_def andThen_def split: outcome.split)

lemma wp_tryCatch [wp_simps]:
  "wp C (tryCatch p m h) Q E s = wp C m Q (\<lambda>e t. if p e then wp C (h e) Q E t else E e t) s"
  by (simp add: wp_def tryCatch_def split: outcome.split)

lemma wp_assertThat [wp_simps]: "wp C (assertThat b) Q E s = (if b then Q () s else C)"
  by (simp add: assertThat_def wp_ret wp_call_abort)

lemma wp_zoom [wp_simps]:
  "wp C (zoom rd wr m) Q E s = wp C m (\<lambda>a t. Q a (wr t s)) (\<lambda>e t. E e (wr t s)) (rd s)"
  by (simp add: wp_def zoom_def split: outcome.split)

lemma wp_if [wp_simps]:
  "wp C (if b then m else n) Q E s = (if b then wp C m Q E s else wp C n Q E s)"
  by simp

lemma wp_mono:
  assumes "wp C m Q E s" and "\<And>a t. Q a t \<Longrightarrow> Q' a t" and "\<And>e t. E e t \<Longrightarrow> E' e t"
  shows "wp C m Q' E' s"
  using assms by (auto simp: wp_def split: outcome.splits)

text \<open>A loop keeps what its body keeps.\<close>

lemma wp_forEach:
  assumes "\<And>x s. x \<in> set xs \<Longrightarrow> I s \<Longrightarrow> wp C (f x) (\<lambda>_. I) E s" and "I s"
  shows "wp C (forEach xs f) (\<lambda>_. I) E s"
  using assms
proof (induction xs arbitrary: s)
  case Nil
  then show ?case by (simp add: wp_simps)
next
  case (Cons x xs)
  have step: "wp C (f x) (\<lambda>_. I) E s"
    using Cons.prems by simp
  have rest: "wp C (forEach xs f) (\<lambda>_. I) E t" if "I t" for t
    using Cons.prems(1) that by (intro Cons.IH) auto
  show ?case
    by (simp add: wp_simps) (rule wp_mono [OF step], simp_all add: rest)
qed

section \<open>Lists\<close>

lemma find_None_filter: "find P xs = None \<longleftrightarrow> filter P xs = []"
  by (auto simp: find_None_iff filter_empty_conv)

lemma find_split:
  "find P xs = Some x \<longleftrightarrow> (\<exists>ys zs. xs = ys @ x # zs \<and> P x \<and> (\<forall>y \<in> set ys. \<not> P y))"
proof
  assume "find P xs = Some x"
  then show "\<exists>ys zs. xs = ys @ x # zs \<and> P x \<and> (\<forall>y \<in> set ys. \<not> P y)"
  proof (induction xs)
    case (Cons a xs)
    show ?case
    proof (cases "P a")
      case True
      with Cons.prems show ?thesis by (intro exI [of _ "[]"] exI [of _ xs]) auto
    next
      case False
      with Cons obtain ys zs where "xs = ys @ x # zs" "P x" "\<forall>y \<in> set ys. \<not> P y" by auto
      with False show ?thesis by (intro exI [of _ "a # ys"] exI [of _ zs]) auto
    qed
  qed simp
next
  assume "\<exists>ys zs. xs = ys @ x # zs \<and> P x \<and> (\<forall>y \<in> set ys. \<not> P y)"
  then obtain ys zs where "xs = ys @ x # zs" "P x" "\<forall>y \<in> set ys. \<not> P y" by blast
  then show "find P xs = Some x" by (induction ys arbitrary: xs) auto
qed

lemma distinct_filter_nth:
  assumes "\<And>m n. m < length xs \<Longrightarrow> n < length xs \<Longrightarrow> xs ! m = xs ! n \<Longrightarrow> P (xs ! m) \<Longrightarrow> m = n"
  shows "distinct (filter P xs)"
  using assms
proof (induction xs)
  case (Cons x xs)
  have tl: "m = n" if "m < length xs" "n < length xs" "xs ! m = xs ! n" "P (xs ! m)" for m n
    using Cons.prems [of "Suc m" "Suc n"] that by simp
  moreover have "x \<notin> set xs" if "P x"
  proof
    assume "x \<in> set xs"
    then obtain n where "n < length xs" "xs ! n = x" by (auto simp: in_set_conv_nth)
    then show False using Cons.prems [of 0 "Suc n"] that by simp
  qed
  ultimately show ?case using Cons.IH by auto
qed simp

lemma sum_list_filter_compl:
  fixes f :: "'a \<Rightarrow> nat"
  shows "sum_list (map f (filter P xs)) + sum_list (map f (filter (\<lambda>x. \<not> P x) xs)) = sum_list (map f xs)"
  by (induction xs) auto

lemma unat_size_t [simp]:
  "n < 2 ^ 64 \<Longrightarrow> unat (word_of_nat n :: size_t) = n"
  by (simp add: unat_of_nat take_bit_nat_eq_self)

lemma unat_less_size_t: "unat (w :: size_t) < 2 ^ 64"
  using unsigned_less [of w, where 'a = nat] by simp

text \<open>\<open>size_t\<close> arithmetic that does not wrap around.\<close>

lemma size_t_sub: "n \<le> unat (w :: size_t) \<Longrightarrow> unat (w - word_of_nat n) = unat w - n"
  using unat_less_size_t [of w] by (simp add: unat_sub word_le_nat_alt)

lemma size_t_add: "unat (w :: size_t) + n < 2 ^ 64 \<Longrightarrow> unat (w + word_of_nat n) = unat w + n"
  by (simp add: unat_plus_if')

end
