(* ===== verification/Cache.thy ===== *)
theory Cache
  imports Prelude
begin

text \<open>
  The response cache, \<open>cache/cache.h\<close> and \<open>cache/cache.cpp\<close>, as it is built: a doubly linked
  list of key-entry pairs in order of use (least recently used first) and a hash table from keys
  to list iterators. An iterator, and a reference to the node it points to, is the identity of a
  list node; it survives \<open>splice\<close> and dies with \<open>erase\<close>. Dereferencing a dead
  iterator is undefined behaviour.
\<close>

section \<open>Data\<close>

text \<open>\<open>Cache::Entry\<close>.\<close>

record entry =
  buffer :: string
  completed :: bool
  in_use :: int

definition new_entry :: entry where
  "new_entry = \<lparr>buffer = [], completed = False, in_use = 1\<rparr>"

definition entry_size :: "entry \<Rightarrow> nat" where
  "entry_size e = length (buffer e)"

definition entry_append :: "string \<Rightarrow> entry \<Rightarrow> entry" where
  "entry_append buf e = e\<lparr>buffer := buffer e @ buf\<rparr>"

definition entry_isCompleted :: "entry \<Rightarrow> bool" where
  "entry_isCompleted e = completed e"

definition entry_complete :: "entry \<Rightarrow> entry" where
  "entry_complete e = e\<lparr>completed := True\<rparr>"

definition entry_inUse :: "entry \<Rightarrow> bool" where
  "entry_inUse e \<longleftrightarrow> in_use e \<noteq> 0"

definition entry_incrementUse :: "entry \<Rightarrow> entry" where
  "entry_incrementUse e = e\<lparr>in_use := in_use e + 1\<rparr>"

definition entry_decrementUse :: "entry \<Rightarrow> entry" where
  "entry_decrementUse e = e\<lparr>in_use := in_use e - 1\<rparr>"

lemmas entry_op_defs = new_entry_def entry_size_def entry_append_def entry_isCompleted_def
  entry_complete_def entry_inUse_def entry_incrementUse_def entry_decrementUse_def

text \<open>
  A node of \<open>list_\<close>: its identity (what an iterator to it is), its key and its entry; and the
  \<open>Cache\<close> object. \<open>next_it\<close> is the next node identity the allocator hands out.
\<close>

type_synonym iterator = nat

record node =
  it :: iterator
  node_key :: string
  node_entry :: entry

record cache =
  max_size :: size_t
  current_size :: size_t
  lru_list :: "node list"
  hash_table :: "string \<rightharpoonup> iterator"
  next_it :: iterator

definition cache_create :: "size_t \<Rightarrow> cache" where
  "cache_create max_bytes = \<lparr>max_size = max_bytes, current_size = 0, lru_list = [],
     hash_table = Map.empty, next_it = 0\<rparr>"

section \<open>Nodes of the list\<close>

definition find_node :: "iterator \<Rightarrow> node list \<Rightarrow> node option" where
  "find_node i l = List.find (\<lambda>n. it n = i) l"

definition erase_node :: "iterator \<Rightarrow> node list \<Rightarrow> node list" where
  "erase_node i l = filter (\<lambda>n. it n \<noteq> i) l"

definition update_node :: "iterator \<Rightarrow> (entry \<Rightarrow> entry) \<Rightarrow> node list \<Rightarrow> node list" where
  "update_node i f l =
     map (\<lambda>n. if it n = i then n\<lparr>node_entry := f (node_entry n)\<rparr> else n) l"

text \<open>Reading and writing an entry through a reference.\<close>

definition deref :: "iterator \<Rightarrow> (entry, cache) act" where
  "deref i = (\<lambda>c. case find_node i (lru_list c) of
       None \<Rightarrow> Undef | Some n \<Rightarrow> Done (node_entry n) c)"

definition deref_update :: "iterator \<Rightarrow> (entry \<Rightarrow> entry) \<Rightarrow> (unit, cache) act" where
  "deref_update i f = (\<lambda>c. case find_node i (lru_list c) of
       None \<Rightarrow> Undef
     | Some _ \<Rightarrow> Done () (c\<lparr>lru_list := update_node i f (lru_list c)\<rparr>))"

section \<open>Operations\<close>

definition contains :: "string \<Rightarrow> cache \<Rightarrow> bool" where
  "contains key c \<longleftrightarrow> hash_table c key \<noteq> None"

definition getFreeSpace :: "cache \<Rightarrow> size_t" where
  "getFreeSpace c = max_size c - current_size c"

text \<open>
  \<open>makeMostRecentlyUsed\<close>: \<open>at\<close> throws for a missing key, which becomes
  \<open>KeyNotFoundException\<close>; \<open>splice\<close> moves the node to the end of the list and keeps its
  identity.
\<close>

definition makeMostRecentlyUsed :: "string \<Rightarrow> (unit, cache) act" where
  "makeMostRecentlyUsed key = (\<lambda>c. case hash_table c key of
       None \<Rightarrow> Raise KeyNotFoundException c
     | Some i \<Rightarrow> (case find_node i (lru_list c) of
           None \<Rightarrow> Undef
         | Some n \<Rightarrow> Done () (c\<lparr>lru_list := erase_node i (lru_list c) @ [n],
                                 hash_table := (hash_table c)(key \<mapsto> i)\<rparr>)))"

text \<open>\<open>getEntry\<close> returns a reference: the identity of the node that holds the entry.\<close>

definition getEntry :: "string \<Rightarrow> (iterator, cache) act" where
  "getEntry key = andThen (makeMostRecentlyUsed key) (\<lambda>_.
     (\<lambda>c. case hash_table c key of None \<Rightarrow> Raise StdOutOfRange c | Some i \<Rightarrow> Done i c))"

text \<open>\<open>list_.back().second\<close>; calling \<open>back\<close> on an empty list is undefined.\<close>

definition back_entry :: "(iterator, cache) act" where
  "back_entry = (\<lambda>c. if lru_list c = [] then Undef else Done (it (last (lru_list c))) c)"

text \<open>\<open>Cache::read\<close>: the bytes \<open>[data + offset, data + offset + len)\<close> of the entry; a range
  that leaves the buffer is undefined.\<close>

definition cache_read :: "string \<Rightarrow> nat \<Rightarrow> nat \<Rightarrow> (string, cache) act" where
  "cache_read key offset len =
     andThen (makeMostRecentlyUsed key) (\<lambda>_.
     andThen back_entry (\<lambda>i.
     andThen (deref i) (\<lambda>e.
     if offset + len \<le> entry_size e then ret (take len (drop offset (buffer e)))
     else undefined_behaviour)))"

definition writeToFront :: "string \<Rightarrow> (unit, cache) act" where
  "writeToFront buf = andThen back_entry (\<lambda>i. deref_update i (entry_append buf))"

definition append_entry :: "string \<Rightarrow> string \<Rightarrow> (unit, cache) act" where
  "append_entry key buf = andThen (makeMostRecentlyUsed key) (\<lambda>_. writeToFront buf)"

text \<open>
  \<open>drop(const std::string &key)\<close> takes its key by reference, and
  \<open>removeLeastRecentlyUsed\<close> passes a reference to the key stored inside the node that
  \<open>drop\<close> then erases: \<open>hash_table_.erase(key)\<close> reads the key of a freed node. A key
  reference is either a string that outlives the call or the key of a list node. Reading a freed
  key is undefined; what the read gives is the parameter \<open>af\<close> of the operations below:
  \<open>af k = None\<close> for the C++ standard's answer, \<open>af k = Some k'\<close> when the freed memory of
  the key \<open>k\<close> still reads as the string \<open>k'\<close>.
\<close>

type_synonym after_free = "string \<Rightarrow> string option"

datatype key_ref = Outside string | InNode iterator

definition read_key :: "key_ref \<Rightarrow> (string, cache) act" where
  "read_key r = (\<lambda>c. case r of
       Outside k \<Rightarrow> Done k c
     | InNode i \<Rightarrow> (case find_node i (lru_list c) of
           None \<Rightarrow> Undef | Some n \<Rightarrow> Done (node_key n) c))"

definition read_key_after_erase :: "after_free \<Rightarrow> key_ref \<Rightarrow> string \<Rightarrow> (string, cache) act" where
  "read_key_after_erase af r key = (case r of
       Outside _ \<Rightarrow> ret key
     | InNode _ \<Rightarrow> (case af key of None \<Rightarrow> undefined_behaviour | Some k' \<Rightarrow> ret k'))"

definition drop_entry :: "after_free \<Rightarrow> key_ref \<Rightarrow> (unit, cache) act" where
  "drop_entry af r =
     andThen (read_key r) (\<lambda>key.
     andThen (get (\<lambda>c. hash_table c key)) (\<lambda>found. case found of
       None \<Rightarrow> ret ()
     | Some i \<Rightarrow>
         andThen (deref i) (\<lambda>e.
         andThen (modify (\<lambda>c. c\<lparr>current_size := current_size c - word_of_nat (entry_size e)\<rparr>)) (\<lambda>_.
         andThen (modify (\<lambda>c. c\<lparr>lru_list := erase_node i (lru_list c)\<rparr>)) (\<lambda>_.
         andThen (read_key_after_erase af r key) (\<lambda>key'.
         modify (\<lambda>c. c\<lparr>hash_table := (hash_table c)(key' := None)\<rparr>)))))))"

definition removeLeastRecentlyUsed :: "after_free \<Rightarrow> (unit, cache) act" where
  "removeLeastRecentlyUsed af =
     andThen (get (\<lambda>c. List.find (\<lambda>n. \<not> entry_inUse (node_entry n)) (lru_list c))) (\<lambda>found.
       case found of
         Some n \<Rightarrow> drop_entry af (InNode (it n))
       | None \<Rightarrow> raise AllInUseException)"

text \<open>The loop of \<open>freeSpace\<close>; \<open>None\<close> means that it does not return.\<close>

partial_function (option) freeSpace_loop ::
  "after_free \<Rightarrow> size_t \<Rightarrow> cache \<Rightarrow> (unit, cache) outcome option" where
  "freeSpace_loop af needed_space c =
     (if getFreeSpace c < needed_space
      then (case removeLeastRecentlyUsed af c of
              Done _ c' \<Rightarrow> freeSpace_loop af needed_space c'
            | r \<Rightarrow> Some r)
      else Some (Done () c))"

definition freeSpace :: "after_free \<Rightarrow> size_t \<Rightarrow> (unit, cache) act" where
  "freeSpace af needed_space = (\<lambda>c. case freeSpace_loop af needed_space c of
       None \<Rightarrow> Hang | Some r \<Rightarrow> r)"

definition cache_write :: "after_free \<Rightarrow> string \<Rightarrow> string \<Rightarrow> (unit, cache) act" where
  "cache_write af key buf =
     andThen (freeSpace af (word_of_nat (length buf))) (\<lambda>_.
     andThen (modify (\<lambda>c. c\<lparr>current_size := current_size c + word_of_nat (length buf)\<rparr>)) (\<lambda>_.
     append_entry key buf))"

definition useEntry :: "string \<Rightarrow> (unit, cache) act" where
  "useEntry key =
     andThen (get (contains key)) (\<lambda>present.
     if present then andThen (getEntry key) (\<lambda>i. deref_update i entry_incrementUse)
     else modify (\<lambda>c. c\<lparr>
       lru_list := lru_list c @ [\<lparr>it = next_it c, node_key = key, node_entry = new_entry\<rparr>],
       hash_table := (hash_table c)(key \<mapsto> next_it c),
       next_it := Suc (next_it c)\<rparr>))"

definition disuseEntry :: "after_free \<Rightarrow> string \<Rightarrow> (unit, cache) act" where
  "disuseEntry af key =
     andThen (get (contains key)) (\<lambda>present.
     if \<not> present then ret ()
     else andThen (getEntry key) (\<lambda>i.
          andThen (deref_update i entry_decrementUse) (\<lambda>_.
          andThen (deref i) (\<lambda>e.
          if \<not> entry_inUse e \<and> \<not> entry_isCompleted e then drop_entry af (Outside key)
          else ret ()))))"

lemmas cache_op_defs = deref_def deref_update_def makeMostRecentlyUsed_def getEntry_def
  back_entry_def cache_read_def writeToFront_def append_entry_def read_key_def
  read_key_after_erase_def drop_entry_def removeLeastRecentlyUsed_def freeSpace_def cache_write_def
  useEntry_def disuseEntry_def

end
