(* ===== verification/Cache_Invariant.thy ===== *)
theory Cache_Invariant
  imports Cache
begin

text \<open>
  The representation invariant of the cache (list and hash table agree, node identities and keys
  are distinct, the bytes held never exceed the bytes accounted for, which never exceed the
  limit), the abstraction to an association list in order of use, and the proof that every
  operation keeps the one and computes the corresponding function on the other.
\<close>

section \<open>Invariant and abstraction\<close>

definition total_bytes :: "node list \<Rightarrow> nat" where
  "total_bytes l = sum_list (map (\<lambda>n. entry_size (node_entry n)) l)"

definition cache_wf :: "cache \<Rightarrow> bool" where
  "cache_wf c \<longleftrightarrow>
     distinct (map it (lru_list c)) \<and> distinct (map node_key (lru_list c)) \<and>
     (\<forall>n \<in> set (lru_list c). it n < next_it c) \<and>
     hash_table c = map_of (map (\<lambda>n. (node_key n, it n)) (lru_list c)) \<and>
     total_bytes (lru_list c) \<le> unat (current_size c) \<and> current_size c \<le> max_size c"

definition accounted :: "cache \<Rightarrow> bool" where
  "accounted c \<longleftrightarrow> total_bytes (lru_list c) = unat (current_size c)"

type_synonym store = "(string \<times> entry) list"

definition abs_nodes :: "node list \<Rightarrow> store" where
  "abs_nodes l = map (\<lambda>n. (node_key n, node_entry n)) l"

definition abs_cache :: "cache \<Rightarrow> store" where
  "abs_cache c = abs_nodes (lru_list c)"

text \<open>What the cache holds for a key.\<close>

definition lookup :: "cache \<Rightarrow> string \<Rightarrow> entry option" where
  "lookup c = map_of (abs_cache c)"

text \<open>The operations on the abstract store.\<close>

definition remove_key :: "'k \<Rightarrow> ('k \<times> 'v) list \<Rightarrow> ('k \<times> 'v) list" where
  "remove_key k l = filter (\<lambda>p. fst p \<noteq> k) l"

definition put_last :: "'k \<Rightarrow> 'v \<Rightarrow> ('k \<times> 'v) list \<Rightarrow> ('k \<times> 'v) list" where
  "put_last k e l = remove_key k l @ [(k, e)]"

definition store_bytes :: "store \<Rightarrow> nat" where
  "store_bytes l = sum_list (map (\<lambda>p. entry_size (snd p)) l)"

named_theorems store_simps \<open>the abstract store\<close>

lemma abs_nodes_simps [store_simps]:
  "abs_nodes [] = []"
  "abs_nodes (n # l) = (node_key n, node_entry n) # abs_nodes l"
  "abs_nodes (l @ l') = abs_nodes l @ abs_nodes l'"
  by (simp_all add: abs_nodes_def)

lemma store_bytes_simps [store_simps]:
  "store_bytes [] = 0"
  "store_bytes (p # l) = entry_size (snd p) + store_bytes l"
  "store_bytes (l @ l') = store_bytes l + store_bytes l'"
  by (simp_all add: store_bytes_def)

lemma total_bytes_abs: "total_bytes l = store_bytes (abs_nodes l)"
  by (simp add: total_bytes_def store_bytes_def abs_nodes_def comp_def)

lemma fst_abs_nodes [simp]: "map fst (abs_nodes l) = map node_key l"
  by (simp add: abs_nodes_def)

lemma remove_key_simps [store_simps]:
  "remove_key k [] = []"
  "remove_key k ((k', e) # l) = (if k' = k then remove_key k l else (k', e) # remove_key k l)"
  "remove_key k (l @ l') = remove_key k l @ remove_key k l'"
  by (simp_all add: remove_key_def)

lemma remove_key_absent: "k \<notin> fst ` set l \<Longrightarrow> remove_key k l = l"
  by (auto simp: remove_key_def intro!: filter_True)

lemma map_of_remove_key [simp]: "map_of (remove_key k l) k' = (if k' = k then None else map_of l k')"
  by (induction l) (auto simp: remove_key_def)

lemma map_of_put_last [simp]: "map_of (put_last k e l) = (map_of l)(k \<mapsto> e)"
  by (auto simp: put_last_def map_add_def fun_eq_iff split: option.split)

lemma store_bytes_remove_key:
  assumes "distinct (map fst l)" and "map_of l k = Some e"
  shows "store_bytes (remove_key k l) + entry_size e = store_bytes l"
  using assms
proof (induction l)
  case (Cons p l)
  obtain k' e' where p: "p = (k', e')" by (cases p)
  show ?case
  proof (cases "k' = k")
    case True
    with Cons.prems p have "k \<notin> fst ` set l" by auto
    with True Cons.prems p show ?thesis by (simp add: store_simps remove_key_absent)
  next
    case False
    with Cons p show ?thesis by (simp add: store_simps)
  qed
qed simp

section \<open>Nodes and keys\<close>

lemma find_node_Some:
  "find_node i l = Some n \<Longrightarrow> n \<in> set l \<and> it n = i"
  by (auto simp: find_node_def find_Some_iff)

lemma find_node_unique:
  assumes "distinct (map it l)" and "n \<in> set l"
  shows "find_node (it n) l = Some n"
proof -
  have "find_node (it n) l \<noteq> None"
    using assms(2) by (auto simp: find_node_def find_None_iff)
  then obtain n' where n': "find_node (it n) l = Some n'" by auto
  then have "n' \<in> set l" "it n' = it n" by (auto dest: find_node_Some)
  with assms have "n' = n" by (auto simp: distinct_map dest: inj_onD)
  with n' show ?thesis by simp
qed

lemma wf_node:
  assumes "cache_wf c" and "n \<in> set (lru_list c)"
  shows "find_node (it n) (lru_list c) = Some n" "hash_table c (node_key n) = Some (it n)"
    "lookup c (node_key n) = Some (node_entry n)"
proof -
  show "find_node (it n) (lru_list c) = Some n"
    using assms by (auto simp: cache_wf_def intro: find_node_unique)
  show "hash_table c (node_key n) = Some (it n)"
    using assms by (auto simp: cache_wf_def comp_def intro!: map_of_is_SomeI)
  show "lookup c (node_key n) = Some (node_entry n)"
    using assms
    by (auto simp: cache_wf_def lookup_def abs_cache_def abs_nodes_def comp_def intro!: map_of_is_SomeI)
qed

lemma wf_hash_Some:
  assumes "cache_wf c" and "hash_table c k = Some i"
  obtains n where "n \<in> set (lru_list c)" "it n = i" "node_key n = k"
    "find_node i (lru_list c) = Some n" "lookup c k = Some (node_entry n)"
proof -
  from assms obtain n where "n \<in> set (lru_list c)" "it n = i" "node_key n = k"
    by (auto simp: cache_wf_def dest!: map_of_SomeD)
  with wf_node [OF assms(1)] that show ?thesis by metis
qed

lemma wf_hash_None: "cache_wf c \<Longrightarrow> hash_table c k = None \<longleftrightarrow> lookup c k = None"
  by (auto simp: cache_wf_def lookup_def abs_cache_def abs_nodes_def map_of_eq_None_iff image_image)

lemma contains_lookup: "cache_wf c \<Longrightarrow> contains k c \<longleftrightarrow> lookup c k \<noteq> None"
  by (simp add: contains_def wf_hash_None)

text \<open>Erasing the node of a key removes the key, updating it updates the entry.\<close>

lemma map_erase_node:
  assumes "distinct (map it l)" "distinct (map node_key l)" "n \<in> set l"
  shows "map (\<lambda>m. (node_key m, f m)) (erase_node (it n) l) =
    remove_key (node_key n) (map (\<lambda>m. (node_key m, f m)) l)"
proof -
  have "it m \<noteq> it n \<longleftrightarrow> node_key m \<noteq> node_key n" if "m \<in> set l" for m
    using assms that by (auto simp: distinct_map dest: inj_onD)
  then have "erase_node (it n) l = filter (\<lambda>m. node_key m \<noteq> node_key n) l"
    unfolding erase_node_def by (intro filter_cong) auto
  then show ?thesis
    by (simp add: remove_key_def filter_map comp_def)
qed

lemmas abs_erase_node = map_erase_node [where f = node_entry, folded abs_nodes_def]

lemma map_update_node [simp]:
  "map it (update_node i f l) = map it l"
  "map node_key (update_node i f l) = map node_key l"
  "map (\<lambda>n. (node_key n, it n)) (update_node i f l) = map (\<lambda>n. (node_key n, it n)) l"
  by (simp_all add: update_node_def comp_def if_distrib [of it] if_distrib [of node_key] cong: if_cong)

lemma update_node_append_last:
  assumes "\<forall>m \<in> set l. it m \<noteq> it n"
  shows "update_node (it n) f (l @ [n]) = l @ [n\<lparr>node_entry := f (node_entry n)\<rparr>]"
  using assms by (auto simp: update_node_def intro: map_idI)

lemma fst_remove_key: "map fst (remove_key k l) = filter (\<lambda>x. x \<noteq> k) (map fst l)"
  by (simp add: remove_key_def filter_map comp_def)

section \<open>Every operation on a well-formed cache\<close>

text \<open>The well-formed caches that hold the same bytes: what the moves inside the list keep.\<close>

lemma cache_wf_permute:
  assumes "cache_wf c" "n \<in> set (lru_list c)"
  shows "cache_wf (c\<lparr>lru_list := erase_node (it n) (lru_list c) @ [n],
                     hash_table := (hash_table c)(node_key n \<mapsto> it n)\<rparr>)"
    and "abs_nodes (erase_node (it n) (lru_list c) @ [n]) =
      put_last (node_key n) (node_entry n) (abs_cache c)"
    and "total_bytes (erase_node (it n) (lru_list c) @ [n]) = total_bytes (lru_list c)"
proof -
  let ?l = "erase_node (it n) (lru_list c)"
  have d: "distinct (map it (lru_list c))" "distinct (map node_key (lru_list c))"
    using assms(1) by (simp_all add: cache_wf_def)
  show abs: "abs_nodes (?l @ [n]) = put_last (node_key n) (node_entry n) (abs_cache c)"
    using d assms(2) by (simp add: abs_erase_node store_simps put_last_def abs_cache_def)
  have keys: "distinct (map node_key (?l @ [n]))"
    using d assms(2) fst_remove_key [of "node_key n" "abs_cache c"]
    by (simp add: abs_cache_def flip: abs_erase_node fst_abs_nodes)
  have its: "distinct (map it (?l @ [n]))"
    using d by (auto simp: erase_node_def distinct_map_filter)
  have hash: "(hash_table c)(node_key n \<mapsto> it n) = map_of (map (\<lambda>n. (node_key n, it n)) (?l @ [n]))"
    using map_erase_node [OF d assms(2), of it] assms(1) map_of_put_last [of "node_key n" "it n"]
    by (simp add: put_last_def cache_wf_def)
  have "store_bytes (remove_key (node_key n) (abs_cache c)) + entry_size (node_entry n) =
      store_bytes (abs_cache c)"
    using d wf_node(3) [OF assms]
    by (intro store_bytes_remove_key) (simp_all add: lookup_def abs_cache_def)
  then show bytes: "total_bytes (?l @ [n]) = total_bytes (lru_list c)"
    by (simp only: total_bytes_abs abs) (simp add: put_last_def store_simps abs_cache_def)
  show "cache_wf (c\<lparr>lru_list := ?l @ [n], hash_table := (hash_table c)(node_key n \<mapsto> it n)\<rparr>)"
    using assms its keys hash bytes by (auto simp: cache_wf_def erase_node_def)
qed

lemma makeMostRecentlyUsed_absent:
  "cache_wf c \<Longrightarrow> lookup c k = None \<Longrightarrow> makeMostRecentlyUsed k c = Raise KeyNotFoundException c"
  by (simp add: makeMostRecentlyUsed_def flip: wf_hash_None)

lemma lookup_node:
  assumes "cache_wf c" "lookup c k = Some e"
  obtains n where "n \<in> set (lru_list c)" "node_key n = k" "node_entry n = e"
    "hash_table c k = Some (it n)" "find_node (it n) (lru_list c) = Some n"
proof -
  from assms(2) obtain n where "n \<in> set (lru_list c)" "node_key n = k" "node_entry n = e"
    by (auto simp: lookup_def abs_cache_def abs_nodes_def dest!: map_of_SomeD)
  with wf_node [OF assms(1)] that show ?thesis by metis
qed

text \<open>
  \<open>moved_to_back k n c c'\<close>: \<open>c'\<close> is \<open>c\<close> with the node \<open>n\<close> of key \<open>k\<close> moved to the end.
\<close>

definition moved_to_back :: "string \<Rightarrow> node \<Rightarrow> cache \<Rightarrow> cache \<Rightarrow> bool" where
  "moved_to_back k n c c' \<longleftrightarrow> cache_wf c' \<and> n \<in> set (lru_list c') \<and> last (lru_list c') = n \<and>
     node_key n = k \<and> hash_table c' k = Some (it n) \<and>
     abs_cache c' = put_last k (node_entry n) (abs_cache c) \<and>
     total_bytes (lru_list c') = total_bytes (lru_list c) \<and>
     max_size c' = max_size c \<and> current_size c' = current_size c"

lemma makeMostRecentlyUsed_present:
  assumes "cache_wf c" "lookup c k = Some e"
  obtains c' n where "makeMostRecentlyUsed k c = Done () c'" "moved_to_back k n c c'" "node_entry n = e"
proof -
  obtain n where n: "n \<in> set (lru_list c)" "node_key n = k" "node_entry n = e"
    "hash_table c k = Some (it n)" "find_node (it n) (lru_list c) = Some n"
    using assms by (rule lookup_node)
  let ?c' = "c\<lparr>lru_list := erase_node (it n) (lru_list c) @ [n],
               hash_table := (hash_table c)(node_key n \<mapsto> it n)\<rparr>"
  have "makeMostRecentlyUsed k c = Done () ?c'"
    using n by (simp add: makeMostRecentlyUsed_def)
  moreover have "moved_to_back k n c ?c'"
    using n cache_wf_permute [OF assms(1) n(1)] by (simp add: moved_to_back_def abs_cache_def)
  ultimately show ?thesis using n(3) by (rule that)
qed

lemma getEntry_present:
  assumes "cache_wf c" "lookup c k = Some e"
  obtains c' n where "getEntry k c = Done (it n) c'" "moved_to_back k n c c'" "node_entry n = e"
proof -
  obtain c' n where "makeMostRecentlyUsed k c = Done () c'" "moved_to_back k n c c'" "node_entry n = e"
    using assms by (rule makeMostRecentlyUsed_present)
  then show ?thesis
    by (intro that [of n c']) (auto simp: getEntry_def andThen_def moved_to_back_def)
qed

lemma getEntry_absent:
  "cache_wf c \<Longrightarrow> lookup c k = None \<Longrightarrow> getEntry k c = Raise KeyNotFoundException c"
  by (simp add: getEntry_def andThen_def makeMostRecentlyUsed_absent)

text \<open>Updating an entry in place.\<close>

definition update_key :: "'k \<Rightarrow> ('v \<Rightarrow> 'v) \<Rightarrow> ('k \<times> 'v) list \<Rightarrow> ('k \<times> 'v) list" where
  "update_key k f l = map (\<lambda>p. if fst p = k then (k, f (snd p)) else p) l"

lemma update_key_remove [simp]: "update_key k f (remove_key k l) = remove_key k l"
  by (induction l) (auto simp: update_key_def remove_key_def)

lemma update_key_put_last [simp]: "update_key k f (put_last k e l) = put_last k (f e) l"
  using update_key_remove [of k f l] by (simp add: put_last_def update_key_def)

lemma map_of_update_key:
  "map_of (update_key k f l) k' = (if k' = k then map_option f (map_of l k) else map_of l k')"
  by (induction l) (auto simp: update_key_def)

lemma abs_update_node:
  assumes "cache_wf c" "n \<in> set (lru_list c)"
  shows "abs_nodes (update_node (it n) f (lru_list c)) = update_key (node_key n) f (abs_cache c)"
proof -
  have "it m = it n \<longleftrightarrow> node_key m = node_key n" if "m \<in> set (lru_list c)" for m
    using assms that by (auto simp: cache_wf_def distinct_map dest: inj_onD)
  then show ?thesis
    by (auto simp: abs_nodes_def abs_cache_def update_node_def update_key_def)
qed

lemma update_node_wf:
  assumes "cache_wf c" "total_bytes (update_node i f (lru_list c)) \<le> unat (current_size c)"
  shows "cache_wf (c\<lparr>lru_list := update_node i f (lru_list c)\<rparr>)"
proof -
  have "\<forall>n \<in> set (update_node i f (lru_list c)). it n < next_it c"
    using assms(1) by (auto simp: cache_wf_def update_node_def)
  with assms show ?thesis by (simp add: cache_wf_def)
qed

lemma put_last_put_last [simp]: "put_last k e (put_last k e' l) = put_last k e l"
  by (simp add: put_last_def store_simps) (simp add: remove_key_def)

text \<open>Bytes of a store whose key has been given a new entry.\<close>

lemma store_bytes_put_last:
  assumes "distinct (map fst l)" "map_of l k = Some e"
  shows "store_bytes (put_last k e' l) + entry_size e = store_bytes l + entry_size e'"
  using store_bytes_remove_key [OF assms] by (simp add: put_last_def store_simps)

lemma wf_distinct_keys: "cache_wf c \<Longrightarrow> distinct (map fst (abs_cache c))"
  by (simp add: cache_wf_def abs_cache_def)

lemma wf_bytes:
  "cache_wf c \<Longrightarrow> total_bytes (lru_list c) \<le> unat (current_size c)"
  "cache_wf c \<Longrightarrow> unat (current_size c) \<le> unat (max_size c)"
  by (simp_all add: cache_wf_def word_le_nat_alt)

lemma moved_update:
  assumes wf: "cache_wf c" and look: "lookup c k = Some (node_entry n)" and mv: "moved_to_back k n c c'"
    and fits: "total_bytes (lru_list c) + entry_size (f (node_entry n)) \<le>
      unat (current_size c) + entry_size (node_entry n)"
  shows "\<exists>c''. deref_update (it n) f c' = Done () c'' \<and> cache_wf c'' \<and>
    abs_cache c'' = put_last k (f (node_entry n)) (abs_cache c) \<and>
    max_size c'' = max_size c \<and> current_size c'' = current_size c \<and> hash_table c'' = hash_table c'"
proof -
  let ?c'' = "c'\<lparr>lru_list := update_node (it n) f (lru_list c')\<rparr>"
  from mv have n: "cache_wf c'" "n \<in> set (lru_list c')" "node_key n = k"
    by (simp_all add: moved_to_back_def)
  have abs: "abs_cache ?c'' = put_last k (f (node_entry n)) (abs_cache c)"
    using mv abs_update_node [OF n(1,2)] n(3) by (simp add: abs_cache_def moved_to_back_def)
  have "total_bytes (update_node (it n) f (lru_list c')) = store_bytes (abs_cache ?c'')"
    by (simp add: total_bytes_abs abs_cache_def)
  also have "\<dots> + entry_size (node_entry n) = total_bytes (lru_list c) + entry_size (f (node_entry n))"
    unfolding abs using store_bytes_put_last [OF wf_distinct_keys [OF wf]] look
    by (simp add: lookup_def total_bytes_abs abs_cache_def)
  finally have "total_bytes (update_node (it n) f (lru_list c')) \<le> unat (current_size c')"
    using fits mv by (simp add: moved_to_back_def)
  with update_node_wf [OF n(1)] have "cache_wf ?c''" by simp
  with abs mv wf_node(1) [OF n(1,2)] show ?thesis
    by (simp add: deref_update_def moved_to_back_def)
qed

end
