(* ===== verification/Cache_Refinement.thy ===== *)
theory Cache_Refinement
  imports Cache_Invariant
begin

text \<open>
  What the cache promises, as functions on the store (an association list, least recently used
  key first), and the proofs that the list-and-hash-table implementation computes them from every
  well-formed state: use, disuse, read, complete, eviction and write.
\<close>

section \<open>The abstract store\<close>

fun store_use :: "string \<Rightarrow> store \<Rightarrow> store" where
  "store_use k l = (case map_of l k of
       None \<Rightarrow> l @ [(k, new_entry)]
     | Some e \<Rightarrow> put_last k (entry_incrementUse e) l)"

definition disposable :: "entry \<Rightarrow> bool" where
  "disposable e \<longleftrightarrow> \<not> entry_inUse e \<and> \<not> entry_isCompleted e"

fun store_disuse :: "string \<Rightarrow> store \<Rightarrow> store" where
  "store_disuse k l = (case map_of l k of
       None \<Rightarrow> l
     | Some e \<Rightarrow> if disposable (entry_decrementUse e) then remove_key k l
                 else put_last k (entry_decrementUse e) l)"

text \<open>
  Eviction in one pass: going from the least recently used end, unused entries are dropped until
  \<open>need\<close> bytes are freed.
\<close>

fun evict :: "nat \<Rightarrow> store \<Rightarrow> store" where
  "evict need [] = []"
| "evict need ((k, e) # l) =
     (if need = 0 then (k, e) # l
      else if entry_inUse e then (k, e) # evict need l
      else evict (need - entry_size e) l)"

definition unused_bytes :: "store \<Rightarrow> nat" where
  "unused_bytes l = store_bytes (filter (\<lambda>p. \<not> entry_inUse (snd p)) l)"

lemma evict_0 [simp]: "evict 0 l = l"
  by (cases l) auto

lemma evict_skip:
  "\<forall>p \<in> set xs. entry_inUse (snd p) \<Longrightarrow> evict need (xs @ l) = xs @ evict need l"
  by (induction xs) auto

lemma evict_all_in_use: "\<forall>p \<in> set l. entry_inUse (snd p) \<Longrightarrow> evict need l = l"
  using evict_skip [of l need "[]"] by simp

lemma unused_bytes_simps [store_simps]:
  "unused_bytes [] = 0"
  "unused_bytes (p # l) = (if entry_inUse (snd p) then 0 else entry_size (snd p)) + unused_bytes l"
  "unused_bytes (l @ l') = unused_bytes l + unused_bytes l'"
  by (simp_all add: unused_bytes_def store_simps)

lemma unused_bytes_all_in_use: "\<forall>p \<in> set l. entry_inUse (snd p) \<Longrightarrow> unused_bytes l = 0"
  by (induction l) (auto simp: store_simps)

lemma evict_keeps_in_use:
  "(k, e) \<in> set l \<Longrightarrow> entry_inUse e \<Longrightarrow> (k, e) \<in> set (evict need l)"
  by (induction need l rule: evict.induct) auto

lemma evict_subset: "set (evict need l) \<subseteq> set l"
  by (induction need l rule: evict.induct) auto

lemma evict_distinct: "distinct (map fst l) \<Longrightarrow> distinct (map fst (evict need l))"
proof (induction need l rule: evict.induct)
  case (2 need k e l)
  have "fst ` set (evict m l) \<subseteq> fst ` set l" for m
    by (rule image_mono [OF evict_subset])
  with 2 show ?case by (auto simp: subset_iff)
qed simp

lemma evict_map_of:
  assumes "distinct (map fst l)" "map_of l k = Some e" "entry_inUse e"
  shows "map_of (evict need l) k = Some e"
  using assms evict_keeps_in_use [of k e l need] evict_distinct [of l need]
  by (auto dest: map_of_SomeD intro: map_of_is_SomeI)

lemma evict_map_of_sub:
  assumes "distinct (map fst l)" "map_of (evict need l) k = Some e"
  shows "map_of l k = Some e"
  using assms evict_subset [of need l] by (auto dest: map_of_SomeD intro: map_of_is_SomeI)

text \<open>The bytes eviction frees: at least the need where there is enough unused, all unused otherwise.\<close>

lemma evict_bytes:
  "store_bytes (evict need l) + min need (unused_bytes l) \<le> store_bytes l"
proof (induction need l rule: evict.induct)
  case (2 need k e l)
  show ?case
  proof (cases "need = 0 \<or> entry_inUse e")
    case True
    with 2 show ?thesis by (auto simp: store_simps)
  next
    case False
    with 2(2) show ?thesis by (auto simp: store_simps min_def split: if_splits)
  qed
qed (simp add: store_simps)

section \<open>Use, disuse, read, completion\<close>

lemma use_absent_wf:
  assumes "cache_wf c" "lookup c k = None"
  shows "cache_wf (c\<lparr>
       lru_list := lru_list c @ [\<lparr>it = next_it c, node_key = k, node_entry = new_entry\<rparr>],
       hash_table := (hash_table c)(k \<mapsto> next_it c), next_it := Suc (next_it c)\<rparr>)"
proof -
  have k: "k \<notin> node_key ` set (lru_list c)"
    using assms(2) by (auto simp: lookup_def abs_cache_def abs_nodes_def map_of_eq_None_iff image_image)
  have "(hash_table c)(k \<mapsto> next_it c) =
      map_of (map (\<lambda>n. (node_key n, it n)) (lru_list c) @ [(k, next_it c)])"
    using assms(1) map_of_put_last [of k "next_it c" "map (\<lambda>n. (node_key n, it n)) (lru_list c)"]
      remove_key_absent [of k "map (\<lambda>n. (node_key n, it n)) (lru_list c)"] k
    by (simp add: put_last_def cache_wf_def image_image)
  with assms(1) k show ?thesis
    by (auto simp: cache_wf_def total_bytes_def entry_size_def new_entry_def less_Suc_eq)
qed

lemma useEntry_correct:
  assumes "cache_wf c"
  shows "\<exists>c'. useEntry k c = Done () c' \<and> cache_wf c' \<and> abs_cache c' = store_use k (abs_cache c) \<and>
    max_size c' = max_size c \<and> current_size c' = current_size c"
proof (cases "lookup c k")
  case None
  with use_absent_wf [OF assms None] assms show ?thesis
    by (simp add: useEntry_def andThen_def get_def modify_def contains_lookup lookup_def
        abs_cache_def abs_nodes_def)
next
  case (Some e)
  obtain c' n where g: "getEntry k c = Done (it n) c'" "moved_to_back k n c c'" "node_entry n = e"
    using getEntry_present [OF assms Some] .
  have "total_bytes (lru_list c) + entry_size (entry_incrementUse (node_entry n)) \<le>
      unat (current_size c) + entry_size (node_entry n)"
    using wf_bytes [OF assms] by (simp add: entry_size_def entry_incrementUse_def)
  from moved_update [where f = entry_incrementUse, OF assms _ g(2) this] g Some assms show ?thesis
    by (auto simp: useEntry_def andThen_def get_def contains_lookup lookup_def)
qed

text \<open>Dropping a key through a reference whose second read gives the key again.\<close>

lemma drop_entry_reading:
  assumes wf: "cache_wf c" and look: "lookup c k = Some e"
    and rd: "read_key r c = Done k c" and again: "read_key_after_erase af r k = ret k"
  shows "\<exists>c'. drop_entry af r c = Done () c' \<and> cache_wf c' \<and>
    abs_cache c' = remove_key k (abs_cache c) \<and> max_size c' = max_size c \<and>
    unat (current_size c') = unat (current_size c) - entry_size e \<and>
    length (lru_list c') < length (lru_list c)"
proof -
  obtain n where n: "n \<in> set (lru_list c)" "node_key n = k" "node_entry n = e"
    "hash_table c k = Some (it n)" "find_node (it n) (lru_list c) = Some n"
    using wf look by (rule lookup_node)
  let ?c' = "c\<lparr>current_size := current_size c - word_of_nat (entry_size e),
    lru_list := erase_node (it n) (lru_list c), hash_table := (hash_table c)(k := None)\<rparr>"
  have run: "drop_entry af r c = Done () ?c'"
    using n by (simp add: drop_entry_def andThen_def rd again get_def modify_def deref_def ret_def)
  have d: "distinct (map it (lru_list c))" "distinct (map node_key (lru_list c))"
    using wf by (simp_all add: cache_wf_def)
  have abs: "abs_cache ?c' = remove_key k (abs_cache c)"
    using abs_erase_node [OF d n(1)] n(2) by (simp add: abs_cache_def)
  have bytes: "store_bytes (abs_cache ?c') + entry_size e = total_bytes (lru_list c)"
    unfolding abs using store_bytes_remove_key [OF wf_distinct_keys [OF wf]] look
    by (simp add: lookup_def total_bytes_abs abs_cache_def)
  moreover have "total_bytes (lru_list c) \<le> unat (current_size c)"
    using wf by (simp add: cache_wf_def)
  ultimately have le: "entry_size e \<le> unat (current_size c)" by simp
  then have cur: "unat (current_size ?c') = unat (current_size c) - entry_size e"
    by (simp add: size_t_sub)
  have hash: "(hash_table c)(k := None) =
      map_of (map (\<lambda>n. (node_key n, it n)) (erase_node (it n) (lru_list c)))"
    using map_erase_node [OF d n(1), of it] wf n(2) by (auto simp: cache_wf_def fun_eq_iff)
  have "cache_wf ?c'"
    using wf bytes cur hash le
    by (auto simp: cache_wf_def erase_node_def distinct_map_filter total_bytes_abs abs_cache_def
        word_le_nat_alt)
  moreover have "length (erase_node (it n) (lru_list c)) < length (lru_list c)"
    using n(1) by (auto simp: erase_node_def intro!: length_filter_less)
  ultimately show ?thesis using run abs cur by auto
qed

lemma disuseEntry_absent:
  "cache_wf c \<Longrightarrow> lookup c k = None \<Longrightarrow> disuseEntry af k c = Done () c"
  by (simp add: disuseEntry_def andThen_def get_def ret_def contains_lookup)

lemma disuseEntry_correct:
  assumes "cache_wf c"
  shows "\<exists>c'. disuseEntry af k c = Done () c' \<and> cache_wf c' \<and>
    abs_cache c' = store_disuse k (abs_cache c) \<and> max_size c' = max_size c \<and>
    unat (current_size c') + store_bytes (abs_cache c) =
      unat (current_size c) + store_bytes (abs_cache c')"
proof (cases "lookup c k")
  case None
  then show ?thesis
    using disuseEntry_absent [OF assms None] assms by (simp add: lookup_def)
next
  case (Some e)
  let ?e = "entry_decrementUse e"
  obtain c1 n where g: "getEntry k c = Done (it n) c1" "moved_to_back k n c c1" "node_entry n = e"
    using getEntry_present [OF assms Some] .
  have size: "entry_size ?e = entry_size e" by (simp add: entry_size_def entry_decrementUse_def)
  then have "total_bytes (lru_list c) + entry_size (entry_decrementUse (node_entry n)) \<le>
      unat (current_size c) + entry_size (node_entry n)"
    using wf_bytes [OF assms] g(3) by simp
  from moved_update [where f = entry_decrementUse, OF assms _ g(2) this] Some g(3)
  obtain c2 where c2: "deref_update (it n) entry_decrementUse c1 = Done () c2" "cache_wf c2"
    "abs_cache c2 = put_last k ?e (abs_cache c)" "max_size c2 = max_size c"
    "current_size c2 = current_size c" "hash_table c2 = hash_table c1"
    by auto
  have look: "lookup c2 k = Some ?e" by (simp add: lookup_def c2(3))
  have "hash_table c2 k = Some (it n)" using c2(6) g(2) by (simp add: moved_to_back_def)
  then have rd: "deref (it n) c2 = Done ?e c2"
    using wf_hash_Some [OF c2(2)] look by (fastforce simp: deref_def)
  have same: "store_bytes (put_last k ?e (abs_cache c)) = store_bytes (abs_cache c)"
    using store_bytes_put_last [OF wf_distinct_keys [OF assms], of k e ?e] Some size
    by (simp add: lookup_def)
  have run: "disuseEntry af k c = (if disposable ?e then drop_entry af (Outside k) c2 else Done () c2)"
    using assms Some
    by (simp add: disuseEntry_def andThen_def get_def ret_def contains_lookup g(1) c2(1) rd disposable_def)
  show ?thesis
  proof (cases "disposable ?e")
    case True
    obtain c3 where c3: "drop_entry af (Outside k) c2 = Done () c3" "cache_wf c3"
      "abs_cache c3 = remove_key k (abs_cache c2)" "max_size c3 = max_size c2"
      "unat (current_size c3) = unat (current_size c2) - entry_size ?e"
      using drop_entry_reading [OF c2(2) look, of "Outside k" af]
      by (auto simp: read_key_def read_key_after_erase_def)
    have abs: "abs_cache c3 = remove_key k (abs_cache c)"
      using c3(3) by (simp add: c2(3) put_last_def store_simps) (simp add: remove_key_def)
    have freed: "store_bytes (abs_cache c3) + entry_size e = store_bytes (abs_cache c)"
      unfolding abs using store_bytes_remove_key [OF wf_distinct_keys [OF assms]] Some
      by (simp add: lookup_def)
    moreover have "store_bytes (abs_cache c) \<le> unat (current_size c)"
      using wf_bytes [OF assms] by (simp add: total_bytes_abs abs_cache_def)
    ultimately show ?thesis
      using True Some c3 c2 run abs size by (simp add: lookup_def)
  next
    case False
    then show ?thesis using Some c2 run same by (simp add: lookup_def)
  qed
qed

lemma cache_read_correct:
  assumes "cache_wf c" "lookup c k = Some e" "offset + len \<le> entry_size e"
  shows "\<exists>c'. cache_read k offset len c = Done (take len (drop offset (buffer e))) c' \<and> cache_wf c' \<and>
    abs_cache c' = put_last k e (abs_cache c) \<and> max_size c' = max_size c \<and>
    current_size c' = current_size c"
proof -
  obtain c' n where m: "makeMostRecentlyUsed k c = Done () c'" "moved_to_back k n c c'" "node_entry n = e"
    using makeMostRecentlyUsed_present [OF assms(1,2)] .
  then have "n \<in> set (lru_list c')" "last (lru_list c') = n" "cache_wf c'"
    by (simp_all add: moved_to_back_def)
  with m assms(3) wf_node(1) show ?thesis
    by (force simp: cache_read_def andThen_def back_entry_def deref_def ret_def moved_to_back_def)
qed

lemma cache_read_absent:
  "cache_wf c \<Longrightarrow> lookup c k = None \<Longrightarrow> cache_read k offset len c = Raise KeyNotFoundException c"
  by (simp add: cache_read_def andThen_def makeMostRecentlyUsed_absent)

text \<open>\<open>cache_->getEntry(key).complete()\<close>, as the server calls it.\<close>

definition completeEntry :: "string \<Rightarrow> (unit, cache) act" where
  "completeEntry key = andThen (getEntry key) (\<lambda>i. deref_update i entry_complete)"

lemma completeEntry_correct:
  assumes "cache_wf c" "lookup c k = Some e"
  shows "\<exists>c'. completeEntry k c = Done () c' \<and> cache_wf c' \<and>
    abs_cache c' = put_last k (entry_complete e) (abs_cache c) \<and> max_size c' = max_size c \<and>
    current_size c' = current_size c"
proof -
  obtain c' n where g: "getEntry k c = Done (it n) c'" "moved_to_back k n c c'" "node_entry n = e"
    using getEntry_present [OF assms] .
  have "total_bytes (lru_list c) + entry_size (entry_complete (node_entry n)) \<le>
      unat (current_size c) + entry_size (node_entry n)"
    using wf_bytes [OF assms(1)] by (simp add: entry_size_def entry_complete_def)
  from moved_update [where f = entry_complete, OF assms(1) _ g(2) this] g assms(2) show ?thesis
    by (auto simp: completeEntry_def andThen_def)
qed

section \<open>Eviction\<close>

text \<open>The memory of a freed key still reads as that key: under it eviction does what it means to.\<close>

definition intact :: "after_free \<Rightarrow> bool" where
  "intact af \<longleftrightarrow> (\<forall>k. af k = Some k)"

lemma removeLeastRecentlyUsed_none:
  assumes "\<forall>p \<in> set (abs_cache c). entry_inUse (snd p)"
  shows "removeLeastRecentlyUsed af c = Raise AllInUseException c"
proof -
  have "List.find (\<lambda>n. \<not> entry_inUse (node_entry n)) (lru_list c) = None"
    using assms by (simp add: find_None_iff abs_cache_def abs_nodes_def)
  then show ?thesis by (simp add: removeLeastRecentlyUsed_def andThen_def get_def raise_def)
qed

lemma removeLeastRecentlyUsed_cases:
  assumes "cache_wf c"
  obtains (all_in_use) "\<forall>p \<in> set (abs_cache c). entry_inUse (snd p)"
  | (victim) n k xs e ys where "n \<in> set (lru_list c)" "node_key n = k" "node_entry n = e"
      "abs_cache c = xs @ (k, e) # ys" "\<forall>p \<in> set xs. entry_inUse (snd p)" "\<not> entry_inUse e"
      "lookup c k = Some e"
      "removeLeastRecentlyUsed af c = drop_entry af (InNode (it n)) c"
proof (cases "List.find (\<lambda>n. \<not> entry_inUse (node_entry n)) (lru_list c)")
  case None
  then show ?thesis
    by (intro all_in_use) (auto simp: find_None_iff abs_cache_def abs_nodes_def)
next
  case (Some n)
  then obtain ys zs where l: "lru_list c = ys @ n # zs" "\<not> entry_inUse (node_entry n)"
    "\<forall>m \<in> set ys. entry_inUse (node_entry m)"
    by (auto simp: find_split)
  have "removeLeastRecentlyUsed af c = drop_entry af (InNode (it n)) c"
    using Some by (simp add: removeLeastRecentlyUsed_def andThen_def get_def)
  with l wf_node(3) [OF assms, of n] show ?thesis
    by (intro victim [of n "node_key n" "node_entry n" "abs_nodes ys" "abs_nodes zs"])
      (auto simp: abs_cache_def store_simps abs_nodes_def)
qed

lemma remove_key_middle:
  assumes "distinct (map fst (xs @ (k, e) # ys))"
  shows "remove_key k (xs @ (k, e) # ys) = xs @ ys"
  using assms by (auto simp: store_simps remove_key_absent)

lemma drop_victim:
  assumes "cache_wf c" "intact af" "n \<in> set (lru_list c)" "abs_cache c = xs @ (node_key n, e) # ys"
    "lookup c (node_key n) = Some e"
  shows "\<exists>c'. drop_entry af (InNode (it n)) c = Done () c' \<and> cache_wf c' \<and>
    abs_cache c' = xs @ ys \<and> max_size c' = max_size c \<and>
    unat (current_size c') = unat (current_size c) - entry_size e \<and>
    length (lru_list c') < length (lru_list c)"
  using drop_entry_reading [OF assms(1,5), of "InNode (it n)" af] assms(2-4)
    wf_node(1) [OF assms(1,3)] remove_key_middle [of xs "node_key n" e ys] wf_distinct_keys [OF assms(1)]
  by (simp add: read_key_def read_key_after_erase_def intact_def)

lemma evict_victim:
  assumes "0 < need" "\<forall>p \<in> set xs. entry_inUse (snd p)" "\<not> entry_inUse e"
  shows "evict need (xs @ (k, e) # ys) = evict (need - entry_size e) (xs @ ys)"
  using assms by (simp add: evict_skip)

lemma getFreeSpace_nat:
  "cache_wf c \<Longrightarrow> unat (getFreeSpace c) = unat (max_size c) - unat (current_size c)"
  using wf_bytes(2) [of c] by (simp add: getFreeSpace_def unat_sub word_le_nat_alt)

text \<open>
  The loop returns, and computes \<open>evict\<close>: normally when the unused entries cover the need, with
  \<open>AllInUseException\<close> (and every unused entry gone) when they do not.
\<close>

lemma freeSpace_loop_correct:
  assumes "cache_wf c" "intact af"
  shows "\<exists>c'. let need = unat (current_size c) + unat n - unat (max_size c) in
    freeSpace_loop af n c =
      Some (if need \<le> unused_bytes (abs_cache c) then Done () c' else Raise AllInUseException c') \<and>
    cache_wf c' \<and> abs_cache c' = evict need (abs_cache c) \<and> max_size c' = max_size c \<and>
    unat (current_size c') + store_bytes (abs_cache c) =
      unat (current_size c) + store_bytes (abs_cache c')"
  using assms(1)
proof (induction "length (lru_list c)" arbitrary: c rule: less_induct)
  case less
  let ?need = "unat (current_size c) + unat n - unat (max_size c)"
  note wf = less.prems
  have guard: "getFreeSpace c < n \<longleftrightarrow> 0 < ?need"
    using getFreeSpace_nat [OF wf] wf_bytes(2) [OF wf] by (auto simp: word_less_nat_alt)
  show ?case
  proof (cases "0 < ?need")
    case False
    with guard wf show ?thesis
      by (subst freeSpace_loop.simps) (auto simp: Let_def)
  next
    case need: True
    show ?thesis
      using wf
    proof (cases rule: removeLeastRecentlyUsed_cases [where af = af])
      case all_in_use
      then show ?thesis
        using need guard wf unused_bytes_all_in_use [OF all_in_use] evict_all_in_use [OF all_in_use]
        by (subst freeSpace_loop.simps) (auto simp: removeLeastRecentlyUsed_none)
    next
      case (victim v k xs e ys)
      obtain c1 where c1: "removeLeastRecentlyUsed af c = Done () c1" "cache_wf c1"
        "abs_cache c1 = xs @ ys" "max_size c1 = max_size c"
        "unat (current_size c1) = unat (current_size c) - entry_size e"
        "length (lru_list c1) < length (lru_list c)"
        using drop_victim [OF wf assms(2) victim(1), of xs e ys] victim by auto
      have bytes: "store_bytes (abs_cache c) \<le> unat (current_size c)"
        using wf_bytes [OF wf] by (simp add: total_bytes_abs abs_cache_def)
      have e: "store_bytes (abs_cache c) = store_bytes (xs @ ys) + entry_size e"
        "unused_bytes (abs_cache c) = unused_bytes (xs @ ys) + entry_size e"
        using victim by (simp_all add: store_simps)
      let ?need1 = "unat (current_size c1) + unat n - unat (max_size c1)"
      have need1: "?need1 = ?need - entry_size e"
        using c1 bytes e by simp
      have evict1: "evict ?need1 (abs_cache c1) = evict ?need (abs_cache c)"
        using evict_victim [OF need victim(5,6), of k ys] victim c1 need1 by simp
      have iff: "?need1 \<le> unused_bytes (abs_cache c1) \<longleftrightarrow> ?need \<le> unused_bytes (abs_cache c)"
        using need1 c1 e by auto
      have loop: "freeSpace_loop af n c = freeSpace_loop af n c1"
        using need guard by (subst freeSpace_loop.simps) (simp add: c1)
      from less.hyps [OF c1(6) c1(2)]
      show ?thesis
        unfolding Let_def loop iff evict1
        using c1 e bytes by (auto simp del: evict.simps)
    qed
  qed
qed

section \<open>Write\<close>

lemma freeSpace_correct:
  assumes "cache_wf c" "intact af" and "need = unat (current_size c) + unat n - unat (max_size c)"
  obtains c' where "freeSpace af n c =
      (if need \<le> unused_bytes (abs_cache c) then Done () c' else Raise AllInUseException c')"
    "cache_wf c'" "abs_cache c' = evict need (abs_cache c)" "max_size c' = max_size c"
    "unat (current_size c') + store_bytes (abs_cache c) =
      unat (current_size c) + store_bytes (abs_cache c')"
  using freeSpace_loop_correct [OF assms(1,2), of n] assms(3)
  by (auto simp: Let_def freeSpace_def)

text \<open>After \<open>freeSpace\<close> the new bytes fit.\<close>

lemma evict_makes_room:
  assumes "cache_wf c" "unat (current_size c') + store_bytes (abs_cache c) =
      unat (current_size c) + store_bytes (evict need (abs_cache c))"
    "need = unat (current_size c) + m - unat (max_size c)" "need \<le> unused_bytes (abs_cache c)"
  shows "unat (current_size c') + m \<le> unat (max_size c)"
  using evict_bytes [of need "abs_cache c"] assms wf_bytes [OF assms(1)]
  by (simp add: total_bytes_abs abs_cache_def min_def)

text \<open>Appending to a key once there is room for the bytes.\<close>

lemma append_with_room:
  assumes wf: "cache_wf c" and room: "unat (current_size c) + length buf \<le> unat (max_size c)"
    and c2: "c2 = c\<lparr>current_size := current_size c + word_of_nat (length buf)\<rparr>"
  shows "cache_wf c2" "abs_cache c2 = abs_cache c"
    "unat (current_size c2) = unat (current_size c) + length buf"
    "lookup c k = None \<Longrightarrow> append_entry k buf c2 = Raise KeyNotFoundException c2"
    "lookup c k = Some e \<Longrightarrow> \<exists>c'. append_entry k buf c2 = Done () c' \<and> cache_wf c' \<and>
      abs_cache c' = put_last k (entry_append buf e) (abs_cache c) \<and> max_size c' = max_size c \<and>
      unat (current_size c') + store_bytes (abs_cache c) =
        unat (current_size c) + store_bytes (abs_cache c')"
proof -
  show cur: "unat (current_size c2) = unat (current_size c) + length buf"
    using room c2 unat_less_size_t [of "max_size c"] by (simp add: size_t_add)
  show wf2: "cache_wf c2"
    using wf room cur c2 by (simp add: cache_wf_def word_le_nat_alt)
  show abs2: "abs_cache c2 = abs_cache c" using c2 by (simp add: abs_cache_def)
  have max2: "max_size c2 = max_size c" using c2 by simp
  show "append_entry k buf c2 = Raise KeyNotFoundException c2" if "lookup c k = None"
    using makeMostRecentlyUsed_absent [OF wf2, of k] that
    by (simp add: append_entry_def andThen_def lookup_def abs2)
  show "\<exists>c'. append_entry k buf c2 = Done () c' \<and> cache_wf c' \<and>
      abs_cache c' = put_last k (entry_append buf e) (abs_cache c) \<and> max_size c' = max_size c \<and>
      unat (current_size c') + store_bytes (abs_cache c) =
        unat (current_size c) + store_bytes (abs_cache c')" if "lookup c k = Some e"
  proof -
    have look2: "lookup c2 k = Some e" using that by (simp add: lookup_def abs2)
    obtain c3 n where m: "makeMostRecentlyUsed k c2 = Done () c3" "moved_to_back k n c2 c3" "node_entry n = e"
      using makeMostRecentlyUsed_present [OF wf2 look2] .
    have "total_bytes (lru_list c2) + entry_size (entry_append buf (node_entry n)) \<le>
        unat (current_size c2) + entry_size (node_entry n)"
      using wf_bytes(1) [OF wf] cur c2 by (simp add: entry_size_def entry_append_def)
    from moved_update [where f = "entry_append buf", OF wf2 _ m(2) this] m(3) look2
    obtain c4 where c4: "deref_update (it n) (entry_append buf) c3 = Done () c4" "cache_wf c4"
      "abs_cache c4 = put_last k (entry_append buf e) (abs_cache c)" "max_size c4 = max_size c"
      "current_size c4 = current_size c2"
      by (auto simp: abs2 max2)
    have "append_entry k buf c2 = Done () c4"
      using m c4(1)
      by (auto simp: andThen_def append_entry_def writeToFront_def back_entry_def moved_to_back_def)
    moreover have "store_bytes (abs_cache c4) + entry_size e =
        store_bytes (abs_cache c) + entry_size (entry_append buf e)"
      unfolding c4(3) using store_bytes_put_last [OF wf_distinct_keys [OF wf]] that
      by (simp add: lookup_def)
    ultimately show ?thesis
      using c4 cur by (auto simp: entry_size_def entry_append_def)
  qed
qed

text \<open>The whole write: free space, account, append.\<close>

lemma cache_write_cases:
  assumes wf: "cache_wf c" and af: "intact af" and len: "length buf < 2 ^ 64"
    and need: "need = unat (current_size c) + length buf - unat (max_size c)"
  obtains (all_in_use) c1 where "unused_bytes (abs_cache c) < need"
      "cache_write af k buf c = Raise AllInUseException c1" "cache_wf c1"
      "abs_cache c1 = evict need (abs_cache c)" "max_size c1 = max_size c"
      "unat (current_size c1) + store_bytes (abs_cache c) =
        unat (current_size c) + store_bytes (abs_cache c1)"
    | (fits) c1 c2 where "need \<le> unused_bytes (abs_cache c)"
      "cache_write af k buf c = append_entry k buf c2" "cache_wf c1"
      "abs_cache c1 = evict need (abs_cache c)" "max_size c1 = max_size c"
      "unat (current_size c1) + store_bytes (abs_cache c) =
        unat (current_size c) + store_bytes (abs_cache c1)"
      "unat (current_size c1) + length buf \<le> unat (max_size c1)"
      "c2 = c1\<lparr>current_size := current_size c1 + word_of_nat (length buf)\<rparr>"
proof -
  have n: "unat (word_of_nat (length buf) :: size_t) = length buf" using len by simp
  obtain c1 where c1: "freeSpace af (word_of_nat (length buf)) c =
      (if need \<le> unused_bytes (abs_cache c) then Done () c1 else Raise AllInUseException c1)"
    "cache_wf c1" "abs_cache c1 = evict need (abs_cache c)" "max_size c1 = max_size c"
    "unat (current_size c1) + store_bytes (abs_cache c) =
      unat (current_size c) + store_bytes (abs_cache c1)"
    using freeSpace_correct [OF wf af, of need "word_of_nat (length buf)"] need n by metis
  show ?thesis
  proof (cases "need \<le> unused_bytes (abs_cache c)")
    case False
    with c1 show ?thesis by (intro all_in_use [of c1]) (auto simp: cache_write_def andThen_def)
  next
    case True
    with c1 evict_makes_room [OF wf _ need True, of c1] show ?thesis
      by (intro fits [of "c1\<lparr>current_size := current_size c1 + word_of_nat (length buf)\<rparr>" c1])
        (auto simp: cache_write_def andThen_def modify_def)
  qed
qed

lemma cache_write_correct:
  assumes wf: "cache_wf c" and af: "intact af" and look: "lookup c k = Some e" and used: "entry_inUse e"
    and len: "length buf < 2 ^ 64"
    and need: "need = unat (current_size c) + length buf - unat (max_size c)"
  shows "\<exists>c'. cache_write af k buf c =
      (if need \<le> unused_bytes (abs_cache c) then Done () c' else Raise AllInUseException c') \<and>
    cache_wf c' \<and>
    abs_cache c' = (if need \<le> unused_bytes (abs_cache c)
      then put_last k (entry_append buf e) (evict need (abs_cache c)) else evict need (abs_cache c)) \<and>
    max_size c' = max_size c \<and>
    unat (current_size c') + store_bytes (abs_cache c) =
      unat (current_size c) + store_bytes (abs_cache c')"
  using wf af len need
proof (cases rule: cache_write_cases [where k = k])
  case (all_in_use c1)
  then show ?thesis by auto
next
  case (fits c1 c2)
  have "lookup c1 k = Some e"
    using look fits(4) evict_map_of [OF wf_distinct_keys [OF wf] _ used] by (simp add: lookup_def)
  from append_with_room(5) [OF fits(3,7,8) this] fits show ?thesis by auto
qed

text \<open>A write keeps the invariant however it ends.\<close>

lemma cache_write_wf:
  assumes "cache_wf c" "intact af" "length buf < 2 ^ 64"
  shows "wp False (cache_write af k buf) (\<lambda>_ c'. cache_wf c' \<and> max_size c' = max_size c)
    (\<lambda>e c'. is_spx_exception e \<and> cache_wf c' \<and> max_size c' = max_size c) c"
  using assms refl
proof (cases rule: cache_write_cases [where k = k])
  case (all_in_use c1)
  then show ?thesis by (simp add: wp_def)
next
  case (fits c1 c2)
  note app = append_with_room [OF fits(3,7,8)]
  show ?thesis
  proof (cases "lookup c1 k")
    case None
    with app(1,4) fits show ?thesis by (simp add: wp_def)
  next
    case (Some e)
    from app(5) [OF this] fits(2,5) show ?thesis by (auto simp: wp_def)
  qed
qed

text \<open>A write to a key that is not there: the bytes are accounted for and never stored.\<close>

lemma cache_write_absent:
  assumes "cache_wf c" "lookup c k = None" "word_of_nat (length buf) \<le> getFreeSpace c"
  shows "cache_write af k buf c =
    Raise KeyNotFoundException (c\<lparr>current_size := current_size c + word_of_nat (length buf)\<rparr>)"
proof -
  have "\<not> getFreeSpace c < word_of_nat (length buf)"
    using assms(3) by (simp add: not_less)
  then have "freeSpace af (word_of_nat (length buf)) c = Done () c"
    by (simp add: freeSpace_def freeSpace_loop.simps)
  moreover have "hash_table c k = None"
    using assms by (simp add: wf_hash_None)
  ultimately show ?thesis
    by (simp add: cache_write_def andThen_def modify_def append_entry_def makeMostRecentlyUsed_def)
qed

end
