(* ===== verification/Cache_Interface.thy ===== *)
theory Cache_Interface
  imports Cache_Refinement
begin

text \<open>
  The contract between the cache and the server: a locale whose operations are the calls the
  server makes and whose assumptions are what it relies on, with the server-side lemmas about
  storing a response chunk by chunk and streaming it back; its interpretation on the model of
  \<open>cache.cpp\<close>; and the caches reachable by any sequence of calls.
\<close>

section \<open>Streaming an entry\<close>

text \<open>
  Streaming an entry the way \<open>sendCachedResponseToClient\<close> does: each round fetches at most
  \<open>chunk\<close> bytes at the number of bytes already sent, and the socket takes some of them
  (each \<open>w\<close> says how many). The result is what has been sent.
\<close>

fun stream_entry :: "(string \<Rightarrow> nat \<Rightarrow> nat \<Rightarrow> (string, 'c) act) \<Rightarrow> nat \<Rightarrow> string \<Rightarrow> nat list \<Rightarrow> nat \<Rightarrow> nat \<Rightarrow>
    (string, 'c) act" where
  "stream_entry fetch chunk k [] size_e sent = ret []"
| "stream_entry fetch chunk k (w # ws) size_e sent =
     (if sent < size_e then
        andThen (fetch k sent (min (size_e - sent) chunk)) (\<lambda>bytes.
        andThen (stream_entry fetch chunk k ws size_e (sent + min w (length bytes))) (\<lambda>rest.
        ret (take w bytes @ rest)))
      else ret [])"

section \<open>The contract\<close>

locale response_store =
  fixes inv :: "'c \<Rightarrow> bool"
    and look :: "'c \<Rightarrow> string \<Rightarrow> entry option"
    and use :: "string \<Rightarrow> (unit, 'c) act"
    and disuse :: "string \<Rightarrow> (unit, 'c) act"
    and store :: "string \<Rightarrow> string \<Rightarrow> (unit, 'c) act"
    and fetch :: "string \<Rightarrow> nat \<Rightarrow> nat \<Rightarrow> (string, 'c) act"
  assumes use_law: "inv c \<Longrightarrow> \<exists>c'. use k c = Done () c' \<and> inv c' \<and>
      look c' = (look c)(k \<mapsto> (case look c k of None \<Rightarrow> new_entry | Some e \<Rightarrow> entry_incrementUse e))"
    and disuse_law: "inv c \<Longrightarrow> look c k = Some e \<Longrightarrow> \<exists>c'. disuse k c = Done () c' \<and> inv c' \<and>
      look c' = (look c)(k := (if disposable (entry_decrementUse e) then None
                               else Some (entry_decrementUse e)))"
    and disuse_absent_law: "inv c \<Longrightarrow> look c k = None \<Longrightarrow> disuse k c = Done () c"
    and store_law: "inv c \<Longrightarrow> look c k = Some e \<Longrightarrow> entry_inUse e \<Longrightarrow> length buf < 2 ^ 64 \<Longrightarrow>
      \<exists>c'. inv c' \<and> (\<forall>k' e'. k' \<noteq> k \<longrightarrow> look c k' = Some e' \<longrightarrow> entry_inUse e' \<longrightarrow> look c' k' = Some e') \<and>
        (store k buf c = Done () c' \<and> look c' k = Some (entry_append buf e) \<or>
         store k buf c = Raise AllInUseException c' \<and> look c' k = Some e)"
    and fetch_law: "inv c \<Longrightarrow> look c k = Some e \<Longrightarrow> offset + len \<le> entry_size e \<Longrightarrow>
      \<exists>c'. fetch k offset len c = Done (take len (drop offset (buffer e))) c' \<and> inv c' \<and>
        look c' = look c"
begin

text \<open>A response stored chunk by chunk is the concatenation of its chunks.\<close>

lemma store_chunks:
  assumes "inv c" "look c k = Some e" "entry_inUse e" "\<forall>b \<in> set bufs. length b < 2 ^ 64"
    "forEach bufs (store k) c = Done () c'"
  shows "inv c' \<and> look c' k = Some (entry_append (concat bufs) e)"
  using assms
proof (induction bufs arbitrary: c e)
  case Nil
  then show ?case by (simp add: ret_def entry_append_def)
next
  case (Cons b bufs)
  obtain c1 where c1: "inv c1" "store k b c = Done () c1 \<and> look c1 k = Some (entry_append b e) \<or>
      store k b c = Raise AllInUseException c1 \<and> look c1 k = Some e"
    using store_law [OF Cons.prems(1-3), of b] Cons.prems(4) by auto
  with Cons.prems(5) have run: "look c1 k = Some (entry_append b e)" "forEach bufs (store k) c1 = Done () c'"
    by (auto simp: andThen_def)
  have "inv c' \<and> look c' k = Some (entry_append (concat bufs) (entry_append b e))"
    using Cons.prems(3,4) by (intro Cons.IH [OF c1(1) run(1) _ _ run(2)]) (auto simp: entry_inUse_def entry_append_def)
  then show ?case by (simp add: entry_append_def)
qed

text \<open>What has been sent is always a prefix of the entry.\<close>

lemma stream_prefix:
  assumes "inv c" "look c k = Some e" "sent \<le> entry_size e"
  shows "\<exists>c' n. stream_entry fetch chunk k ws (entry_size e) sent c = Done (take n (drop sent (buffer e))) c' \<and>
    inv c' \<and> look c' = look c"
  using assms
proof (induction ws arbitrary: c sent)
  case Nil
  then show ?case by (auto simp: ret_def intro: exI [of _ 0])
next
  case (Cons w ws)
  show ?case
  proof (cases "sent < entry_size e")
    case False
    with Cons.prems show ?thesis by (auto simp: ret_def intro: exI [of _ 0])
  next
    case True
    let ?m = "min (entry_size e - sent) chunk"
    let ?b = "take ?m (drop sent (buffer e))"
    have "sent + ?m \<le> entry_size e" using True by simp
    from fetch_law [OF Cons.prems(1,2) this]
    obtain c1 where c1: "fetch k sent ?m c = Done ?b c1" "inv c1" "look c1 = look c" by auto
    have len: "length ?b = ?m" by (simp add: entry_size_def)
    have fits: "sent + min w ?m \<le> entry_size e" using True by simp
    from Cons.IH [OF c1(2) _ fits] c1(3) Cons.prems(2) obtain c2 n where
      c2: "stream_entry fetch chunk k ws (entry_size e) (sent + min w ?m) c1 =
        Done (take n (drop (sent + min w ?m) (buffer e))) c2" "inv c2" "look c2 = look c"
      by auto
    have "take w ?b = take (min w ?m) (drop sent (buffer e))" by (simp add: min.commute)
    then have "take w ?b @ take n (drop (sent + min w ?m) (buffer e)) =
        take (min w ?m + n) (drop sent (buffer e))"
      by (simp only: take_add drop_drop add.commute [of sent])
    with c1 c2 len True show ?thesis
      by (intro exI [of _ c2] exI [of _ "min w ?m + n"]) (simp add: andThen_def ret_def)
  qed
qed

end

section \<open>The cache keeps the contract\<close>

lemma lookup_abs: "abs_cache c' = l \<Longrightarrow> lookup c' = map_of l"
  by (simp add: lookup_def)

lemma map_of_store_use:
  "map_of (store_use k l) = (map_of l)(k \<mapsto> (case map_of l k of None \<Rightarrow> new_entry
     | Some e \<Rightarrow> entry_incrementUse e))"
  by (auto simp: map_add_def fun_eq_iff split: option.split)

interpretation rs: response_store cache_wf lookup useEntry "disuseEntry af" "cache_write Some" cache_read
proof unfold_locales
  fix c k assume "cache_wf c"
  from useEntry_correct [OF this, of k] show "\<exists>c'. useEntry k c = Done () c' \<and> cache_wf c' \<and>
      lookup c' = (lookup c)(k \<mapsto> (case lookup c k of None \<Rightarrow> new_entry | Some e \<Rightarrow> entry_incrementUse e))"
    by (auto simp del: store_use.simps simp: lookup_def map_of_store_use)
next
  fix c k e assume "cache_wf c" "lookup c k = Some e"
  with disuseEntry_correct [of c af k] show "\<exists>c'. disuseEntry af k c = Done () c' \<and> cache_wf c' \<and>
      lookup c' = (lookup c)(k := (if disposable (entry_decrementUse e) then None
                                   else Some (entry_decrementUse e)))"
    by (auto simp: lookup_def fun_eq_iff)
next
  fix c k assume "cache_wf c" "lookup c k = None"
  then show "disuseEntry af k c = Done () c" by (rule disuseEntry_absent)
next
  fix c k e buf assume prems: "cache_wf c" "lookup c k = Some e" "entry_inUse e" "length (buf :: string) < 2 ^ 64"
  obtain c' where c': "cache_wf c'" "cache_write Some k buf c =
      (if unat (current_size c) + length buf - unat (max_size c) \<le> unused_bytes (abs_cache c)
       then Done () c' else Raise AllInUseException c')"
    "abs_cache c' = (if unat (current_size c) + length buf - unat (max_size c) \<le> unused_bytes (abs_cache c)
      then put_last k (entry_append buf e) (evict (unat (current_size c) + length buf - unat (max_size c)) (abs_cache c))
      else evict (unat (current_size c) + length buf - unat (max_size c)) (abs_cache c))"
    using cache_write_correct [OF prems(1) _ prems(2-4) refl, of Some] by (auto simp: intact_def)
  with evict_map_of [OF wf_distinct_keys [OF prems(1)]] prems
  show "\<exists>c'. cache_wf c' \<and>
      (\<forall>k' e'. k' \<noteq> k \<longrightarrow> lookup c k' = Some e' \<longrightarrow> entry_inUse e' \<longrightarrow> lookup c' k' = Some e') \<and>
      (cache_write Some k buf c = Done () c' \<and> lookup c' k = Some (entry_append buf e) \<or>
       cache_write Some k buf c = Raise AllInUseException c' \<and> lookup c' k = Some e)"
    by (intro exI [of _ c']) (auto simp: lookup_def)
next
  fix c k e offset len assume prems: "cache_wf c" "lookup c k = Some e" "offset + len \<le> entry_size e"
  from cache_read_correct [OF this] prems(2)
  show "\<exists>c'. cache_read k offset len c = Done (take len (drop offset (buffer e))) c' \<and> cache_wf c' \<and>
      lookup c' = lookup c"
    by (auto simp: lookup_def fun_upd_idem)
qed

section \<open>Reachable caches\<close>

text \<open>The calls of the public interface, and the caches that sequences of them reach.\<close>

datatype cache_call =
    CallWrite string string
  | CallRead string nat nat
  | CallUse string
  | CallDisuse string
  | CallComplete string
  | CallGetEntry string

fun run_call :: "after_free \<Rightarrow> cache_call \<Rightarrow> (unit, cache) act" where
  "run_call af (CallWrite k buf) = cache_write af k buf"
| "run_call af (CallRead k offset len) = andThen (cache_read k offset len) (\<lambda>_. ret ())"
| "run_call af (CallUse k) = useEntry k"
| "run_call af (CallDisuse k) = disuseEntry af k"
| "run_call af (CallComplete k) = completeEntry k"
| "run_call af (CallGetEntry k) = andThen (getEntry k) (\<lambda>_. ret ())"

text \<open>A buffer has a length that \<open>size_t\<close> can hold; a read stays inside its entry.\<close>

fun call_fits :: "cache_call \<Rightarrow> cache \<Rightarrow> bool" where
  "call_fits (CallWrite k buf) c = (length buf < 2 ^ 64)"
| "call_fits (CallRead k offset len) c =
     (case lookup c k of None \<Rightarrow> True | Some e \<Rightarrow> offset + len \<le> entry_size e)"
| "call_fits _ c = True"

inductive cache_reach :: "after_free \<Rightarrow> size_t \<Rightarrow> cache \<Rightarrow> bool" for af m where
  start: "cache_reach af m (cache_create m)"
| returned: "cache_reach af m c \<Longrightarrow> call_fits call c \<Longrightarrow> run_call af call c = Done () c' \<Longrightarrow>
    cache_reach af m c'"
| thrown: "cache_reach af m c \<Longrightarrow> call_fits call c \<Longrightarrow> run_call af call c = Raise e c' \<Longrightarrow>
    cache_reach af m c'"

inductive_cases cache_reach_cases: "cache_reach af m c"

lemma cache_create_wf: "cache_wf (cache_create m)"
  by (simp add: cache_wf_def cache_create_def total_bytes_def)

text \<open>One call from a well-formed cache: it returns or throws, and the cache stays well-formed.\<close>

lemma run_call_wf:
  assumes "cache_wf c" "intact af" "call_fits call c"
  shows "wp False (run_call af call) (\<lambda>_ c'. cache_wf c' \<and> max_size c' = max_size c)
    (\<lambda>e c'. is_spx_exception e \<and> cache_wf c' \<and> max_size c' = max_size c) c"
proof (cases call)
  case (CallWrite k buf)
  with cache_write_wf [OF assms(1,2), of buf k] assms(3) show ?thesis by simp
next
  case (CallRead k offset len)
  then show ?thesis
    using assms cache_read_absent [OF assms(1), of k] cache_read_correct [OF assms(1), of k _ offset len]
    by (cases "lookup c k") (auto simp: wp_simps, auto simp: wp_def ret_def)
next
  case (CallUse k)
  with useEntry_correct [OF assms(1), of k] show ?thesis by (auto simp: wp_def simp del: store_use.simps)
next
  case (CallDisuse k)
  with disuseEntry_correct [OF assms(1), of af k] show ?thesis
    by (auto simp: wp_def simp del: store_disuse.simps)
next
  case (CallComplete k)
  then show ?thesis
    using assms(1) completeEntry_correct [OF assms(1), of k] getEntry_absent [OF assms(1), of k]
    by (cases "lookup c k") (auto simp: wp_def completeEntry_def andThen_def)
next
  case (CallGetEntry k)
  show ?thesis
  proof (cases "lookup c k")
    case None
    with CallGetEntry getEntry_absent [OF assms(1)] assms(1) show ?thesis
      by (simp add: wp_def andThen_def)
  next
    case (Some e)
    then obtain c' n where "getEntry k c = Done (it n) c'" "moved_to_back k n c c'"
      using getEntry_present [OF assms(1)] by blast
    with CallGetEntry show ?thesis by (simp add: wp_simps) (simp add: wp_def ret_def moved_to_back_def)
  qed
qed

lemma cache_reach_inv: "cache_reach af m c \<Longrightarrow> intact af \<Longrightarrow> cache_wf c \<and> max_size c = m"
proof (induction rule: cache_reach.induct)
  case start
  show ?case using cache_create_wf by (simp add: cache_create_def)
next
  case (returned c call c')
  with run_call_wf [of c af call] show ?case by (simp add: wp_def)
next
  case (thrown c call e c')
  with run_call_wf [of c af call] show ?case by (simp add: wp_def)
qed

section \<open>Eviction under the letter of the standard\<close>

text \<open>
  With the standard's reading of a freed key, every eviction is undefined behaviour: the loop of
  \<open>freeSpace\<close> gets no further than its first victim.
\<close>

lemma eviction_undefined:
  assumes "cache_wf c" "getFreeSpace c < n" "\<exists>p \<in> set (abs_cache c). \<not> entry_inUse (snd p)"
  shows "freeSpace (\<lambda>_. None) n c = Undef"
  using assms(1)
proof (cases rule: removeLeastRecentlyUsed_cases [where af = "\<lambda>_. None"])
  case all_in_use
  with assms(3) show ?thesis by blast
next
  case (victim v k xs e ys)
  note node = wf_node [OF assms(1) victim(1)]
  have "drop_entry (\<lambda>_. None) (InNode (it v)) c = Undef"
    using node by (simp add: drop_entry_def andThen_def read_key_def get_def deref_def modify_def
        read_key_after_erase_def undefined_behaviour_def)
  with victim assms(2) show ?thesis
    by (simp add: freeSpace_def freeSpace_loop.simps)
qed

end
