(* ===== verification/Scanner.thy ===== *)
theory Scanner
  imports Prelude
begin

text \<open>
  The shape the three parsers share: a loop over the bytes of a string that switches on a state
  and either goes on or leaves the loop with a result. The contract of such a loop is a locale:
  an invariant every step keeps and a condition every result meets.
\<close>

datatype ('r, 's) scan = Continue 's | Return 'r

fun run_scan :: "(char \<Rightarrow> 's \<Rightarrow> ('r, 's) scan) \<Rightarrow> string \<Rightarrow> 's \<Rightarrow> ('r, 's) scan" where
  "run_scan step [] s = Continue s"
| "run_scan step (c # cs) s = (case step c s of Continue s' \<Rightarrow> run_scan step cs s' | Return r \<Rightarrow> Return r)"

text \<open>A string read in two parts is read as a whole: the loop may be fed incrementally.\<close>

lemma run_scan_append:
  "run_scan step (xs @ ys) s =
     (case run_scan step xs s of Continue s' \<Rightarrow> run_scan step ys s' | Return r \<Rightarrow> Return r)"
  by (induction xs arbitrary: s) (auto split: scan.split)

text \<open>What follows the byte that ends the loop is not read.\<close>

lemma run_scan_Return_append: "run_scan step xs s = Return r \<Longrightarrow> run_scan step (xs @ ys) s = Return r"
  by (simp add: run_scan_append)

text \<open>A run of bytes that all stay in one state and are collected one by one.\<close>

lemma run_scan_span:
  assumes "\<And>c acc. P c \<Longrightarrow> step c (f acc) = Continue (f (acc @ [c]))" and "\<forall>c \<in> set xs. P c"
  shows "run_scan step xs (f acc) = Continue (f (acc @ xs))"
  using assms(2) by (induction xs arbitrary: acc) (simp_all add: assms(1))

locale scanner =
  fixes step :: "char \<Rightarrow> 's \<Rightarrow> ('r, 's) scan"
    and inv :: "'s \<Rightarrow> bool"
    and good :: "'r \<Rightarrow> bool"
  assumes step_inv: "inv s \<Longrightarrow> step c s = Continue s' \<Longrightarrow> inv s'"
    and step_good: "inv s \<Longrightarrow> step c s = Return r \<Longrightarrow> good r"
begin

lemma run_inv: "inv s \<Longrightarrow> run_scan step cs s = Continue s' \<Longrightarrow> inv s'"
  by (induction cs arbitrary: s) (auto split: scan.splits dest: step_inv)

lemma run_good: "inv s \<Longrightarrow> run_scan step cs s = Return r \<Longrightarrow> good r"
  by (induction cs arbitrary: s) (auto split: scan.splits dest: step_inv step_good)

end

end
