(* ===== verification/Chars.thy ===== *)
theory Chars
  imports Prelude
begin

text \<open>
  The character and number routines of the C library that the parsers call, for the C locale and
  the signed 8-bit \<open>char\<close> of x86-64, and the character classes the parsers define themselves. A
  byte is an Isabelle \<open>char\<close>; \<open>c_int\<close> is the \<open>int\<close> it is promoted to.
\<close>

section \<open>Character classes\<close>

definition char_code :: "char \<Rightarrow> nat" where
  "char_code c = of_char c"

definition c_int :: "char \<Rightarrow> int" where
  "c_int c = (if char_code c < 128 then int (char_code c) else int (char_code c) - 256)"

definition isdigit :: "char \<Rightarrow> bool" where
  "isdigit c \<longleftrightarrow> 48 \<le> char_code c \<and> char_code c \<le> 57"

definition isalpha :: "char \<Rightarrow> bool" where
  "isalpha c \<longleftrightarrow> 65 \<le> char_code c \<and> char_code c \<le> 90 \<or> 97 \<le> char_code c \<and> char_code c \<le> 122"

definition isalnum :: "char \<Rightarrow> bool" where
  "isalnum c \<longleftrightarrow> isalpha c \<or> isdigit c"

definition isspace :: "char \<Rightarrow> bool" where
  "isspace c \<longleftrightarrow> char_code c = 32 \<or> 9 \<le> char_code c \<and> char_code c \<le> 13"

lemmas ctype_defs = char_code_def isdigit_def isalpha_def isalnum_def isspace_def

text \<open>\<open>isChar\<close>, \<open>isControl\<close>, \<open>isSpecial\<close> and \<open>isDigit\<close> of the HTTP parsers.\<close>

definition isChar :: "char \<Rightarrow> bool" where
  "isChar c \<longleftrightarrow> 0 \<le> c_int c \<and> c_int c \<le> 127"

definition isControl :: "char \<Rightarrow> bool" where
  "isControl c \<longleftrightarrow> (0 \<le> c_int c \<and> c_int c \<le> 31) \<or> c_int c = 127"

definition isSpecial :: "char \<Rightarrow> bool" where
  "isSpecial c \<longleftrightarrow> c \<in> set [CHR ''('', CHR '')'', CHR ''<'', CHR ''>'', CHR ''@'', CHR '','', CHR '';'',
     CHR '':'', CHR 0x5C, CHR 0x22, CHR ''/'', CHR ''['', CHR '']'', CHR ''?'', CHR ''='', CHR ''{'',
     CHR ''}'', CHR '' '', CHR 0x09]"

definition isDigit :: "char \<Rightarrow> bool" where
  "isDigit c \<longleftrightarrow> 48 \<le> c_int c \<and> c_int c \<le> 57"

abbreviation CR :: char where "CR \<equiv> CHR 0x0D"
abbreviation LF :: char where "LF \<equiv> CHR 0x0A"
abbreviation TAB :: char where "TAB \<equiv> CHR 0x09"
abbreviation SP :: char where "SP \<equiv> CHR 0x20"

text \<open>\<open>httpparser::CRLF\<close>.\<close>

definition CRLF :: string where
  "CRLF = [CR, LF]"

lemma char_code_less: "char_code c < 256"
  by (simp add: char_code_def)

lemma isDigit_isdigit: "isDigit c = isdigit c"
  using char_code_less [of c] by (auto simp: isDigit_def isdigit_def c_int_def)

lemma isControl_code: "isControl c \<longleftrightarrow> char_code c \<le> 31 \<or> char_code c = 127"
  using char_code_less [of c] by (auto simp: isControl_def c_int_def)

lemma isChar_code: "isChar c \<longleftrightarrow> char_code c \<le> 127"
  using char_code_less [of c] by (auto simp: isChar_def c_int_def)

text \<open>A byte of an HTTP token: what the parser accepts in a method or a header name.\<close>

definition isToken :: "char \<Rightarrow> bool" where
  "isToken c \<longleftrightarrow> isChar c \<and> \<not> isControl c \<and> \<not> isSpecial c"

section \<open>Strings and numbers\<close>

text \<open>The C string a \<open>std::string\<close>'s \<open>c_str()\<close> denotes ends at the first NUL.\<close>

definition c_str :: "string \<Rightarrow> string" where
  "c_str s = takeWhile (\<lambda>c. c \<noteq> CHR 0x00) s"

definition tolower :: "char \<Rightarrow> char" where
  "tolower c = (if 65 \<le> char_code c \<and> char_code c \<le> 90 then char_of (char_code c + 32) else c)"

text \<open>\<open>strcasecmp(a.c_str(), b.c_str()) == 0\<close>.\<close>

definition strcaseeq :: "string \<Rightarrow> string \<Rightarrow> bool" where
  "strcaseeq a b \<longleftrightarrow> map tolower (c_str a) = map tolower (c_str b)"

definition digit_value :: "nat \<Rightarrow> char \<Rightarrow> nat option" where
  "digit_value base c =
     (let n = char_code c;
          v = (if isdigit c then n - 48
               else if 97 \<le> n \<and> n \<le> 122 then n - 87
               else if 65 \<le> n \<and> n \<le> 90 then n - 55 else 36)
      in if v < base then Some v else None)"

fun digits_value :: "nat \<Rightarrow> string \<Rightarrow> nat \<Rightarrow> nat" where
  "digits_value base [] acc = acc"
| "digits_value base (c # cs) acc = (case digit_value base c of
       None \<Rightarrow> acc | Some v \<Rightarrow> digits_value base cs (acc * base + v))"

definition LONG_MAX :: int where "LONG_MAX = 2 ^ 63 - 1"
definition LONG_MIN :: int where "LONG_MIN = - (2 ^ 63)"

text \<open>An optional \<open>0x\<close> before a hexadecimal digit is part of a number in base 16.\<close>

fun skip_hex_prefix :: "string \<Rightarrow> string" where
  "skip_hex_prefix (z # x # d # cs) =
     (if z = CHR ''0'' \<and> (x = CHR ''x'' \<or> x = CHR ''X'') \<and> digit_value 16 d \<noteq> None
      then d # cs else z # x # d # cs)"
| "skip_hex_prefix cs = cs"

text \<open>
  \<open>strtol(s, NULL, base)\<close> for base 10 or 16: leading white space, a sign, the longest run of
  digits; the value saturates at \<open>LONG_MAX\<close> and \<open>LONG_MIN\<close>.
\<close>

definition strtol :: "nat \<Rightarrow> string \<Rightarrow> int" where
  "strtol base s =
     (let s1 = dropWhile isspace (c_str s);
          neg = (s1 \<noteq> [] \<and> hd s1 = CHR ''-'');
          s2 = (if s1 \<noteq> [] \<and> (hd s1 = CHR ''-'' \<or> hd s1 = CHR ''+'') then tl s1 else s1);
          s3 = (if base = 16 then skip_hex_prefix s2 else s2);
          n = int (digits_value base s3 0)
      in if neg then max LONG_MIN (- n) else min LONG_MAX n)"

text \<open>\<open>atoi\<close> is \<open>(int) strtol(s, NULL, 10)\<close> in glibc.\<close>

definition atoi :: "string \<Rightarrow> int" where
  "atoi s = sint (word_of_int (strtol 10 s) :: 32 word)"

text \<open>
  \<open>std::stoi(s)\<close>: \<open>invalid_argument\<close> where \<open>strtol\<close> converts nothing, \<open>out_of_range\<close> where the
  number is no \<open>int\<close>.
\<close>

definition skip_sign :: "string \<Rightarrow> string" where
  "skip_sign s = (if s \<noteq> [] \<and> (hd s = CHR ''-'' \<or> hd s = CHR ''+'') then tl s else s)"

definition stoi :: "string \<Rightarrow> exn + int" where
  "stoi s =
     (let digits = skip_sign (dropWhile isspace (c_str s)); n = strtol 10 s
      in if digits = [] \<or> \<not> isdigit (hd digits) then Inl StdInvalidArgument
         else if n < - (2 ^ 31) \<or> 2 ^ 31 \<le> n then Inl StdOutOfRange
         else Inr n)"

text \<open>\<open>stream << n\<close> and \<open>std::to_string(n)\<close>: decimal digits, a minus sign where negative.\<close>

definition digit_char :: "nat \<Rightarrow> char" where
  "digit_char d = char_of (d + 48)"

fun show_nat :: "nat \<Rightarrow> string" where
  "show_nat n = (if n < 10 then [digit_char n] else show_nat (n div 10) @ [digit_char (n mod 10)])"

declare show_nat.simps [simp del]

definition show_int :: "int \<Rightarrow> string" where
  "show_int i = (if i < 0 then CHR ''-'' # show_nat (nat (- i)) else show_nat (nat i))"

section \<open>Printing and reading a number\<close>

lemma char_code_digit: "d < 10 \<Longrightarrow> char_code (digit_char d) = d + 48"
  by (simp add: char_code_def digit_char_def)

lemma isdigit_digit_char [simp]: "d < 10 \<Longrightarrow> isdigit (digit_char d)"
  by (simp add: isdigit_def char_code_digit)

lemma digit_value_digit: "isdigit c \<Longrightarrow> digit_value 10 c = Some (char_code c - 48)"
  by (auto simp: digit_value_def isdigit_def Let_def)

lemma digits_value_append:
  "\<forall>c \<in> set s. isdigit c \<Longrightarrow> digits_value 10 (s @ t) acc = digits_value 10 t (digits_value 10 s acc)"
  by (induction s arbitrary: acc) (auto simp: digit_value_digit)

lemma show_nat_digits: "\<forall>c \<in> set (show_nat n). isdigit c"
  by (induction n rule: show_nat.induct) (subst show_nat.simps, auto)

lemma show_nat_not_Nil [simp]: "show_nat n \<noteq> []"
  by (subst show_nat.simps) simp

lemma digits_value_show_nat: "digits_value 10 (show_nat n) 0 = n"
proof (induction n rule: show_nat.induct)
  case (1 n)
  show ?case
  proof (cases "n < 10")
    case True
    then show ?thesis
      by (subst show_nat.simps) (simp add: digit_value_digit char_code_digit)
  next
    case False
    with 1 show ?thesis
      by (subst show_nat.simps) (simp add: digits_value_append show_nat_digits digit_value_digit char_code_digit)
  qed
qed

end
