(* ===== verification/Request_Parser.thy ===== *)
theory Request_Parser
  imports Scanner Chars
begin

text \<open>
  \<open>httpparser::Request\<close> (\<open>http/httpparser/request.hpp\<close>) and the state machine of
  \<open>HttpRequestParser::consume\<close> (\<open>http/httpparser/httprequestparser.hpp\<close>). The switch of
  \<open>consume\<close> is written as three groups of cases (request line, headers, body), each falling
  through to the next. The loop ends with a \<open>ParseResult\<close>, with the exception of a
  \<open>vector::reserve\<close> beyond \<open>max_size()\<close>, or with undefined behaviour: overflow of the
  \<open>int\<close> version numbers, or \<open>back()\<close> of an empty header list.
\<close>

section \<open>The request\<close>

record header_item =
  hname :: string
  hvalue :: string

record request =
  r_method :: string
  r_uri :: string
  r_versionMajor :: int
  r_versionMinor :: int
  r_headers :: "header_item list"
  r_content :: string
  r_keepAlive :: bool

definition Request :: request where
  "Request = \<lparr>r_method = [], r_uri = [], r_versionMajor = 0, r_versionMinor = 0, r_headers = [],
     r_content = [], r_keepAlive = False\<rparr>"

definition HeaderItem :: header_item where
  "HeaderItem = \<lparr>hname = [], hvalue = []\<rparr>"

text \<open>\<open>Request::inspect\<close>.\<close>

definition inspect_header :: "header_item \<Rightarrow> string" where
  "inspect_header h = hname h @ '': '' @ hvalue h @ CRLF"

definition inspect :: "request \<Rightarrow> string" where
  "inspect r = r_method r @ '' '' @ r_uri r @ '' HTTP/'' @ show_int (r_versionMajor r) @ ''.'' @
     show_int (r_versionMinor r) @ CRLF @ concat (map inspect_header (r_headers r)) @
     CRLF @ CRLF @ r_content r @ CRLF"

section \<open>The parser\<close>

datatype req_state =
    RequestMethodStart
  | RequestMethod
  | RequestUriStart
  | RequestUri
  | RequestHttpVersion_h
  | RequestHttpVersion_ht
  | RequestHttpVersion_htt
  | RequestHttpVersion_http
  | RequestHttpVersion_slash
  | RequestHttpVersion_majorStart
  | RequestHttpVersion_major
  | RequestHttpVersion_minorStart
  | RequestHttpVersion_minor
  | ResponseStatusStart
  | ResponseHttpVersion_ht
  | ResponseHttpVersion_htt
  | ResponseHttpVersion_http
  | ResponseHttpVersion_slash
  | ResponseHttpVersion_majorStart
  | ResponseHttpVersion_major
  | ResponseHttpVersion_minorStart
  | ResponseHttpVersion_minor
  | ResponseHttpVersion_spaceAfterVersion
  | ResponseHttpVersion_statusCodeStart
  | ResponseHttpVersion_spaceAfterStatusCode
  | ResponseHttpVersion_statusTextStart
  | ResponseHttpVersion_newLine
  | HeaderLineStart
  | HeaderLws
  | HeaderName
  | SpaceBeforeHeaderValue
  | HeaderValue
  | ExpectingNewline_2
  | ExpectingNewline_3
  | Post
  | ChunkSize
  | ChunkExtensionName
  | ChunkExtensionValue
  | ChunkSizeNewLine
  | ChunkSizeNewLine_2
  | ChunkSizeNewLine_3
  | ChunkTrailerName
  | ChunkTrailerValue
  | ChunkDataNewLine_1
  | ChunkDataNewLine_2
  | ChunkData

record req_parser =
  pstate :: req_state
  contentSize :: size_t
  chunkSizeStr :: string
  chunkSize :: size_t
  chunked :: bool
  req :: request

definition HttpRequestParser :: req_parser where
  "HttpRequestParser = \<lparr>pstate = RequestMethodStart, contentSize = 0, chunkSizeStr = [], chunkSize = 0,
     chunked = False, req = Request\<rparr>"

datatype ParseResult = ParsingCompleted | ParsingIncompleted | ParsingError

datatype req_exit =
    Result ParseResult req_parser
  | Throws exn
  | IntOverflow
  | BackOfEmpty

type_synonym req_scan = "(req_exit, req_parser) scan"

definition parse_error :: "req_parser \<Rightarrow> req_scan" where
  "parse_error p = Return (Result ParsingError p)"

definition parse_completed :: "req_parser \<Rightarrow> req_scan" where
  "parse_completed p = Return (Result ParsingCompleted p)"

definition goto :: "req_state \<Rightarrow> req_parser \<Rightarrow> req_scan" where
  "goto st p = Continue (p\<lparr>pstate := st\<rparr>)"

definition upd :: "(request \<Rightarrow> request) \<Rightarrow> req_parser \<Rightarrow> req_parser" where
  "upd f p = p\<lparr>req := f (req p)\<rparr>"

definition push_method :: "char \<Rightarrow> req_parser \<Rightarrow> req_parser" where
  "push_method c = upd (\<lambda>r. r\<lparr>r_method := r_method r @ [c]\<rparr>)"

definition push_uri :: "char \<Rightarrow> req_parser \<Rightarrow> req_parser" where
  "push_uri c = upd (\<lambda>r. r\<lparr>r_uri := r_uri r @ [c]\<rparr>)"

definition push_content :: "char \<Rightarrow> req_parser \<Rightarrow> req_parser" where
  "push_content c = upd (\<lambda>r. r\<lparr>r_content := r_content r @ [c]\<rparr>)"

definition set_major :: "int \<Rightarrow> req_parser \<Rightarrow> req_parser" where
  "set_major v = upd (\<lambda>r. r\<lparr>r_versionMajor := v\<rparr>)"

definition set_minor :: "int \<Rightarrow> req_parser \<Rightarrow> req_parser" where
  "set_minor v = upd (\<lambda>r. r\<lparr>r_versionMinor := v\<rparr>)"

text \<open>\<open>v * 10 + input - '0'\<close> on \<open>int\<close>; overflow of any intermediate result is undefined.\<close>

definition INT_MAX :: int where "INT_MAX = 2 ^ 31 - 1"

definition shift_digit :: "int \<Rightarrow> char \<Rightarrow> int option" where
  "shift_digit v c = (if v * 10 \<le> INT_MAX \<and> v * 10 + c_int c \<le> INT_MAX
     then Some (v * 10 + c_int c - 48) else None)"

text \<open>\<open>headers.back()\<close>: undefined on an empty vector.\<close>

definition with_back :: "(header_item \<Rightarrow> header_item) \<Rightarrow> req_parser \<Rightarrow> (req_parser \<Rightarrow> req_scan) \<Rightarrow> req_scan" where
  "with_back f p k = (if r_headers (req p) = [] then Return BackOfEmpty
     else k (upd (\<lambda>r. r\<lparr>r_headers := butlast (r_headers r) @ [f (last (r_headers r))]\<rparr>) p))"

definition push_name :: "char \<Rightarrow> header_item \<Rightarrow> header_item" where
  "push_name c h = h\<lparr>hname := hname h @ [c]\<rparr>"

definition push_value :: "char \<Rightarrow> header_item \<Rightarrow> header_item" where
  "push_value c h = h\<lparr>hvalue := hvalue h @ [c]\<rparr>"

text \<open>\<open>vector<char>::reserve(n)\<close> throws \<open>std::length_error\<close> above \<open>max_size()\<close>, \<open>2 ^ 63 - 1\<close>.\<close>

definition reserve :: "size_t \<Rightarrow> req_scan \<Rightarrow> req_scan" where
  "reserve n k = (if 2 ^ 63 - 1 < n then Return (Throws StdLengthError) else k)"

lemmas parser_ops = parse_error_def parse_completed_def goto_def upd_def push_method_def push_uri_def
  push_content_def set_major_def set_minor_def with_back_def

text \<open>\<open>checkIfConnection\<close>.\<close>

definition checkIfConnection :: "header_item \<Rightarrow> bool" where
  "checkIfConnection item \<longleftrightarrow> strcaseeq (hname item) ''Connection''"

section \<open>Body: fixed length and chunked\<close>

definition req_step_body :: "char \<Rightarrow> req_parser \<Rightarrow> req_scan" where
  "req_step_body c p = (case pstate p of
     Post \<Rightarrow>
       (let p1 = push_content c (p\<lparr>contentSize := contentSize p - 1\<rparr>)
        in if contentSize p1 = 0 then parse_completed p1 else Continue p1)
   | ChunkSize \<Rightarrow>
       if isalnum c then Continue (p\<lparr>chunkSizeStr := chunkSizeStr p @ [c]\<rparr>)
       else if c = CHR '';'' then goto ChunkExtensionName p
       else if c = CR then goto ChunkSizeNewLine p
       else parse_error p
   | ChunkExtensionName \<Rightarrow>
       if isalnum c \<or> c = SP then Continue p
       else if c = CHR ''='' then goto ChunkExtensionValue p
       else if c = CR then goto ChunkSizeNewLine p
       else parse_error p
   | ChunkExtensionValue \<Rightarrow>
       if isalnum c \<or> c = SP then Continue p
       else if c = CR then goto ChunkSizeNewLine p
       else parse_error p
   | ChunkSizeNewLine \<Rightarrow>
       if c = LF then
         (let n = (word_of_int (strtol 16 (chunkSizeStr p)) :: size_t);
              p1 = p\<lparr>chunkSize := n, chunkSizeStr := []\<rparr>
          in reserve (word_of_nat (length (r_content (req p))) + n)
               (if n = 0 then goto ChunkSizeNewLine_2 p1 else goto ChunkData p1))
       else parse_error p
   | ChunkSizeNewLine_2 \<Rightarrow>
       if c = CR then goto ChunkSizeNewLine_3 p
       else if isalpha c then goto ChunkTrailerName p
       else parse_error p
   | ChunkSizeNewLine_3 \<Rightarrow> if c = LF then parse_completed p else parse_error p
   | ChunkTrailerName \<Rightarrow>
       if isalnum c then Continue p
       else if c = CHR '':'' then goto ChunkTrailerValue p
       else parse_error p
   | ChunkTrailerValue \<Rightarrow>
       if isalnum c \<or> c = SP then Continue p
       else if c = CR then goto ChunkSizeNewLine p
       else parse_error p
   | ChunkData \<Rightarrow>
       (let p1 = push_content c (p\<lparr>chunkSize := chunkSize p - 1\<rparr>)
        in if chunkSize p1 = 0 then goto ChunkDataNewLine_1 p1 else Continue p1)
   | ChunkDataNewLine_1 \<Rightarrow> if c = CR then goto ChunkDataNewLine_2 p else parse_error p
   | ChunkDataNewLine_2 \<Rightarrow> if c = LF then goto ChunkSize p else parse_error p
   | _ \<Rightarrow> parse_error p)"

section \<open>Headers\<close>

text \<open>What the end of a header line does for \<open>POST\<close> and \<open>PUT\<close>.\<close>

definition end_of_header :: "req_parser \<Rightarrow> req_scan" where
  "end_of_header p =
     (if r_method (req p) = ''POST'' \<or> r_method (req p) = ''PUT'' then
        (if r_headers (req p) = [] then Return BackOfEmpty
         else let h = last (r_headers (req p)) in
           if strcaseeq (hname h) ''Content-Length'' then
             (let n = (word_of_int (atoi (hvalue h)) :: size_t)
              in reserve n (goto ExpectingNewline_2 (p\<lparr>contentSize := n\<rparr>)))
           else if strcaseeq (hname h) ''Transfer-Encoding'' then
             goto ExpectingNewline_2
               (if strcaseeq (hvalue h) ''chunked'' then p\<lparr>chunked := True\<rparr> else p)
           else goto ExpectingNewline_2 p)
      else goto ExpectingNewline_2 p)"

text \<open>What \<open>ExpectingNewline_3\<close> sets \<open>keepAlive\<close> to.\<close>

definition keep_alive :: "request \<Rightarrow> bool" where
  "keep_alive r = (case List.find checkIfConnection (r_headers r) of
       Some h \<Rightarrow> strcaseeq (hvalue h) ''Keep-Alive''
     | None \<Rightarrow> if r_versionMajor r > 1 \<or> (r_versionMajor r = 1 \<and> r_versionMinor r = 1)
               then True else r_keepAlive r)"

definition req_step_header :: "char \<Rightarrow> req_parser \<Rightarrow> req_scan" where
  "req_step_header c p = (case pstate p of
     HeaderLineStart \<Rightarrow>
       if c = CR then goto ExpectingNewline_3 p
       else if r_headers (req p) \<noteq> [] \<and> (c = SP \<or> c = TAB) then goto HeaderLws p
       else if \<not> isChar c \<or> isControl c \<or> isSpecial c then parse_error p
       else goto HeaderName (upd (\<lambda>r. r\<lparr>r_headers := r_headers r @ [push_name c HeaderItem]\<rparr>) p)
   | HeaderLws \<Rightarrow>
       if c = CR then goto ExpectingNewline_2 p
       else if c = SP \<or> c = TAB then Continue p
       else if isControl c then parse_error p
       else with_back (push_value c) p (goto HeaderValue)
   | HeaderName \<Rightarrow>
       if c = CHR '':'' then goto SpaceBeforeHeaderValue p
       else if \<not> isChar c \<or> isControl c \<or> isSpecial c then parse_error p
       else with_back (push_name c) p Continue
   | SpaceBeforeHeaderValue \<Rightarrow> if c = SP then goto HeaderValue p else parse_error p
   | HeaderValue \<Rightarrow>
       if c = CR then end_of_header p
       else if isControl c then parse_error p
       else with_back (push_value c) p Continue
   | ExpectingNewline_2 \<Rightarrow> if c = LF then goto HeaderLineStart p else parse_error p
   | ExpectingNewline_3 \<Rightarrow>
       (let p1 = upd (\<lambda>r. r\<lparr>r_keepAlive := keep_alive r\<rparr>) p in
        if chunked p1 then goto ChunkSize p1
        else if contentSize p1 = 0 then (if c = LF then parse_completed p1 else parse_error p1)
        else goto Post p1)
   | _ \<Rightarrow> req_step_body c p)"

section \<open>Request line\<close>

definition req_step :: "char \<Rightarrow> req_parser \<Rightarrow> req_scan" where
  "req_step c p = (case pstate p of
     RequestMethodStart \<Rightarrow>
       if \<not> isChar c \<or> isControl c \<or> isSpecial c then parse_error p
       else goto RequestMethod (push_method c p)
   | RequestMethod \<Rightarrow>
       if c = SP then goto RequestUriStart p
       else if \<not> isChar c \<or> isControl c \<or> isSpecial c then parse_error p
       else Continue (push_method c p)
   | RequestUriStart \<Rightarrow>
       if isControl c then parse_error p else goto RequestUri (push_uri c p)
   | RequestUri \<Rightarrow>
       if c = SP then goto RequestHttpVersion_h p
       else if c = CR then parse_completed (set_minor 9 (set_major 0 p))
       else if isControl c then parse_error p
       else Continue (push_uri c p)
   | RequestHttpVersion_h \<Rightarrow> if c = CHR ''H'' then goto RequestHttpVersion_ht p else parse_error p
   | RequestHttpVersion_ht \<Rightarrow> if c = CHR ''T'' then goto RequestHttpVersion_htt p else parse_error p
   | RequestHttpVersion_htt \<Rightarrow> if c = CHR ''T'' then goto RequestHttpVersion_http p else parse_error p
   | RequestHttpVersion_http \<Rightarrow> if c = CHR ''P'' then goto RequestHttpVersion_slash p else parse_error p
   | RequestHttpVersion_slash \<Rightarrow>
       if c = CHR ''/'' then goto RequestHttpVersion_majorStart (set_minor 0 (set_major 0 p))
       else parse_error p
   | RequestHttpVersion_majorStart \<Rightarrow>
       if isDigit c then goto RequestHttpVersion_major (set_major (c_int c - 48) p)
       else parse_error p
   | RequestHttpVersion_major \<Rightarrow>
       if c = CHR ''.'' then goto RequestHttpVersion_minorStart p
       else if isDigit c then (case shift_digit (r_versionMajor (req p)) c of
           None \<Rightarrow> Return IntOverflow | Some v \<Rightarrow> Continue (set_major v p))
       else parse_error p
   | RequestHttpVersion_minorStart \<Rightarrow>
       if isDigit c then goto RequestHttpVersion_minor (set_minor (c_int c - 48) p)
       else parse_error p
   | RequestHttpVersion_minor \<Rightarrow>
       if c = CR then goto ResponseHttpVersion_newLine p
       else if isDigit c then (case shift_digit (r_versionMinor (req p)) c of
           None \<Rightarrow> Return IntOverflow | Some v \<Rightarrow> Continue (set_minor v p))
       else parse_error p
   | ResponseHttpVersion_newLine \<Rightarrow> if c = LF then goto HeaderLineStart p else parse_error p
   | _ \<Rightarrow> req_step_header c p)"

section \<open>\<open>consume\<close>\<close>

text \<open>At the end of the bytes the result is \<open>ParsingIncompleted\<close>.\<close>

definition consume :: "string \<Rightarrow> req_parser \<Rightarrow> req_exit" where
  "consume bytes p = (case run_scan req_step bytes p of
       Continue p' \<Rightarrow> Result ParsingIncompleted p' | Return r \<Rightarrow> r)"

end
