(* ===== verification/Request_Correct.thy ===== *)
theory Request_Correct
  imports Request_Parser
begin

text \<open>
  What the request parser guarantees: the invariant of its loop (no \<open>back()\<close> of an empty header
  list, no underflow of the size counters, version numbers in range, only token bytes in names and
  no control bytes in values), what follows for every request it accepts, and that requests written
  out from their parts are read back.
\<close>

section \<open>The invariant\<close>

definition uri_char :: "char \<Rightarrow> bool" where
  "uri_char c \<longleftrightarrow> \<not> isControl c \<and> c \<noteq> SP"

definition uri_ok :: "string \<Rightarrow> bool" where
  "uri_ok v = (case v of [] \<Rightarrow> True | c # cs \<Rightarrow> \<not> isControl c \<and> list_all uri_char cs)"

definition value_char :: "char \<Rightarrow> bool" where
  "value_char c \<longleftrightarrow> \<not> isControl c"

definition header_ok :: "header_item \<Rightarrow> bool" where
  "header_ok h \<longleftrightarrow> hname h \<noteq> [] \<and> list_all isToken (hname h) \<and> list_all value_char (hvalue h)"

definition in_int :: "int \<Rightarrow> bool" where
  "in_int v \<longleftrightarrow> 0 \<le> v \<and> v \<le> INT_MAX"

definition request_wf :: "request \<Rightarrow> bool" where
  "request_wf r \<longleftrightarrow> list_all isToken (r_method r) \<and> uri_ok (r_uri r) \<and>
     in_int (r_versionMajor r) \<and> in_int (r_versionMinor r) \<and> list_all header_ok (r_headers r)"

definition parser_inv :: "req_parser \<Rightarrow> bool" where
  "parser_inv p \<longleftrightarrow> request_wf (req p) \<and>
     (pstate p \<noteq> RequestMethodStart \<longrightarrow> r_method (req p) \<noteq> []) \<and>
     (pstate p \<notin> {RequestMethodStart, RequestMethod, RequestUriStart} \<longleftrightarrow> r_uri (req p) \<noteq> []) \<and>
     (pstate p \<in> {HeaderLws, HeaderName, SpaceBeforeHeaderValue, HeaderValue} \<longrightarrow> r_headers (req p) \<noteq> []) \<and>
     (pstate p = Post \<longrightarrow> contentSize p \<noteq> 0) \<and> (pstate p = ChunkData \<longrightarrow> chunkSize p \<noteq> 0) \<and>
     list_all isalnum (chunkSizeStr p)"

definition exit_good :: "req_exit \<Rightarrow> bool" where
  "exit_good r = (case r of
       Result ParsingCompleted p \<Rightarrow>
         request_wf (req p) \<and> r_method (req p) \<noteq> [] \<and> r_uri (req p) \<noteq> []
     | BackOfEmpty \<Rightarrow> False | _ \<Rightarrow> True)"

lemma uri_ok_simps: "uri_ok []" "uri_ok [c] \<longleftrightarrow> \<not> isControl c" "in_int 0"
  by (simp_all add: uri_ok_def in_int_def INT_MAX_def)

lemma uri_ok_snoc: "uri_ok (v @ [c]) \<longleftrightarrow> uri_ok v \<and> (if v = [] then \<not> isControl c else uri_char c)"
  by (cases v) (auto simp: uri_ok_def)

lemma header_ok_push:
  "header_ok h \<Longrightarrow> value_char c \<Longrightarrow> header_ok (push_value c h)"
  "header_ok h \<Longrightarrow> isToken c \<Longrightarrow> header_ok (push_name c h)"
  "isToken c \<Longrightarrow> header_ok (push_name c HeaderItem)"
  by (auto simp: header_ok_def push_value_def push_name_def HeaderItem_def)

lemma headers_ok_last:
  assumes "xs \<noteq> []"
  shows "list_all header_ok xs \<longleftrightarrow> list_all header_ok (butlast xs) \<and> header_ok (last xs)"
proof -
  have "list_all header_ok (butlast xs @ [last xs]) \<longleftrightarrow> list_all header_ok (butlast xs) \<and> header_ok (last xs)"
    by (simp only: list_all_append) simp
  with assms show ?thesis by simp
qed

lemma in_int_digit: "isDigit c \<Longrightarrow> in_int (c_int c - 48)"
  by (auto simp: isDigit_def in_int_def INT_MAX_def)

lemma in_int_shift: "isDigit c \<Longrightarrow> in_int v \<Longrightarrow> shift_digit v c = Some w \<Longrightarrow> in_int w"
  by (auto simp: isDigit_def in_int_def shift_digit_def INT_MAX_def split: if_splits)

lemma token_cond: "\<not> (\<not> isChar c \<or> isControl c \<or> isSpecial c) \<longleftrightarrow> isToken c"
  by (auto simp: isToken_def)

lemmas req_step_defs = req_step_def req_step_header_def req_step_body_def

lemma HttpRequestParser_inv: "parser_inv HttpRequestParser"
  by (simp add: parser_inv_def request_wf_def HttpRequestParser_def Request_def uri_ok_def in_int_def INT_MAX_def)

lemmas parser_inv_rules = uri_ok_simps uri_ok_snoc uri_char_def value_char_def in_int_digit
  in_int_shift header_ok_push

lemma req_step_inv:
  assumes "parser_inv p" "req_step c p = Continue p'"
  shows "parser_inv p'"
  using assms
  by (cases "pstate p";
      simp add: req_step_defs parser_inv_def request_wf_def parser_ops end_of_header_def reserve_def
        Let_def isToken_def [symmetric] parser_inv_rules split: if_splits option.splits;
      clarsimp simp: parser_inv_rules headers_ok_last)

lemma keep_alive_wf [simp]: "request_wf (r\<lparr>r_keepAlive := b\<rparr>) = request_wf r"
  by (simp add: request_wf_def)

lemma req_step_good:
  assumes "parser_inv p" "req_step c p = Return r"
  shows "exit_good r"
  using assms
  by (cases "pstate p";
      simp add: req_step_defs parser_inv_def request_wf_def parser_ops end_of_header_def reserve_def
        Let_def exit_good_def parser_inv_rules split: if_splits option.splits;
      clarsimp simp: parser_inv_rules headers_ok_last request_wf_def INT_MAX_def in_int_def)

interpretation reqp: scanner req_step parser_inv exit_good
  by unfold_locales (auto intro: req_step_inv req_step_good)

text \<open>The loop leaves with an answer only: \<open>ParsingIncompleted\<close> is the end of the input.\<close>

lemma req_step_not_incomplete:
  "req_step c p \<noteq> Return (Result ParsingIncompleted p')"
  by (cases "pstate p";
      simp add: req_step_defs parser_ops end_of_header_def reserve_def Let_def split: option.splits)

lemma run_scan_not_incomplete: "run_scan req_step xs p \<noteq> Return (Result ParsingIncompleted p')"
  by (induction xs arbitrary: p) (auto simp: req_step_not_incomplete split: scan.split)

lemma consume_incomplete:
  "consume xs p = Result ParsingIncompleted p' \<longleftrightarrow> run_scan req_step xs p = Continue p'"
  by (auto simp: consume_def run_scan_not_incomplete split: scan.splits)

lemma consume_append:
  "consume (xs @ ys) p = (case consume xs p of
     Result res p' \<Rightarrow> if res = ParsingIncompleted then consume ys p' else Result res p' | r \<Rightarrow> r)"
proof (cases "run_scan req_step xs p")
  case (Continue p')
  then show ?thesis by (simp add: consume_def run_scan_append)
next
  case (Return r)
  then show ?thesis
    using run_scan_not_incomplete [of xs p] by (auto simp: consume_def run_scan_append split: req_exit.split)
qed

text \<open>The result of parsing any bytes.\<close>

lemma consume_good:
  assumes "parser_inv p"
  shows "exit_good (consume bytes p)"
  using reqp.run_good [OF assms] by (auto simp: consume_def exit_good_def split: scan.splits)

section \<open>Requests written out\<close>

definition render_request :: "string \<Rightarrow> string \<Rightarrow> nat \<Rightarrow> nat \<Rightarrow> header_item list \<Rightarrow> string" where
  "render_request m v ma mi hs = m @ '' '' @ v @ '' HTTP/'' @ show_nat ma @ ''.'' @ show_nat mi @ CRLF @
     concat (map inspect_header hs) @ CRLF"

text \<open>The version numbers for which no intermediate result of the parser overflows.\<close>

definition version_ok :: "nat \<Rightarrow> bool" where
  "version_ok n \<longleftrightarrow> int n + 48 \<le> INT_MAX"

definition request_parts_ok :: "string \<Rightarrow> string \<Rightarrow> nat \<Rightarrow> nat \<Rightarrow> header_item list \<Rightarrow> bool" where
  "request_parts_ok m v ma mi hs \<longleftrightarrow> m \<noteq> [] \<and> list_all isToken m \<and> v \<noteq> [] \<and> uri_ok v \<and>
     version_ok ma \<and> version_ok mi \<and> list_all header_ok hs"

lemma token_simps [simp]: "\<not> isToken SP" "\<not> isToken CR" "\<not> isToken TAB" "\<not> isToken CHR '':''"
  by (simp_all add: isToken_def isSpecial_def isControl_code char_code_def)

lemma control_simps [simp]: "isControl CR" "isControl LF" "\<not> isControl SP" "isControl TAB"
  by (simp_all add: isControl_code char_code_def)

lemma isToken_D: "isToken c \<Longrightarrow> isChar c \<and> \<not> isControl c \<and> \<not> isSpecial c"
  by (simp add: isToken_def)

lemma run_token_method:
  assumes "list_all isToken xs" "pstate p = RequestMethod"
  shows "run_scan req_step xs p = Continue (upd (\<lambda>r. r\<lparr>r_method := r_method r @ xs\<rparr>) p)"
proof -
  have "req_step c (upd (\<lambda>r. r\<lparr>r_method := r_method r @ acc\<rparr>) p) =
      Continue (upd (\<lambda>r. r\<lparr>r_method := r_method r @ acc @ [c]\<rparr>) p)" if "isToken c" for c acc
    using that assms(2) isToken_D [OF that] by (auto simp: req_step_def upd_def push_method_def)
  from run_scan_span [where f = "\<lambda>acc. upd (\<lambda>r. r\<lparr>r_method := r_method r @ acc\<rparr>) p" and acc = "[]",
      OF this] assms(1)
  show ?thesis by (simp add: list_all_iff upd_def)
qed

lemma run_uri:
  assumes "list_all uri_char xs" "pstate p = RequestUri"
  shows "run_scan req_step xs p = Continue (upd (\<lambda>r. r\<lparr>r_uri := r_uri r @ xs\<rparr>) p)"
proof -
  have "req_step c (upd (\<lambda>r. r\<lparr>r_uri := r_uri r @ acc\<rparr>) p) =
      Continue (upd (\<lambda>r. r\<lparr>r_uri := r_uri r @ acc @ [c]\<rparr>) p)" if "uri_char c" for c acc
    using that assms(2) by (auto simp: req_step_def upd_def push_uri_def uri_char_def)
  from run_scan_span [where f = "\<lambda>acc. upd (\<lambda>r. r\<lparr>r_uri := r_uri r @ acc\<rparr>) p" and acc = "[]",
      OF this] assms(1)
  show ?thesis by (simp add: list_all_iff upd_def)
qed

lemma digit_char_facts [simp]:
  "d < 10 \<Longrightarrow> isDigit (digit_char d)" "d < 10 \<Longrightarrow> c_int (digit_char d) = int d + 48"
  "d < 10 \<Longrightarrow> digit_char d \<noteq> CHR ''.''" "d < 10 \<Longrightarrow> digit_char d \<noteq> CR"
  by (auto simp: isDigit_isdigit c_int_def char_code_digit dest!: arg_cong [of _ _ char_code])
    (auto simp: char_code_def)

lemma shift_digit_show:
  assumes "version_ok n"
  shows "shift_digit (int (n div 10)) (digit_char (n mod 10)) = Some (int n)"
proof -
  have "int (n div 10) * 10 + int (n mod 10) = int n" by presburger
  with assms show ?thesis by (simp add: shift_digit_def version_ok_def)
qed

lemma run_major:
  assumes "version_ok n" "pstate p = RequestHttpVersion_majorStart"
  shows "run_scan req_step (show_nat n) p =
    Continue (set_major (int n) (p\<lparr>pstate := RequestHttpVersion_major\<rparr>))"
  using assms
proof (induction n rule: show_nat.induct)
  case (1 n)
  show ?case
  proof (cases "n < 10")
    case True
    with "1.prems" show ?thesis
      by (subst show_nat.simps) (simp add: req_step_def goto_def set_major_def upd_def)
  next
    case False
    have "version_ok (n div 10)" using "1.prems"(1) by (simp add: version_ok_def)
    with 1 False have "run_scan req_step (show_nat (n div 10)) p =
        Continue (set_major (int (n div 10)) (p\<lparr>pstate := RequestHttpVersion_major\<rparr>))" by simp
    moreover note shift_digit_show [OF "1.prems"(1)]
    ultimately show ?thesis
      using False by (subst show_nat.simps) (simp add: run_scan_append req_step_def set_major_def upd_def)
  qed
qed

lemma run_minor:
  assumes "version_ok n" "pstate p = RequestHttpVersion_minorStart"
  shows "run_scan req_step (show_nat n) p =
    Continue (set_minor (int n) (p\<lparr>pstate := RequestHttpVersion_minor\<rparr>))"
  using assms
proof (induction n rule: show_nat.induct)
  case (1 n)
  show ?case
  proof (cases "n < 10")
    case True
    with "1.prems" show ?thesis
      by (subst show_nat.simps) (simp add: req_step_def goto_def set_minor_def upd_def)
  next
    case False
    have "version_ok (n div 10)" using "1.prems"(1) by (simp add: version_ok_def)
    with 1 False have "run_scan req_step (show_nat (n div 10)) p =
        Continue (set_minor (int (n div 10)) (p\<lparr>pstate := RequestHttpVersion_minor\<rparr>))" by simp
    moreover note shift_digit_show [OF "1.prems"(1)]
    ultimately show ?thesis
      using False by (subst show_nat.simps) (simp add: run_scan_append req_step_def set_minor_def upd_def)
  qed
qed

text \<open>The request line.\<close>

definition render_line :: "string \<Rightarrow> string \<Rightarrow> nat \<Rightarrow> nat \<Rightarrow> string" where
  "render_line m v ma mi = m @ '' '' @ v @ '' HTTP/'' @ show_nat ma @ ''.'' @ show_nat mi @ CRLF"

definition with_line :: "string \<Rightarrow> string \<Rightarrow> nat \<Rightarrow> nat \<Rightarrow> request" where
  "with_line m v ma mi = Request\<lparr>r_method := m, r_uri := v, r_versionMajor := int ma, r_versionMinor := int mi\<rparr>"

lemma run_method_uri:
  assumes "m \<noteq> []" "list_all isToken m" "v \<noteq> []" "uri_ok v"
  shows "run_scan req_step (m @ '' '' @ v @ '' '') HttpRequestParser =
    Continue (HttpRequestParser\<lparr>pstate := RequestHttpVersion_h,
      req := Request\<lparr>r_method := m, r_uri := v\<rparr>\<rparr>)"
proof -
  obtain c cs where m: "m = c # cs" using assms(1) by (cases m) auto
  obtain d ds where v: "v = d # ds" using assms(3) by (cases v) auto
  have c: "isToken c" "list_all isToken cs" using assms(2) m by simp_all
  have d: "\<not> isControl d" "list_all uri_char ds" using assms(4) v by (simp_all add: uri_ok_def)
  show ?thesis
    using isToken_D [OF c(1)] d(1) unfolding m v
    by (simp add: run_scan_append HttpRequestParser_def Request_def req_step_def goto_def push_method_def
        push_uri_def upd_def run_token_method [OF c(2)] run_uri [OF d(2)])
qed

lemma run_line:
  assumes "m \<noteq> []" "list_all isToken m" "v \<noteq> []" "uri_ok v" "version_ok ma" "version_ok mi"
  shows "run_scan req_step (render_line m v ma mi) HttpRequestParser =
    Continue (HttpRequestParser\<lparr>pstate := HeaderLineStart, req := with_line m v ma mi\<rparr>)"
proof -
  have split: "render_line m v ma mi =
      (m @ '' '' @ v @ '' '') @ ''HTTP/'' @ show_nat ma @ ''.'' @ show_nat mi @ CRLF"
    by (simp add: render_line_def)
  show ?thesis
    unfolding split run_scan_append [of req_step "m @ '' '' @ v @ '' ''"] run_method_uri [OF assms(1-4)]
    by (simp add: run_scan_append req_step_def goto_def upd_def set_major_def set_minor_def
        run_major [OF assms(5)] run_minor [OF assms(6)] CRLF_def HttpRequestParser_def with_line_def)
qed

text \<open>One header line: its effect on the parser.\<close>

definition takes_body :: "string \<Rightarrow> bool" where
  "takes_body m \<longleftrightarrow> m = ''POST'' \<or> m = ''PUT''"

definition is_content_length :: "header_item \<Rightarrow> bool" where
  "is_content_length h \<longleftrightarrow> strcaseeq (hname h) ''Content-Length''"

definition is_transfer_encoding :: "header_item \<Rightarrow> bool" where
  "is_transfer_encoding h \<longleftrightarrow> \<not> is_content_length h \<and> strcaseeq (hname h) ''Transfer-Encoding''"

definition apply_header :: "header_item \<Rightarrow> req_parser \<Rightarrow> req_parser" where
  "apply_header h p = upd (\<lambda>r. r\<lparr>r_headers := r_headers r @ [h]\<rparr>)
     (if takes_body (r_method (req p)) \<and> is_content_length h
        then p\<lparr>contentSize := word_of_int (atoi (hvalue h))\<rparr>
      else if takes_body (r_method (req p)) \<and> is_transfer_encoding h \<and> strcaseeq (hvalue h) ''chunked''
        then p\<lparr>chunked := True\<rparr> else p)"

lemma run_name:
  assumes "list_all isToken xs" "pstate p = HeaderName" "r_headers (req p) = hs @ [h]"
  shows "run_scan req_step xs p =
    Continue (upd (\<lambda>r. r\<lparr>r_headers := hs @ [h\<lparr>hname := hname h @ xs\<rparr>]\<rparr>) p)"
proof -
  let ?f = "\<lambda>acc. upd (\<lambda>r. r\<lparr>r_headers := hs @ [h\<lparr>hname := hname h @ acc\<rparr>]\<rparr>) p"
  have step: "req_step c (?f acc) = Continue (?f (acc @ [c]))" if "isToken c" for c acc
    using that assms(2) isToken_D [OF that]
    by (auto simp: req_step_def req_step_header_def with_back_def upd_def push_name_def)
  have start: "?f [] = p" using assms(3) by (simp add: upd_def)
  have "run_scan req_step xs (?f []) = Continue (?f ([] @ xs))"
    by (rule run_scan_span [where f = ?f and P = isToken]) (use step assms(1) in \<open>auto simp: list_all_iff\<close>)
  then show ?thesis by (simp only: start append_Nil)
qed

lemma run_value:
  assumes "list_all value_char xs" "pstate p = HeaderValue" "r_headers (req p) = hs @ [h]"
  shows "run_scan req_step xs p =
    Continue (upd (\<lambda>r. r\<lparr>r_headers := hs @ [h\<lparr>hvalue := hvalue h @ xs\<rparr>]\<rparr>) p)"
proof -
  let ?f = "\<lambda>acc. upd (\<lambda>r. r\<lparr>r_headers := hs @ [h\<lparr>hvalue := hvalue h @ acc\<rparr>]\<rparr>) p"
  have step: "req_step c (?f acc) = Continue (?f (acc @ [c]))" if "value_char c" for c acc
    using that assms(2)
    by (auto simp: req_step_def req_step_header_def with_back_def upd_def push_value_def value_char_def)
  have start: "?f [] = p" using assms(3) by (simp add: upd_def)
  have "run_scan req_step xs (?f []) = Continue (?f ([] @ xs))"
    by (rule run_scan_span [where f = ?f and P = value_char]) (use step assms(1) in \<open>auto simp: list_all_iff\<close>)
  then show ?thesis by (simp only: start append_Nil)
qed

definition content_length_ok :: "header_item \<Rightarrow> bool" where
  "content_length_ok h \<longleftrightarrow> (is_content_length h \<longrightarrow> 0 \<le> atoi (hvalue h))"

lemma atoi_bounds: "- (2 ^ 31) \<le> atoi s" "atoi s < 2 ^ 31"
  using sint_greater_eq [of "word_of_int (strtol 10 s) :: 32 word"]
    sint_less [of "word_of_int (strtol 10 s) :: 32 word"]
  by (simp_all add: atoi_def)

lemma reserve_content_length:
  assumes "0 \<le> atoi s"
  shows "reserve (word_of_int (atoi s)) k = k"
proof -
  have "uint (word_of_int (atoi s) :: size_t) = atoi s"
    using assms atoi_bounds [of s] by (simp add: uint_word_of_int)
  then show ?thesis
    using atoi_bounds [of s] by (simp add: reserve_def word_less_alt)
qed

lemma run_header_line:
  assumes "header_ok h" "pstate p = HeaderLineStart"
  shows "run_scan req_step (hname h @ '': '' @ hvalue h) p =
    Continue (p\<lparr>pstate := HeaderValue, req := (req p)\<lparr>r_headers := r_headers (req p) @ [h]\<rparr>\<rparr>)"
proof -
  obtain c cs where name: "hname h = c # cs" using assms(1) by (cases "hname h") (auto simp: header_ok_def)
  have ok: "isToken c" "list_all isToken cs" "list_all value_char (hvalue h)"
    using assms(1) name by (simp_all add: header_ok_def)
  have ne: "c \<noteq> CR" "c \<noteq> SP" "c \<noteq> TAB" using ok(1) by auto
  let ?p1 = "p\<lparr>pstate := HeaderName, req := (req p)\<lparr>r_headers := r_headers (req p) @ [push_name c HeaderItem]\<rparr>\<rparr>"
  let ?h2 = "h\<lparr>hvalue := []\<rparr>"
  have first: "req_step c p = Continue ?p1"
    using assms(2) ne isToken_D [OF ok(1)] by (simp add: req_step_def req_step_header_def goto_def upd_def)
  have names: "run_scan req_step cs ?p1 =
      Continue (?p1\<lparr>req := (req p)\<lparr>r_headers := r_headers (req p) @ [?h2]\<rparr>\<rparr>)"
    using run_name [OF ok(2), of ?p1 "r_headers (req p)" "push_name c HeaderItem"] name
    by (simp add: upd_def push_name_def HeaderItem_def)
  let ?p3 = "p\<lparr>pstate := HeaderValue, req := (req p)\<lparr>r_headers := r_headers (req p) @ [?h2]\<rparr>\<rparr>"
  let ?p4 = "p\<lparr>pstate := HeaderValue, req := (req p)\<lparr>r_headers := r_headers (req p) @ [h]\<rparr>\<rparr>"
  have vals: "run_scan req_step (hvalue h) ?p3 = Continue ?p4"
    using run_value [OF ok(3), of ?p3 "r_headers (req p)" ?h2] by (simp add: upd_def)
  let ?p2 = "p\<lparr>pstate := HeaderName, req := (req p)\<lparr>r_headers := r_headers (req p) @ [?h2]\<rparr>\<rparr>"
  have name_run: "run_scan req_step (hname h) p = Continue ?p2"
    using names by (simp add: name first)
  have colon: "run_scan req_step '': '' ?p2 = Continue ?p3"
    by (simp add: req_step_def req_step_header_def goto_def)
  show ?thesis
    by (simp only: run_scan_append name_run colon vals scan.case)
qed

lemma run_header:
  assumes "header_ok h" "takes_body (r_method (req p)) \<longrightarrow> content_length_ok h" "pstate p = HeaderLineStart"
  shows "run_scan req_step (inspect_header h) p = Continue (apply_header h p)"
proof -
  let ?p4 = "p\<lparr>pstate := HeaderValue, req := (req p)\<lparr>r_headers := r_headers (req p) @ [h]\<rparr>\<rparr>"
  have crlf: "run_scan req_step CRLF ?p4 = Continue (apply_header h p)"
    using assms(2,3)
    by (auto simp: CRLF_def req_step_def req_step_header_def goto_def end_of_header_def apply_header_def
        upd_def takes_body_def is_content_length_def is_transfer_encoding_def content_length_ok_def
        reserve_content_length Let_def)
  have "inspect_header h = (hname h @ '': '' @ hvalue h) @ CRLF" by (simp add: inspect_header_def)
  then show ?thesis
    by (simp only: run_scan_append [of _ "hname h @ '': '' @ hvalue h"] run_header_line [OF assms(1,3)] crlf scan.case)
qed

lemma apply_header_frame [simp]:
  "pstate (apply_header h p) = pstate p" "chunkSizeStr (apply_header h p) = chunkSizeStr p"
  "req (apply_header h p) = (req p)\<lparr>r_headers := r_headers (req p) @ [h]\<rparr>"
  by (simp_all add: apply_header_def upd_def)

lemma run_headers:
  assumes "list_all header_ok hs" "takes_body (r_method (req p)) \<longrightarrow> list_all content_length_ok hs"
    "pstate p = HeaderLineStart"
  shows "run_scan req_step (concat (map inspect_header hs)) p = Continue (fold apply_header hs p)"
  using assms by (induction hs arbitrary: p) (simp_all add: run_scan_append run_header)

lemma fold_apply_header_frame [simp]:
  "pstate (fold apply_header hs p) = pstate p" "chunkSizeStr (fold apply_header hs p) = chunkSizeStr p"
  "req (fold apply_header hs p) = (req p)\<lparr>r_headers := r_headers (req p) @ hs\<rparr>"
  by (induction hs arbitrary: p) simp_all

text \<open>Headers that say nothing about a body leave the body counters alone.\<close>

definition no_body_header :: "header_item \<Rightarrow> bool" where
  "no_body_header h \<longleftrightarrow> \<not> is_content_length h \<and> \<not> is_transfer_encoding h"

lemma fold_no_body:
  assumes "\<not> takes_body (r_method (req p)) \<or> list_all no_body_header hs"
  shows "contentSize (fold apply_header hs p) = contentSize p" "chunked (fold apply_header hs p) = chunked p"
  using assms
  by (induction hs arbitrary: p) (auto simp: apply_header_def upd_def no_body_header_def)

text \<open>Up to the blank line.\<close>

lemma render_request_eq: "render_request m v ma mi hs = render_line m v ma mi @ concat (map inspect_header hs) @ CRLF"
  by (simp add: render_request_def render_line_def)

definition after_headers :: "string \<Rightarrow> string \<Rightarrow> nat \<Rightarrow> nat \<Rightarrow> header_item list \<Rightarrow> req_parser" where
  "after_headers m v ma mi hs =
     fold apply_header hs (HttpRequestParser\<lparr>pstate := HeaderLineStart, req := with_line m v ma mi\<rparr>)"

lemma run_to_headers:
  assumes "request_parts_ok m v ma mi hs" "takes_body m \<longrightarrow> list_all content_length_ok hs"
  shows "run_scan req_step (render_line m v ma mi @ concat (map inspect_header hs)) HttpRequestParser =
    Continue (after_headers m v ma mi hs)"
  using assms run_headers [of hs "HttpRequestParser\<lparr>pstate := HeaderLineStart, req := with_line m v ma mi\<rparr>"]
  by (simp add: request_parts_ok_def run_scan_append run_line after_headers_def)
    (simp add: with_line_def)

text \<open>The request the parts denote.\<close>

definition request_of :: "string \<Rightarrow> string \<Rightarrow> nat \<Rightarrow> nat \<Rightarrow> header_item list \<Rightarrow> string \<Rightarrow> request" where
  "request_of m v ma mi hs body = \<lparr>r_method = m, r_uri = v, r_versionMajor = int ma, r_versionMinor = int mi,
     r_headers = hs, r_content = body,
     r_keepAlive = (case List.find checkIfConnection hs of
         Some h \<Rightarrow> strcaseeq (hvalue h) ''Keep-Alive''
       | None \<Rightarrow> ma > 1 \<or> (ma = 1 \<and> mi = 1))\<rparr>"

lemma keep_alive_parts:
  "keep_alive ((with_line m v ma mi)\<lparr>r_headers := hs\<rparr>) = r_keepAlive (request_of m v ma mi hs b)"
  by (auto simp: keep_alive_def with_line_def Request_def request_of_def split: option.split)

text \<open>A request without a body, and whatever follows it.\<close>

lemma consume_no_body:
  assumes "request_parts_ok m v ma mi hs" "\<not> takes_body m \<or> list_all no_body_header hs"
  shows "\<exists>p. consume (render_request m v ma mi hs @ rest) HttpRequestParser = Result ParsingCompleted p \<and>
    req p = request_of m v ma mi hs []"
proof -
  let ?p = "after_headers m v ma mi hs"
  have ok: "takes_body m \<longrightarrow> list_all content_length_ok hs"
    using assms(2) by (auto simp: list_all_iff no_body_header_def content_length_ok_def)
  have cnt: "contentSize ?p = 0" "chunked ?p = False" "pstate ?p = HeaderLineStart"
    using assms(2) by (simp_all add: after_headers_def fold_no_body with_line_def Request_def HttpRequestParser_def)
  let ?p1 = "?p\<lparr>pstate := ExpectingNewline_3, req := (req ?p)\<lparr>r_keepAlive := keep_alive (req ?p)\<rparr>\<rparr>"
  have nl: "run_scan req_step CRLF ?p = Return (Result ParsingCompleted ?p1)"
    using cnt by (simp add: CRLF_def req_step_def req_step_header_def goto_def upd_def parse_completed_def)
  have "run_scan req_step ((render_line m v ma mi @ concat (map inspect_header hs)) @ CRLF @ rest) HttpRequestParser =
      Return (Result ParsingCompleted ?p1)"
    using run_scan_Return_append [OF nl, of rest] run_to_headers [OF assms(1) ok]
    by (simp only: run_scan_append [of _ "render_line m v ma mi @ concat (map inspect_header hs)"] scan.case)
  then have "consume (render_request m v ma mi hs @ rest) HttpRequestParser = Result ParsingCompleted ?p1"
    by (simp add: consume_def render_request_eq)
  moreover have "req ?p1 = request_of m v ma mi hs []"
    using keep_alive_parts [of hs m v ma mi "[]"]
    by (simp add: after_headers_def with_line_def Request_def request_of_def)
  ultimately show ?thesis by blast
qed

end
