(* ===== verification/Request_Bodies.thy ===== *)
theory Request_Bodies
  imports Request_Correct
begin

text \<open>
  Requests with a body: \<open>Content-Length\<close> bodies and chunked bodies of \<open>POST\<close> and \<open>PUT\<close> are read
  back exactly, and what the counters do on the lengths that are negative or too big.
\<close>

section \<open>Fixed length\<close>

lemma run_post:
  assumes "pstate p = Post" "unat (contentSize p) = length xs" "xs \<noteq> []"
  shows "run_scan req_step xs p = Return (Result ParsingCompleted
    (p\<lparr>contentSize := 0, req := (req p)\<lparr>r_content := r_content (req p) @ xs\<rparr>\<rparr>))"
  using assms
proof (induction xs arbitrary: p)
  case (Cons x xs)
  let ?p1 = "p\<lparr>contentSize := contentSize p - 1, req := (req p)\<lparr>r_content := r_content (req p) @ [x]\<rparr>\<rparr>"
  have n: "unat (contentSize p - 1) = length xs"
    using Cons.prems(2) size_t_sub [of 1 "contentSize p"] by simp
  have step: "req_step x p = (if contentSize p - 1 = 0 then Return (Result ParsingCompleted ?p1) else Continue ?p1)"
    using Cons.prems(1) by (simp add: req_step_defs push_content_def upd_def parse_completed_def Let_def)
  show ?case
  proof (cases "xs = []")
    case True
    then have "contentSize p - 1 = 0" using n by (simp add: unat_eq_0)
    with step True show ?thesis by simp
  next
    case False
    then have "contentSize p - 1 \<noteq> 0" using n by (metis length_0_conv unat_0)
    with step Cons.IH [of ?p1] n False Cons.prems(1) show ?thesis by simp
  qed
qed simp

lemma fold_content_length:
  assumes "list_all no_body_header (hs1 @ hs2)" "is_content_length h" "takes_body (r_method (req p))"
  shows "contentSize (fold apply_header (hs1 @ h # hs2) p) = word_of_int (atoi (hvalue h))"
    "chunked (fold apply_header (hs1 @ h # hs2) p) = chunked p"
  using assms by (simp_all add: fold_no_body) (simp_all add: apply_header_def upd_def fold_no_body)

lemma fold_chunked:
  assumes "list_all no_body_header (hs1 @ hs2)" "is_transfer_encoding h" "strcaseeq (hvalue h) ''chunked''"
    "takes_body (r_method (req p))"
  shows "chunked (fold apply_header (hs1 @ h # hs2) p) = True"
    "contentSize (fold apply_header (hs1 @ h # hs2) p) = contentSize p"
proof -
  have "\<not> is_content_length h" using assms(2) by (simp add: is_transfer_encoding_def)
  with assms show "chunked (fold apply_header (hs1 @ h # hs2) p) = True"
    "contentSize (fold apply_header (hs1 @ h # hs2) p) = contentSize p"
    by (simp_all add: fold_no_body) (simp_all add: apply_header_def upd_def fold_no_body)
qed

lemma content_length_ok_parts:
  "list_all no_body_header (hs1 @ hs2) \<Longrightarrow> content_length_ok h \<Longrightarrow> list_all content_length_ok (hs1 @ h # hs2)"
  by (auto simp: list_all_iff no_body_header_def content_length_ok_def)

lemma consume_fixed_body:
  assumes parts: "request_parts_ok m v ma mi (hs1 @ h # hs2)" and m: "takes_body m"
    and hs: "list_all no_body_header (hs1 @ hs2)" and h: "is_content_length h"
    and n: "atoi (hvalue h) = int (length body)" and ne: "body \<noteq> []"
  shows "\<exists>p. consume (render_request m v ma mi (hs1 @ h # hs2) @ body @ rest) HttpRequestParser =
      Result ParsingCompleted p \<and> req p = request_of m v ma mi (hs1 @ h # hs2) body"
proof -
  let ?hs = "hs1 @ h # hs2" let ?p = "after_headers m v ma mi ?hs"
  have ok: "takes_body m \<longrightarrow> list_all content_length_ok ?hs"
    using content_length_ok_parts [OF hs, of h] n by (simp add: content_length_ok_def)
  have m': "takes_body (r_method (req (HttpRequestParser\<lparr>pstate := HeaderLineStart, req := with_line m v ma mi\<rparr>)))"
    using m by (simp add: with_line_def)
  have cnt: "contentSize ?p = word_of_nat (length body)" "chunked ?p = False" "pstate ?p = HeaderLineStart"
    using fold_content_length [OF hs h m'] n by (simp_all add: after_headers_def HttpRequestParser_def)
  have len: "length body < 2 ^ 31" using atoi_bounds(2) [of "hvalue h"] n by simp
  then have size: "unat (contentSize ?p) = length body" using cnt(1) by simp
  then have nz: "contentSize ?p \<noteq> 0" using ne by (metis length_0_conv unat_0)
  let ?p1 = "?p\<lparr>pstate := Post, req := (req ?p)\<lparr>r_keepAlive := keep_alive (req ?p)\<rparr>\<rparr>"
  let ?p2 = "?p1\<lparr>contentSize := 0, req := (req ?p1)\<lparr>r_content := r_content (req ?p1) @ body\<rparr>\<rparr>"
  have nl: "run_scan req_step CRLF ?p = Continue ?p1"
    using cnt(2,3) nz by (simp add: CRLF_def req_step_def req_step_header_def goto_def upd_def)
  have post: "run_scan req_step (body @ rest) ?p1 = Return (Result ParsingCompleted ?p2)"
    using run_post [of ?p1 body] size ne by (intro run_scan_Return_append) simp
  have "run_scan req_step ((render_line m v ma mi @ concat (map inspect_header ?hs)) @ CRLF @ body @ rest) HttpRequestParser =
      Return (Result ParsingCompleted ?p2)"
    using run_to_headers [OF parts ok] nl post
    by (simp only: run_scan_append [of _ "render_line m v ma mi @ concat (map inspect_header ?hs)"]
        run_scan_append [of _ CRLF] scan.case)
  then have "consume (render_request m v ma mi ?hs @ body @ rest) HttpRequestParser = Result ParsingCompleted ?p2"
    by (simp add: consume_def render_request_eq)
  moreover have "req ?p2 = request_of m v ma mi ?hs body"
    using keep_alive_parts [of ?hs m v ma mi body]
    by (simp add: after_headers_def with_line_def Request_def request_of_def)
  ultimately show ?thesis by blast
qed

section \<open>Chunked\<close>

definition hex_char :: "nat \<Rightarrow> char" where
  "hex_char d = (if d < 10 then digit_char d else char_of (d + 87))"

fun show_hex :: "nat \<Rightarrow> string" where
  "show_hex n = (if n < 16 then [hex_char n] else show_hex (n div 16) @ [hex_char (n mod 16)])"

declare show_hex.simps [simp del]

definition is_hex :: "char \<Rightarrow> bool" where
  "is_hex c \<longleftrightarrow> isdigit c \<or> 97 \<le> char_code c \<and> char_code c \<le> 102"

lemma char_code_hex: "d < 16 \<Longrightarrow> char_code (hex_char d) = (if d < 10 then d + 48 else d + 87)"
  by (simp add: hex_char_def char_code_digit) (simp add: char_code_def)

lemma hex_char_facts: "d < 16 \<Longrightarrow> is_hex (hex_char d)" "d < 16 \<Longrightarrow> digit_value 16 (hex_char d) = Some d"
  by (auto simp: is_hex_def digit_value_def isdigit_def char_code_hex Let_def)

lemma is_hex_facts:
  "is_hex c \<Longrightarrow> isalnum c \<and> \<not> isspace c \<and> c \<noteq> CHR 0x00 \<and> c \<noteq> CHR ''-'' \<and> c \<noteq> CHR ''+'' \<and>
     c \<noteq> CHR ''x'' \<and> c \<noteq> CHR ''X'' \<and> digit_value 16 c \<noteq> None"
  by (auto simp: is_hex_def ctype_defs digit_value_def Let_def)

lemma show_hex_is_hex: "list_all is_hex (show_hex n)"
  by (induction n rule: show_hex.induct) (subst show_hex.simps, simp add: hex_char_facts)

lemma show_hex_not_Nil [simp]: "show_hex n \<noteq> []"
  by (subst show_hex.simps) simp

lemma digits_value_hex_append:
  "list_all is_hex s \<Longrightarrow> digits_value 16 (s @ t) acc = digits_value 16 t (digits_value 16 s acc)"
  by (induction s arbitrary: acc) (auto dest: is_hex_facts)

lemma digits_value_show_hex: "digits_value 16 (show_hex n) 0 = n"
proof (induction n rule: show_hex.induct)
  case (1 n)
  then show ?case
    by (subst show_hex.simps) (simp add: digits_value_hex_append show_hex_is_hex hex_char_facts)
qed

lemma strtol_show_hex:
  assumes "n < 2 ^ 63"
  shows "strtol 16 (show_hex n) = int n"
proof -
  let ?s = "show_hex n"
  obtain c cs where s: "?s = c # cs" by (cases ?s) simp_all
  have all: "list_all is_hex (c # cs)" using show_hex_is_hex [of n] s by simp
  have "c_str ?s = ?s"
    using show_hex_is_hex [of n] by (auto simp: c_str_def takeWhile_eq_all_conv list_all_iff dest: is_hex_facts)
  moreover have "dropWhile isspace ?s = ?s" using all s by (auto dest: is_hex_facts)
  moreover have "skip_hex_prefix ?s = ?s"
    using all s by (cases "?s" rule: skip_hex_prefix.cases) (auto dest: is_hex_facts)
  moreover have "hd ?s \<noteq> CHR ''-''" "hd ?s \<noteq> CHR ''+''" using all s by (auto dest: is_hex_facts)
  ultimately show ?thesis
    using assms by (simp add: strtol_def digits_value_show_hex LONG_MAX_def)
qed

lemma run_size:
  assumes "list_all is_hex xs" "pstate p = ChunkSize"
  shows "run_scan req_step xs p = Continue (p\<lparr>chunkSizeStr := chunkSizeStr p @ xs\<rparr>)"
proof -
  let ?f = "\<lambda>acc. p\<lparr>chunkSizeStr := chunkSizeStr p @ acc\<rparr>"
  have step: "req_step c (?f acc) = Continue (?f (acc @ [c]))" if "is_hex c" for c acc
    using is_hex_facts [OF that] assms(2) by (simp add: req_step_defs)
  have "run_scan req_step xs (?f []) = Continue (?f ([] @ xs))"
    by (rule run_scan_span [where f = ?f and P = is_hex]) (use step assms(1) in \<open>auto simp: list_all_iff\<close>)
  then show ?thesis by simp
qed

text \<open>A size line: the size is read and the string cleared.\<close>

lemma run_size_line:
  assumes "pstate p = ChunkSize" "chunkSizeStr p = []" "length (r_content (req p)) + n < 2 ^ 63"
  shows "run_scan req_step (show_hex n @ CRLF) p =
    Continue (p\<lparr>chunkSize := word_of_nat n, pstate := (if n = 0 then ChunkSizeNewLine_2 else ChunkData)\<rparr>)"
proof -
  have n: "n < 2 ^ 63" using assms(3) by simp
  have "unat (word_of_nat (length (r_content (req p))) + word_of_nat n :: size_t) = length (r_content (req p)) + n"
    using assms(3) by (simp add: size_t_add)
  then have res: "reserve (word_of_nat (length (r_content (req p))) + word_of_nat n) k = k" for k
    using assms(3) by (simp add: reserve_def word_less_nat_alt)
  have "unat (word_of_nat n :: size_t) = n" using n by simp
  then have zero: "(word_of_nat n :: size_t) = 0 \<longleftrightarrow> n = 0" by (metis unat_eq_0)
  show ?thesis
    using assms(1,2)
    by (simp add: run_scan_append run_size [OF show_hex_is_hex] CRLF_def req_step_defs goto_def
        strtol_show_hex [OF n] res zero Let_def ctype_defs)
qed

text \<open>The data of a chunk.\<close>

lemma run_chunk_data:
  assumes "pstate p = ChunkData" "unat (chunkSize p) = length xs" "xs \<noteq> []"
  shows "run_scan req_step xs p = Continue (p\<lparr>pstate := ChunkDataNewLine_1, chunkSize := 0,
    req := (req p)\<lparr>r_content := r_content (req p) @ xs\<rparr>\<rparr>)"
  using assms
proof (induction xs arbitrary: p)
  case (Cons x xs)
  let ?p1 = "p\<lparr>chunkSize := chunkSize p - 1, req := (req p)\<lparr>r_content := r_content (req p) @ [x]\<rparr>\<rparr>"
  have n: "unat (chunkSize p - 1) = length xs"
    using Cons.prems(2) size_t_sub [of 1 "chunkSize p"] by simp
  have step: "req_step x p = (if chunkSize p - 1 = 0 then Continue (?p1\<lparr>pstate := ChunkDataNewLine_1\<rparr>) else Continue ?p1)"
    using Cons.prems(1) by (simp add: req_step_defs push_content_def upd_def goto_def Let_def)
  show ?case
  proof (cases "xs = []")
    case True
    then have "chunkSize p - 1 = 0" using n by (simp add: unat_eq_0)
    with step True show ?thesis by simp
  next
    case False
    then have "chunkSize p - 1 \<noteq> 0" using n by (metis length_0_conv unat_0)
    with step Cons.IH [of ?p1] n False Cons.prems(1) show ?thesis by simp
  qed
qed simp

text \<open>Chunked coding: each chunk with its size in hexadecimal, a chunk of size 0, a blank line.\<close>

definition encode_chunk :: "string \<Rightarrow> string" where
  "encode_chunk b = show_hex (length b) @ CRLF @ b @ CRLF"

definition encode_chunked :: "string list \<Rightarrow> string" where
  "encode_chunked bs = concat (map encode_chunk bs) @ show_hex 0 @ CRLF @ CRLF"

lemma run_chunk:
  assumes "pstate p = ChunkSize" "chunkSizeStr p = []" "b \<noteq> []" "length (r_content (req p)) + length b < 2 ^ 63"
  shows "run_scan req_step (encode_chunk b) p =
    Continue (p\<lparr>chunkSize := 0, req := (req p)\<lparr>r_content := r_content (req p) @ b\<rparr>\<rparr>)"
proof -
  let ?p1 = "p\<lparr>chunkSize := word_of_nat (length b), pstate := ChunkData\<rparr>"
  let ?p2 = "p\<lparr>chunkSize := 0, pstate := ChunkDataNewLine_1, req := (req p)\<lparr>r_content := r_content (req p) @ b\<rparr>\<rparr>"
  have size: "run_scan req_step (show_hex (length b) @ CRLF) p = Continue ?p1"
    using run_size_line [OF assms(1,2,4)] assms(3) by simp
  have data: "run_scan req_step b ?p1 = Continue ?p2"
    using run_chunk_data [of ?p1 b] assms(3,4) by simp
  have nl: "run_scan req_step CRLF ?p2 =
      Continue (p\<lparr>chunkSize := 0, req := (req p)\<lparr>r_content := r_content (req p) @ b\<rparr>\<rparr>)"
    using assms(1) by (simp add: CRLF_def req_step_defs goto_def)
  have "encode_chunk b = (show_hex (length b) @ CRLF) @ b @ CRLF" by (simp add: encode_chunk_def)
  then show ?thesis
    by (simp only: run_scan_append [of _ "show_hex (length b) @ CRLF"] run_scan_append [of _ b] size data nl scan.case)
qed

lemma run_chunks:
  assumes "pstate p = ChunkSize" "chunkSizeStr p = []" "\<forall>b \<in> set bs. b \<noteq> []"
    "length (r_content (req p)) + length (concat bs) < 2 ^ 63"
  shows "\<exists>p'. run_scan req_step (concat (map encode_chunk bs)) p = Continue p' \<and> pstate p' = ChunkSize \<and>
    chunkSizeStr p' = [] \<and> req p' = (req p)\<lparr>r_content := r_content (req p) @ concat bs\<rparr>"
  using assms
proof (induction bs arbitrary: p)
  case (Cons b bs)
  let ?p1 = "p\<lparr>chunkSize := 0, req := (req p)\<lparr>r_content := r_content (req p) @ b\<rparr>\<rparr>"
  have "run_scan req_step (encode_chunk b) p = Continue ?p1"
    using Cons.prems by (intro run_chunk) auto
  with Cons.IH [of ?p1] Cons.prems show ?case by (simp add: run_scan_append)
qed simp

lemma run_last_chunk:
  assumes "pstate p = ChunkSize" "chunkSizeStr p = []" "length (r_content (req p)) < 2 ^ 63"
  shows "\<exists>p'. run_scan req_step (show_hex 0 @ CRLF @ CRLF) p = Return (Result ParsingCompleted p') \<and> req p' = req p"
proof -
  have "run_scan req_step (show_hex 0 @ CRLF) p = Continue (p\<lparr>chunkSize := 0, pstate := ChunkSizeNewLine_2\<rparr>)"
    using run_size_line [of p 0] assms by simp
  then have "run_scan req_step ((show_hex 0 @ CRLF) @ CRLF) p =
      run_scan req_step CRLF (p\<lparr>chunkSize := 0, pstate := ChunkSizeNewLine_2\<rparr>)"
    by (simp only: run_scan_append scan.case)
  then show ?thesis
    by (simp add: CRLF_def req_step_defs goto_def parse_completed_def)
qed

lemma consume_chunked_body:
  assumes parts: "request_parts_ok m v ma mi (hs1 @ h # hs2)" and m: "takes_body m"
    and hs: "list_all no_body_header (hs1 @ hs2)" and h: "is_transfer_encoding h"
    and te: "strcaseeq (hvalue h) ''chunked''" and ne: "\<forall>b \<in> set bs. b \<noteq> []"
    and len: "length (concat bs) < 2 ^ 63"
  shows "\<exists>p. consume (render_request m v ma mi (hs1 @ h # hs2) @ encode_chunked bs @ rest) HttpRequestParser =
      Result ParsingCompleted p \<and> req p = request_of m v ma mi (hs1 @ h # hs2) (concat bs)"
proof -
  let ?hs = "hs1 @ h # hs2" let ?p = "after_headers m v ma mi ?hs"
  have ok: "takes_body m \<longrightarrow> list_all content_length_ok ?hs"
    using content_length_ok_parts [OF hs, of h] h
    by (simp add: content_length_ok_def is_transfer_encoding_def)
  have m': "takes_body (r_method (req (HttpRequestParser\<lparr>pstate := HeaderLineStart, req := with_line m v ma mi\<rparr>)))"
    using m by (simp add: with_line_def)
  have cnt: "chunked ?p = True" "pstate ?p = HeaderLineStart" "chunkSizeStr ?p = []"
    using fold_chunked [OF hs h te m'] by (simp_all add: after_headers_def HttpRequestParser_def)
  let ?p1 = "?p\<lparr>pstate := ChunkSize, req := (req ?p)\<lparr>r_keepAlive := keep_alive (req ?p)\<rparr>\<rparr>"
  have nl: "run_scan req_step CRLF ?p = Continue ?p1"
    using cnt by (simp add: CRLF_def req_step_def req_step_header_def goto_def upd_def)
  have content: "r_content (req ?p1) = []" by (simp add: after_headers_def with_line_def Request_def)
  obtain p2 where p2: "run_scan req_step (concat (map encode_chunk bs)) ?p1 = Continue p2" "pstate p2 = ChunkSize"
    "chunkSizeStr p2 = []" "req p2 = (req ?p1)\<lparr>r_content := r_content (req ?p1) @ concat bs\<rparr>"
    using run_chunks [of ?p1 bs] cnt ne len content by auto
  obtain p3 where p3: "run_scan req_step (show_hex 0 @ CRLF @ CRLF) p2 = Return (Result ParsingCompleted p3)"
    "req p3 = req p2"
    using run_last_chunk [OF p2(2,3)] p2(4) content len by auto
  have "run_scan req_step (encode_chunked bs) ?p1 = Return (Result ParsingCompleted p3)"
    using p2(1) p3(1) by (simp only: encode_chunked_def run_scan_append scan.case)
  then have body: "run_scan req_step (encode_chunked bs @ rest) ?p1 = Return (Result ParsingCompleted p3)"
    by (rule run_scan_Return_append)
  have "run_scan req_step ((render_line m v ma mi @ concat (map inspect_header ?hs)) @ CRLF @ encode_chunked bs @ rest)
      HttpRequestParser = Return (Result ParsingCompleted p3)"
    using run_to_headers [OF parts ok] nl body
    by (simp only: run_scan_append [of _ "render_line m v ma mi @ concat (map inspect_header ?hs)"]
        run_scan_append [of _ CRLF] scan.case)
  then have "consume (render_request m v ma mi ?hs @ encode_chunked bs @ rest) HttpRequestParser = Result ParsingCompleted p3"
    by (simp add: consume_def render_request_eq)
  moreover have "req p3 = request_of m v ma mi ?hs (concat bs)"
    using keep_alive_parts [of ?hs m v ma mi "concat bs"]
    by (simp add: p3(2) p2(4) after_headers_def with_line_def Request_def request_of_def)
  ultimately show ?thesis by blast
qed

section \<open>A negative length\<close>

text \<open>
  \<open>Content-Length: -1\<close> becomes a huge \<open>size_t\<close> and \<open>reserve\<close> throws \<open>std::length_error\<close>.
\<close>

lemma reserve_negative:
  assumes "atoi s < 0"
  shows "reserve (word_of_int (atoi s)) k = Return (Throws StdLengthError)"
proof -
  have "uint (word_of_int (atoi s) :: size_t) = 2 ^ 64 + atoi s"
  proof -
    have "atoi s mod 2 ^ 64 = (2 ^ 64 + atoi s) mod 2 ^ 64" by simp
    also have "\<dots> = 2 ^ 64 + atoi s" using assms atoi_bounds(1) [of s] by (intro mod_pos_pos_trivial) auto
    finally show ?thesis by (simp add: uint_word_of_int)
  qed
  then show ?thesis
    using atoi_bounds(1) [of s] by (simp add: reserve_def word_less_alt)
qed

lemma consume_negative_length:
  assumes parts: "request_parts_ok m v ma mi (hs @ [h])" and m: "takes_body m"
    and hs: "list_all no_body_header hs" and h: "is_content_length h" and neg: "atoi (hvalue h) < 0"
  shows "consume (render_request m v ma mi (hs @ [h]) @ rest) HttpRequestParser = Throws StdLengthError"
proof -
  let ?p = "after_headers m v ma mi hs"
  let ?p4 = "?p\<lparr>pstate := HeaderValue, req := (req ?p)\<lparr>r_headers := r_headers (req ?p) @ [h]\<rparr>\<rparr>"
  have ok: "request_parts_ok m v ma mi hs" "header_ok h" "takes_body m \<longrightarrow> list_all content_length_ok hs"
    using parts hs by (auto simp: request_parts_ok_def list_all_iff no_body_header_def content_length_ok_def)
  have st: "pstate ?p = HeaderLineStart" "r_method (req ?p) = m"
    by (simp_all add: after_headers_def with_line_def)
  have crlf: "run_scan req_step (CRLF @ CRLF @ rest) ?p4 = Return (Throws StdLengthError)"
    using m h st(2) neg
    by (simp add: CRLF_def req_step_def req_step_header_def end_of_header_def reserve_negative
        is_content_length_def takes_body_def Let_def)
  have "render_request m v ma mi (hs @ [h]) @ rest = (render_line m v ma mi @ concat (map inspect_header hs)) @
      (hname h @ '': '' @ hvalue h) @ CRLF @ CRLF @ rest"
    by (simp add: render_request_eq inspect_header_def)
  then have "run_scan req_step (render_request m v ma mi (hs @ [h]) @ rest) HttpRequestParser = Return (Throws StdLengthError)"
    using run_to_headers [OF ok(1,3)] run_header_line [OF ok(2) st(1)] crlf
    by (simp only: run_scan_append [of _ "render_line m v ma mi @ concat (map inspect_header hs)"]
        run_scan_append [of _ "hname h @ '': '' @ hvalue h"] scan.case)
  then show ?thesis by (simp add: consume_def)
qed

section \<open>Both framings\<close>

text \<open>The header \<open>h\<close> announces that the body is on the wire as the last argument.\<close>

inductive carries :: "header_item \<Rightarrow> string \<Rightarrow> string \<Rightarrow> bool" where
  fixed: "is_content_length h \<Longrightarrow> atoi (hvalue h) = int (length body) \<Longrightarrow> body \<noteq> [] \<Longrightarrow> carries h body body"
| chunked: "is_transfer_encoding h \<Longrightarrow> strcaseeq (hvalue h) ''chunked'' \<Longrightarrow> \<forall>b \<in> set bs. b \<noteq> [] \<Longrightarrow>
    length (concat bs) < 2 ^ 63 \<Longrightarrow> carries h (concat bs) (encode_chunked bs)"

lemma consume_body:
  assumes "request_parts_ok m v ma mi (hs1 @ h # hs2)" "takes_body m" "list_all no_body_header (hs1 @ hs2)" "carries h body wire"
  shows "\<exists>p. consume (render_request m v ma mi (hs1 @ h # hs2) @ wire @ rest) HttpRequestParser =
      Result ParsingCompleted p \<and> req p = request_of m v ma mi (hs1 @ h # hs2) body"
  using assms(4) consume_fixed_body [OF assms(1-3)] consume_chunked_body [OF assms(1-3)] by cases blast+

end
