(* ===== verification/Response_Parser.thy ===== *)
theory Response_Parser
  imports Request_Bodies
begin

text \<open>
  \<open>httpparser::Response\<close> (\<open>http/httpparser/response.hpp\<close>) and the state machine of
  \<open>HttpResponseParser::consume\<close> (\<open>http/httpparser/httpresponseparser.hpp\<close>). The enumerators carry
  the prefix \<open>R_\<close> to keep them apart from those of the request parser; the header item has the
  same two strings as the request's and is shared with it. The status code is an \<open>unsigned int\<close>.
\<close>

section \<open>The response\<close>

record response =
  s_versionMajor :: int
  s_versionMinor :: int
  s_headers :: "header_item list"
  s_content :: string
  s_keepAlive :: bool
  s_statusCode :: "32 word"
  s_status :: string

definition Response :: response where
  "Response = \<lparr>s_versionMajor = 0, s_versionMinor = 0, s_headers = [], s_content = [], s_keepAlive = False,
     s_statusCode = 0, s_status = []\<rparr>"

text \<open>\<open>Response::inspect\<close>.\<close>

definition inspect_response_header :: "header_item \<Rightarrow> string" where
  "inspect_response_header h = hname h @ '': '' @ hvalue h @ [LF]"

definition inspect_response :: "response \<Rightarrow> string" where
  "inspect_response r = ''HTTP/'' @ show_int (s_versionMajor r) @ ''.'' @ show_int (s_versionMinor r) @ '' '' @
     show_nat (unat (s_statusCode r)) @ '' '' @ s_status r @ [LF] @
     concat (map inspect_response_header (s_headers r)) @ s_content r @ [LF]"

section \<open>The parser\<close>

datatype resp_state =
    R_ResponseStatusStart
  | R_ResponseHttpVersion_ht
  | R_ResponseHttpVersion_htt
  | R_ResponseHttpVersion_http
  | R_ResponseHttpVersion_slash
  | R_ResponseHttpVersion_majorStart
  | R_ResponseHttpVersion_major
  | R_ResponseHttpVersion_minorStart
  | R_ResponseHttpVersion_minor
  | R_ResponseHttpVersion_statusCodeStart
  | R_ResponseHttpVersion_statusCode
  | R_ResponseHttpVersion_statusTextStart
  | R_ResponseHttpVersion_statusText
  | R_ResponseHttpVersion_newLine
  | R_HeaderLineStart
  | R_HeaderLws
  | R_HeaderName
  | R_SpaceBeforeHeaderValue
  | R_HeaderValue
  | R_ExpectingNewline_2
  | R_ExpectingNewline_3
  | R_Post
  | R_ChunkSize
  | R_ChunkExtensionName
  | R_ChunkExtensionValue
  | R_ChunkSizeNewLine
  | R_ChunkSizeNewLine_2
  | R_ChunkSizeNewLine_3
  | R_ChunkTrailerName
  | R_ChunkTrailerValue
  | R_ChunkDataNewLine_1
  | R_ChunkDataNewLine_2
  | R_ChunkData

record resp_parser =
  rstate :: resp_state
  rcontentSize :: size_t
  rchunkSizeStr :: string
  rchunkSize :: size_t
  rchunked :: bool
  resp :: response

definition HttpResponseParser :: resp_parser where
  "HttpResponseParser = \<lparr>rstate = R_ResponseStatusStart, rcontentSize = 0, rchunkSizeStr = [], rchunkSize = 0,
     rchunked = False, resp = Response\<rparr>"

datatype resp_exit =
    RResult ParseResult resp_parser
  | RThrows exn
  | RIntOverflow
  | RBackOfEmpty

type_synonym resp_scan = "(resp_exit, resp_parser) scan"

definition resp_error :: "resp_parser \<Rightarrow> resp_scan" where
  "resp_error q = Return (RResult ParsingError q)"

definition resp_completed :: "resp_parser \<Rightarrow> resp_scan" where
  "resp_completed q = Return (RResult ParsingCompleted q)"

definition rgoto :: "resp_state \<Rightarrow> resp_parser \<Rightarrow> resp_scan" where
  "rgoto st q = Continue (q\<lparr>rstate := st\<rparr>)"

definition rupd :: "(response \<Rightarrow> response) \<Rightarrow> resp_parser \<Rightarrow> resp_parser" where
  "rupd f q = q\<lparr>resp := f (resp q)\<rparr>"

definition push_status :: "char \<Rightarrow> resp_parser \<Rightarrow> resp_parser" where
  "push_status c = rupd (\<lambda>r. r\<lparr>s_status := s_status r @ [c]\<rparr>)"

definition rpush_content :: "char \<Rightarrow> resp_parser \<Rightarrow> resp_parser" where
  "rpush_content c = rupd (\<lambda>r. r\<lparr>s_content := s_content r @ [c]\<rparr>)"

definition rset_major :: "int \<Rightarrow> resp_parser \<Rightarrow> resp_parser" where
  "rset_major v = rupd (\<lambda>r. r\<lparr>s_versionMajor := v\<rparr>)"

definition rset_minor :: "int \<Rightarrow> resp_parser \<Rightarrow> resp_parser" where
  "rset_minor v = rupd (\<lambda>r. r\<lparr>s_versionMinor := v\<rparr>)"

definition set_code :: "32 word \<Rightarrow> resp_parser \<Rightarrow> resp_parser" where
  "set_code v = rupd (\<lambda>r. r\<lparr>s_statusCode := v\<rparr>)"

text \<open>\<open>statusCode * 10 + input - '0'\<close> is \<open>unsigned\<close>: it wraps around.\<close>

definition shift_code :: "32 word \<Rightarrow> char \<Rightarrow> 32 word" where
  "shift_code v c = v * 10 + word_of_int (c_int c) - 48"

definition rwith_back :: "(header_item \<Rightarrow> header_item) \<Rightarrow> resp_parser \<Rightarrow> (resp_parser \<Rightarrow> resp_scan) \<Rightarrow> resp_scan" where
  "rwith_back f q k = (if s_headers (resp q) = [] then Return RBackOfEmpty
     else k (rupd (\<lambda>r. r\<lparr>s_headers := butlast (s_headers r) @ [f (last (s_headers r))]\<rparr>) q))"

definition rreserve :: "size_t \<Rightarrow> resp_scan \<Rightarrow> resp_scan" where
  "rreserve n k = (if 2 ^ 63 - 1 < n then Return (RThrows StdLengthError) else k)"

lemmas resp_ops = resp_error_def resp_completed_def rgoto_def rupd_def push_status_def rpush_content_def
  rset_major_def rset_minor_def set_code_def rwith_back_def

section \<open>Body: fixed length and chunked\<close>

definition resp_step_body :: "char \<Rightarrow> resp_parser \<Rightarrow> resp_scan" where
  "resp_step_body c q = (case rstate q of
     R_Post \<Rightarrow>
       (let q1 = rpush_content c (q\<lparr>rcontentSize := rcontentSize q - 1\<rparr>)
        in if rcontentSize q1 = 0 then resp_completed q1 else Continue q1)
   | R_ChunkSize \<Rightarrow>
       if isalnum c then Continue (q\<lparr>rchunkSizeStr := rchunkSizeStr q @ [c]\<rparr>)
       else if c = CHR '';'' then rgoto R_ChunkExtensionName q
       else if c = CR then rgoto R_ChunkSizeNewLine q
       else resp_error q
   | R_ChunkExtensionName \<Rightarrow>
       if isalnum c \<or> c = SP then Continue q
       else if c = CHR ''='' then rgoto R_ChunkExtensionValue q
       else if c = CR then rgoto R_ChunkSizeNewLine q
       else resp_error q
   | R_ChunkExtensionValue \<Rightarrow>
       if isalnum c \<or> c = SP then Continue q
       else if c = CR then rgoto R_ChunkSizeNewLine q
       else resp_error q
   | R_ChunkSizeNewLine \<Rightarrow>
       if c = LF then
         (let n = (word_of_int (strtol 16 (rchunkSizeStr q)) :: size_t);
              q1 = q\<lparr>rchunkSize := n, rchunkSizeStr := []\<rparr>
          in rreserve (word_of_nat (length (s_content (resp q))) + n)
               (if n = 0 then rgoto R_ChunkSizeNewLine_2 q1 else rgoto R_ChunkData q1))
       else resp_error q
   | R_ChunkSizeNewLine_2 \<Rightarrow>
       if c = CR then rgoto R_ChunkSizeNewLine_3 q
       else if isalpha c then rgoto R_ChunkTrailerName q
       else resp_error q
   | R_ChunkSizeNewLine_3 \<Rightarrow> if c = LF then resp_completed q else resp_error q
   | R_ChunkTrailerName \<Rightarrow>
       if isalnum c then Continue q
       else if c = CHR '':'' then rgoto R_ChunkTrailerValue q
       else resp_error q
   | R_ChunkTrailerValue \<Rightarrow>
       if isalnum c \<or> c = SP then Continue q
       else if c = CR then rgoto R_ChunkSizeNewLine q
       else resp_error q
   | R_ChunkData \<Rightarrow>
       (let q1 = rpush_content c (q\<lparr>rchunkSize := rchunkSize q - 1\<rparr>)
        in if rchunkSize q1 = 0 then rgoto R_ChunkDataNewLine_1 q1 else Continue q1)
   | R_ChunkDataNewLine_1 \<Rightarrow> if c = CR then rgoto R_ChunkDataNewLine_2 q else resp_error q
   | R_ChunkDataNewLine_2 \<Rightarrow> if c = LF then rgoto R_ChunkSize q else resp_error q
   | _ \<Rightarrow> resp_error q)"

section \<open>Headers\<close>

text \<open>The end of a header line; unlike in a request, every response may have a body.\<close>

definition end_of_response_header :: "resp_parser \<Rightarrow> resp_scan" where
  "end_of_response_header q =
     (if s_headers (resp q) = [] then Return RBackOfEmpty
      else let h = last (s_headers (resp q)) in
        if strcaseeq (hname h) ''Content-Length'' then
          (let n = (word_of_int (atoi (hvalue h)) :: size_t)
           in rreserve n (rgoto R_ExpectingNewline_2 (q\<lparr>rcontentSize := n\<rparr>)))
        else if strcaseeq (hname h) ''Transfer-Encoding'' then
          rgoto R_ExpectingNewline_2
            (if strcaseeq (hvalue h) ''chunked'' then q\<lparr>rchunked := True\<rparr> else q)
        else rgoto R_ExpectingNewline_2 q)"

definition response_keep_alive :: "response \<Rightarrow> bool" where
  "response_keep_alive r = (case List.find checkIfConnection (s_headers r) of
       Some h \<Rightarrow> strcaseeq (hvalue h) ''Keep-Alive''
     | None \<Rightarrow> if s_versionMajor r > 1 \<or> (s_versionMajor r = 1 \<and> s_versionMinor r = 1)
               then True else s_keepAlive r)"

definition resp_step_header :: "char \<Rightarrow> resp_parser \<Rightarrow> resp_scan" where
  "resp_step_header c q = (case rstate q of
     R_HeaderLineStart \<Rightarrow>
       if c = CR then rgoto R_ExpectingNewline_3 q
       else if s_headers (resp q) \<noteq> [] \<and> (c = SP \<or> c = TAB) then rgoto R_HeaderLws q
       else if \<not> isChar c \<or> isControl c \<or> isSpecial c then resp_error q
       else rgoto R_HeaderName (rupd (\<lambda>r. r\<lparr>s_headers := s_headers r @ [push_name c HeaderItem]\<rparr>) q)
   | R_HeaderLws \<Rightarrow>
       if c = CR then rgoto R_ExpectingNewline_2 q
       else if c = SP \<or> c = TAB then Continue q
       else if isControl c then resp_error q
       else rwith_back (push_value c) q (rgoto R_HeaderValue)
   | R_HeaderName \<Rightarrow>
       if c = CHR '':'' then rgoto R_SpaceBeforeHeaderValue q
       else if \<not> isChar c \<or> isControl c \<or> isSpecial c then resp_error q
       else rwith_back (push_name c) q Continue
   | R_SpaceBeforeHeaderValue \<Rightarrow> if c = SP then rgoto R_HeaderValue q else resp_error q
   | R_HeaderValue \<Rightarrow>
       if c = CR then end_of_response_header q
       else if isControl c then resp_error q
       else rwith_back (push_value c) q Continue
   | R_ExpectingNewline_2 \<Rightarrow> if c = LF then rgoto R_HeaderLineStart q else resp_error q
   | R_ExpectingNewline_3 \<Rightarrow>
       (let q1 = rupd (\<lambda>r. r\<lparr>s_keepAlive := response_keep_alive r\<rparr>) q in
        if rchunked q1 then rgoto R_ChunkSize q1
        else if rcontentSize q1 = 0 then (if c = LF then resp_completed q1 else resp_error q1)
        else rgoto R_Post q1)
   | _ \<Rightarrow> resp_step_body c q)"

section \<open>Status line\<close>

definition resp_step :: "char \<Rightarrow> resp_parser \<Rightarrow> resp_scan" where
  "resp_step c q = (case rstate q of
     R_ResponseStatusStart \<Rightarrow> if c \<noteq> CHR ''H'' then resp_error q else rgoto R_ResponseHttpVersion_ht q
   | R_ResponseHttpVersion_ht \<Rightarrow> if c = CHR ''T'' then rgoto R_ResponseHttpVersion_htt q else resp_error q
   | R_ResponseHttpVersion_htt \<Rightarrow> if c = CHR ''T'' then rgoto R_ResponseHttpVersion_http q else resp_error q
   | R_ResponseHttpVersion_http \<Rightarrow> if c = CHR ''P'' then rgoto R_ResponseHttpVersion_slash q else resp_error q
   | R_ResponseHttpVersion_slash \<Rightarrow>
       if c = CHR ''/'' then rgoto R_ResponseHttpVersion_majorStart (rset_minor 0 (rset_major 0 q))
       else resp_error q
   | R_ResponseHttpVersion_majorStart \<Rightarrow>
       if isDigit c then rgoto R_ResponseHttpVersion_major (rset_major (c_int c - 48) q)
       else resp_error q
   | R_ResponseHttpVersion_major \<Rightarrow>
       if c = CHR ''.'' then rgoto R_ResponseHttpVersion_minorStart q
       else if isDigit c then (case shift_digit (s_versionMajor (resp q)) c of
           None \<Rightarrow> Return RIntOverflow | Some v \<Rightarrow> Continue (rset_major v q))
       else resp_error q
   | R_ResponseHttpVersion_minorStart \<Rightarrow>
       if isDigit c then rgoto R_ResponseHttpVersion_minor (rset_minor (c_int c - 48) q)
       else resp_error q
   | R_ResponseHttpVersion_minor \<Rightarrow>
       if c = SP then rgoto R_ResponseHttpVersion_statusCodeStart (set_code 0 q)
       else if isDigit c then (case shift_digit (s_versionMinor (resp q)) c of
           None \<Rightarrow> Return RIntOverflow | Some v \<Rightarrow> Continue (rset_minor v q))
       else resp_error q
   | R_ResponseHttpVersion_statusCodeStart \<Rightarrow>
       if isDigit c then rgoto R_ResponseHttpVersion_statusCode (set_code (word_of_int (c_int c - 48)) q)
       else resp_error q
   | R_ResponseHttpVersion_statusCode \<Rightarrow>
       if isDigit c then Continue (set_code (shift_code (s_statusCode (resp q)) c) q)
       else if s_statusCode (resp q) < 100 \<or> 999 < s_statusCode (resp q) then resp_error q
       else if c = SP then rgoto R_ResponseHttpVersion_statusTextStart q
       else resp_error q
   | R_ResponseHttpVersion_statusTextStart \<Rightarrow>
       if isChar c then rgoto R_ResponseHttpVersion_statusText (push_status c q) else resp_error q
   | R_ResponseHttpVersion_statusText \<Rightarrow>
       if c = CR then rgoto R_ResponseHttpVersion_newLine q
       else if isChar c then Continue (push_status c q)
       else resp_error q
   | R_ResponseHttpVersion_newLine \<Rightarrow> if c = LF then rgoto R_HeaderLineStart q else resp_error q
   | _ \<Rightarrow> resp_step_header c q)"

section \<open>\<open>consume\<close>\<close>

definition resp_consume :: "string \<Rightarrow> resp_parser \<Rightarrow> resp_exit" where
  "resp_consume bytes q = (case run_scan resp_step bytes q of
       Continue q' \<Rightarrow> RResult ParsingIncompleted q' | Return r \<Rightarrow> r)"

end
