(* ===== verification/Response_Correct.thy ===== *)
theory Response_Correct
  imports Response_Parser
begin

text \<open>
  After the status line the response parser and the request parser run the same machine: seen
  through \<open>view\<close>, a response is a \<open>POST\<close> request with the same headers and body. The
  simulation carries the results about headers and bodies of requests over to responses.
\<close>

section \<open>The simulation\<close>

fun request_state :: "resp_state \<Rightarrow> req_state" where
  "request_state R_HeaderLineStart = HeaderLineStart"
| "request_state R_HeaderLws = HeaderLws"
| "request_state R_HeaderName = HeaderName"
| "request_state R_SpaceBeforeHeaderValue = SpaceBeforeHeaderValue"
| "request_state R_HeaderValue = HeaderValue"
| "request_state R_ExpectingNewline_2 = ExpectingNewline_2"
| "request_state R_ExpectingNewline_3 = ExpectingNewline_3"
| "request_state R_Post = Post"
| "request_state R_ChunkSize = ChunkSize"
| "request_state R_ChunkExtensionName = ChunkExtensionName"
| "request_state R_ChunkExtensionValue = ChunkExtensionValue"
| "request_state R_ChunkSizeNewLine = ChunkSizeNewLine"
| "request_state R_ChunkSizeNewLine_2 = ChunkSizeNewLine_2"
| "request_state R_ChunkSizeNewLine_3 = ChunkSizeNewLine_3"
| "request_state R_ChunkTrailerName = ChunkTrailerName"
| "request_state R_ChunkTrailerValue = ChunkTrailerValue"
| "request_state R_ChunkDataNewLine_1 = ChunkDataNewLine_1"
| "request_state R_ChunkDataNewLine_2 = ChunkDataNewLine_2"
| "request_state R_ChunkData = ChunkData"
| "request_state _ = RequestMethodStart"

text \<open>The states from \<open>HeaderLineStart\<close> on.\<close>

definition past_line :: "resp_parser \<Rightarrow> bool" where
  "past_line q \<longleftrightarrow> request_state (rstate q) \<noteq> RequestMethodStart"

definition as_post :: "response \<Rightarrow> request" where
  "as_post r = \<lparr>r_method = ''POST'', r_uri = ''/'', r_versionMajor = s_versionMajor r,
     r_versionMinor = s_versionMinor r, r_headers = s_headers r, r_content = s_content r, r_keepAlive = s_keepAlive r\<rparr>"

definition view :: "resp_parser \<Rightarrow> req_parser" where
  "view q = \<lparr>pstate = request_state (rstate q), contentSize = rcontentSize q, chunkSizeStr = rchunkSizeStr q,
     chunkSize = rchunkSize q, chunked = rchunked q, req = as_post (resp q)\<rparr>"

fun view_exit :: "resp_exit \<Rightarrow> req_exit" where
  "view_exit (RResult res q) = Result res (view q)"
| "view_exit (RThrows e) = Throws e"
| "view_exit RIntOverflow = IntOverflow"
| "view_exit RBackOfEmpty = BackOfEmpty"

fun view_scan :: "resp_scan \<Rightarrow> req_scan" where
  "view_scan (Continue q) = Continue (view q)"
| "view_scan (Return r) = Return (view_exit r)"

lemma view_if: "view_scan (if b then x else y) = (if b then view_scan x else view_scan y)"
  by simp

lemma keep_alive_as_post: "keep_alive (as_post r) = response_keep_alive r"
  by (auto simp: keep_alive_def response_keep_alive_def as_post_def split: option.split)

lemma step_view:
  assumes "past_line q"
  shows "req_step c (view q) = view_scan (resp_step c q)"
  using assms
  by (cases "rstate q";
      simp add: past_line_def view_if keep_alive_as_post [unfolded as_post_def] view_def req_step_def req_step_header_def req_step_body_def
        resp_step_def resp_step_header_def resp_step_body_def parser_ops resp_ops end_of_header_def
        end_of_response_header_def reserve_def rreserve_def as_post_def Let_def)

lemma past_line_step:
  assumes "past_line q" "resp_step c q = Continue q'"
  shows "past_line q'"
  using assms
  by (cases "rstate q";
      auto simp: past_line_def resp_step_def resp_step_header_def resp_step_body_def resp_ops
        end_of_response_header_def rreserve_def Let_def split: if_splits)

lemma run_view:
  assumes "past_line q"
  shows "run_scan req_step xs (view q) = view_scan (run_scan resp_step xs q)"
  using assms
proof (induction xs arbitrary: q)
  case (Cons x xs)
  then show ?case
    using step_view [OF Cons.prems, of x] past_line_step [OF Cons.prems, of x]
    by (cases "resp_step x q") simp_all
qed simp

lemma view_Completed:
  assumes "view_scan (run_scan resp_step xs q) = Return (Result ParsingCompleted p)"
  obtains q' where "run_scan resp_step xs q = Return (RResult ParsingCompleted q')" "p = view q'"
proof (cases "run_scan resp_step xs q")
  case (Return r)
  with assms that show thesis by (cases r) auto
qed (use assms in simp)

section \<open>The invariant\<close>

definition response_wf :: "response \<Rightarrow> bool" where
  "response_wf r \<longleftrightarrow> in_int (s_versionMajor r) \<and> in_int (s_versionMinor r) \<and> list_all header_ok (s_headers r) \<and>
     list_all isChar (s_status r)"

definition line_done :: "response \<Rightarrow> bool" where
  "line_done r \<longleftrightarrow> 100 \<le> s_statusCode r \<and> s_statusCode r \<le> 999 \<and> s_status r \<noteq> []"

definition resp_inv :: "resp_parser \<Rightarrow> bool" where
  "resp_inv q \<longleftrightarrow> response_wf (resp q) \<and>
     (rstate q = R_ResponseHttpVersion_statusTextStart \<longrightarrow> 100 \<le> s_statusCode (resp q) \<and> s_statusCode (resp q) \<le> 999) \<and>
     (rstate q \<in> {R_ResponseHttpVersion_statusText, R_ResponseHttpVersion_newLine} \<or> past_line q \<longrightarrow> line_done (resp q)) \<and>
     (rstate q \<in> {R_HeaderLws, R_HeaderName, R_SpaceBeforeHeaderValue, R_HeaderValue} \<longrightarrow> s_headers (resp q) \<noteq> [])"

definition resp_exit_good :: "resp_exit \<Rightarrow> bool" where
  "resp_exit_good r = (case r of
       RResult ParsingCompleted q \<Rightarrow> response_wf (resp q) \<and> line_done (resp q)
     | RBackOfEmpty \<Rightarrow> False | _ \<Rightarrow> True)"

lemma HttpResponseParser_inv: "resp_inv HttpResponseParser"
  by (simp add: resp_inv_def response_wf_def HttpResponseParser_def Response_def past_line_def in_int_def INT_MAX_def)

lemmas resp_step_defs = resp_step_def resp_step_header_def resp_step_body_def

lemma resp_step_inv:
  assumes "resp_inv q" "resp_step c q = Continue q'"
  shows "resp_inv q'"
  using assms
  by (cases "rstate q";
      simp add: resp_step_defs resp_inv_def response_wf_def line_done_def past_line_def resp_ops
        end_of_response_header_def rreserve_def Let_def isToken_def [symmetric] parser_inv_rules
        split: if_splits option.splits;
      clarsimp simp: parser_inv_rules headers_ok_last not_less)

lemma resp_step_good:
  assumes "resp_inv q" "resp_step c q = Return r"
  shows "resp_exit_good r"
  using assms
  by (cases "rstate q";
      simp add: resp_step_defs resp_inv_def response_wf_def line_done_def past_line_def resp_ops
        end_of_response_header_def rreserve_def Let_def resp_exit_good_def parser_inv_rules
        split: if_splits option.splits;
      clarsimp simp: parser_inv_rules headers_ok_last response_wf_def line_done_def)

interpretation resps: scanner resp_step resp_inv resp_exit_good
  by unfold_locales (auto intro: resp_step_inv resp_step_good)

lemma resp_consume_good:
  assumes "resp_inv q"
  shows "resp_exit_good (resp_consume bytes q)"
  using resps.run_good [OF assms] by (auto simp: resp_consume_def resp_exit_good_def split: scan.splits)

section \<open>The status line\<close>

definition render_status :: "nat \<Rightarrow> nat \<Rightarrow> nat \<Rightarrow> string \<Rightarrow> string" where
  "render_status ma mi code reason =
     ''HTTP/'' @ show_nat ma @ ''.'' @ show_nat mi @ '' '' @ show_nat code @ '' '' @ reason @ CRLF"

definition render_response :: "nat \<Rightarrow> nat \<Rightarrow> nat \<Rightarrow> string \<Rightarrow> header_item list \<Rightarrow> string" where
  "render_response ma mi code reason hs = render_status ma mi code reason @ concat (map inspect_header hs) @ CRLF"

text \<open>The code counts modulo \<open>2 ^ 32\<close>; the first byte of the reason may even be a carriage return.\<close>

definition status_ok :: "nat \<Rightarrow> nat \<Rightarrow> nat \<Rightarrow> string \<Rightarrow> bool" where
  "status_ok ma mi code reason \<longleftrightarrow> version_ok ma \<and> version_ok mi \<and>
     100 \<le> (word_of_nat code :: 32 word) \<and> (word_of_nat code :: 32 word) \<le> 999 \<and>
     reason \<noteq> [] \<and> list_all isChar reason \<and> CR \<notin> set (tl reason)"

definition with_status :: "nat \<Rightarrow> nat \<Rightarrow> nat \<Rightarrow> string \<Rightarrow> response" where
  "with_status ma mi code reason = Response\<lparr>s_versionMajor := int ma, s_versionMinor := int mi,
     s_statusCode := word_of_nat code, s_status := reason\<rparr>"

lemma shift_code_show: "shift_code (word_of_nat (n div 10)) (digit_char (n mod 10)) = word_of_nat n"
proof -
  have "shift_code (word_of_nat (n div 10)) (digit_char (n mod 10)) = word_of_nat (n div 10) * 10 + word_of_nat (n mod 10)"
    by (simp add: shift_code_def)
  also have "\<dots> = word_of_nat (n div 10 * 10 + n mod 10)" by (simp only: of_nat_add of_nat_mult of_nat_numeral)
  finally show ?thesis by simp
qed

lemma digit_char_not_SP [simp]: "d < 10 \<Longrightarrow> digit_char d \<noteq> SP"
  using isdigit_digit_char [of d] by (auto simp: ctype_defs)

lemma run_rmajor:
  assumes "version_ok n" "rstate q = R_ResponseHttpVersion_majorStart"
  shows "run_scan resp_step (show_nat n) q = Continue (rset_major (int n) (q\<lparr>rstate := R_ResponseHttpVersion_major\<rparr>))"
  using assms
proof (induction n rule: show_nat.induct)
  case (1 n)
  show ?case
  proof (cases "n < 10")
    case True
    with "1.prems" show ?thesis by (subst show_nat.simps) (simp add: resp_step_def resp_ops)
  next
    case False
    have "version_ok (n div 10)" using "1.prems"(1) by (simp add: version_ok_def)
    with 1 False have "run_scan resp_step (show_nat (n div 10)) q =
        Continue (rset_major (int (n div 10)) (q\<lparr>rstate := R_ResponseHttpVersion_major\<rparr>))" by simp
    moreover note shift_digit_show [OF "1.prems"(1)]
    ultimately show ?thesis
      using False by (subst show_nat.simps) (simp add: run_scan_append resp_step_def resp_ops)
  qed
qed

lemma run_rminor:
  assumes "version_ok n" "rstate q = R_ResponseHttpVersion_minorStart"
  shows "run_scan resp_step (show_nat n) q = Continue (rset_minor (int n) (q\<lparr>rstate := R_ResponseHttpVersion_minor\<rparr>))"
  using assms
proof (induction n rule: show_nat.induct)
  case (1 n)
  show ?case
  proof (cases "n < 10")
    case True
    with "1.prems" show ?thesis by (subst show_nat.simps) (simp add: resp_step_def resp_ops)
  next
    case False
    have "version_ok (n div 10)" using "1.prems"(1) by (simp add: version_ok_def)
    with 1 False have "run_scan resp_step (show_nat (n div 10)) q =
        Continue (rset_minor (int (n div 10)) (q\<lparr>rstate := R_ResponseHttpVersion_minor\<rparr>))" by simp
    moreover note shift_digit_show [OF "1.prems"(1)]
    ultimately show ?thesis
      using False by (subst show_nat.simps) (simp add: run_scan_append resp_step_def resp_ops)
  qed
qed

lemma run_code:
  assumes "rstate q = R_ResponseHttpVersion_statusCodeStart"
  shows "run_scan resp_step (show_nat n) q =
    Continue (set_code (word_of_nat n) (q\<lparr>rstate := R_ResponseHttpVersion_statusCode\<rparr>))"
  using assms
proof (induction n rule: show_nat.induct)
  case (1 n)
  show ?case
  proof (cases "n < 10")
    case True
    with "1.prems" show ?thesis by (subst show_nat.simps) (simp add: resp_step_def resp_ops)
  next
    case False
    with 1 have "run_scan resp_step (show_nat (n div 10)) q =
        Continue (set_code (word_of_nat (n div 10)) (q\<lparr>rstate := R_ResponseHttpVersion_statusCode\<rparr>))" by simp
    moreover note shift_code_show [of n]
    ultimately show ?thesis
      using False by (subst show_nat.simps) (simp add: run_scan_append resp_step_def resp_ops)
  qed
qed

lemma run_reason:
  assumes "list_all isChar xs" "CR \<notin> set xs" "rstate q = R_ResponseHttpVersion_statusText"
  shows "run_scan resp_step xs q = Continue (rupd (\<lambda>r. r\<lparr>s_status := s_status r @ xs\<rparr>) q)"
proof -
  have "resp_step c (rupd (\<lambda>r. r\<lparr>s_status := s_status r @ acc\<rparr>) q) =
      Continue (rupd (\<lambda>r. r\<lparr>s_status := s_status r @ acc @ [c]\<rparr>) q)" if "isChar c \<and> c \<noteq> CR" for c acc
    using that assms(3) by (simp add: resp_step_def resp_ops)
  from run_scan_span [where f = "\<lambda>acc. rupd (\<lambda>r. r\<lparr>s_status := s_status r @ acc\<rparr>) q" and acc = "[]"
      and P = "\<lambda>c. isChar c \<and> c \<noteq> CR", OF this] assms(1,2)
  have "run_scan resp_step xs (rupd (\<lambda>r. r\<lparr>s_status := s_status r @ []\<rparr>) q) =
      Continue (rupd (\<lambda>r. r\<lparr>s_status := s_status r @ [] @ xs\<rparr>) q)"
    by (auto simp: list_all_iff)
  then show ?thesis by (simp add: rupd_def)
qed

lemma run_status:
  assumes "status_ok ma mi code reason"
  shows "run_scan resp_step (render_status ma mi code reason) HttpResponseParser =
    Continue (HttpResponseParser\<lparr>rstate := R_HeaderLineStart, resp := with_status ma mi code reason\<rparr>)"
proof -
  obtain c cs where r: "reason = c # cs" using assms by (cases reason) (auto simp: status_ok_def)
  have ok: "isChar c" "list_all isChar cs" "CR \<notin> set cs" "version_ok ma" "version_ok mi"
    "100 \<le> (word_of_nat code :: 32 word)" "(word_of_nat code :: 32 word) \<le> 999"
    using assms r by (simp_all add: status_ok_def)
  have "\<not> isDigit SP" by (simp add: isDigit_isdigit ctype_defs)
  with ok show ?thesis
    by (simp add: render_status_def r run_scan_append run_rmajor run_rminor run_code run_reason resp_step_def resp_ops
        CRLF_def HttpResponseParser_def with_status_def Response_def not_less)
qed

section \<open>Responses written out\<close>

text \<open>How a body travels after its headers: not at all, with its length, or in chunks.\<close>

inductive body_coded :: "header_item list \<Rightarrow> string \<Rightarrow> string \<Rightarrow> bool" where
  no_body: "list_all no_body_header hs \<Longrightarrow> body_coded hs [] []"
| fixed_body: "list_all no_body_header (hs1 @ hs2) \<Longrightarrow> is_content_length h \<Longrightarrow> body \<noteq> [] \<Longrightarrow>
    atoi (hvalue h) = int (length body) \<Longrightarrow> body_coded (hs1 @ h # hs2) body body"
| chunked_body: "list_all no_body_header (hs1 @ hs2) \<Longrightarrow> is_transfer_encoding h \<Longrightarrow> strcaseeq (hvalue h) ''chunked'' \<Longrightarrow>
    \<forall>b \<in> set bs. b \<noteq> [] \<Longrightarrow> length (concat bs) < 2 ^ 63 \<Longrightarrow> body_coded (hs1 @ h # hs2) (encode_chunked bs) (concat bs)"

lemma consume_coded:
  assumes "body_coded hs payload body" "request_parts_ok m v ma mi hs" "takes_body m"
  shows "\<exists>p. consume (render_request m v ma mi hs @ payload @ rest) HttpRequestParser = Result ParsingCompleted p \<and>
    req p = request_of m v ma mi hs body"
  using assms
proof cases
  case no_body
  then show ?thesis using consume_no_body [OF assms(2), where rest = rest] by simp
next
  case (fixed_body hs1 hs2 h)
  then show ?thesis using consume_fixed_body [of m v ma mi hs1 h hs2 body rest] assms(2,3) by simp
next
  case (chunked_body hs1 hs2 h bs)
  then show ?thesis using consume_chunked_body [of m v ma mi hs1 h hs2 bs rest] assms(2,3) by simp
qed

lemma line_step:
  assumes "past_line q" "resp_step c q = Continue q' \<or> resp_step c q = Return (RResult res q')"
  shows "s_statusCode (resp q') = s_statusCode (resp q) \<and> s_status (resp q') = s_status (resp q)"
  using assms
  by (cases "rstate q";
      auto simp: past_line_def resp_step_defs resp_ops end_of_response_header_def rreserve_def Let_def split: if_splits)

lemma line_run:
  assumes "past_line q" "run_scan resp_step xs q = Return (RResult res q')"
  shows "s_statusCode (resp q') = s_statusCode (resp q) \<and> s_status (resp q') = s_status (resp q)"
  using assms
proof (induction xs arbitrary: q)
  case (Cons x xs)
  then show ?case
    using line_step [OF Cons.prems(1), of x] past_line_step [OF Cons.prems(1), of x]
    by (cases "resp_step x q") auto
qed simp

definition response_of :: "nat \<Rightarrow> nat \<Rightarrow> nat \<Rightarrow> string \<Rightarrow> header_item list \<Rightarrow> string \<Rightarrow> response" where
  "response_of ma mi code reason hs body = \<lparr>s_versionMajor = int ma, s_versionMinor = int mi, s_headers = hs,
     s_content = body,
     s_keepAlive = (case List.find checkIfConnection hs of
         Some h \<Rightarrow> strcaseeq (hvalue h) ''Keep-Alive''
       | None \<Rightarrow> ma > 1 \<or> (ma = 1 \<and> mi = 1)),
     s_statusCode = word_of_nat code, s_status = reason\<rparr>"

lemma resp_consume_rendered:
  assumes "status_ok ma mi code reason" "list_all header_ok hs" "body_coded hs payload body"
  shows "\<exists>q. resp_consume (render_response ma mi code reason hs @ payload @ rest) HttpResponseParser =
    RResult ParsingCompleted q \<and> resp q = response_of ma mi code reason hs body"
proof -
  let ?q = "HttpResponseParser\<lparr>rstate := R_HeaderLineStart, resp := with_status ma mi code reason\<rparr>"
  let ?tail = "concat (map inspect_header hs) @ CRLF @ payload @ rest"
  have parts: "request_parts_ok ''POST'' ''/'' ma mi hs" "takes_body ''POST''"
    using assms(1,2) by (simp_all add: request_parts_ok_def status_ok_def takes_body_def uri_ok_def isToken_def
        isChar_code isControl_code isSpecial_def char_code_def)
  obtain p where p: "consume (render_request ''POST'' ''/'' ma mi hs @ payload @ rest) HttpRequestParser = Result ParsingCompleted p"
    "req p = request_of ''POST'' ''/'' ma mi hs body"
    using consume_coded [OF assms(3) parts, where rest = rest] by (elim exE conjE)
  have past: "past_line ?q" by (simp add: past_line_def)
  have line: "run_scan req_step (render_line ''POST'' ''/'' ma mi) HttpRequestParser = Continue (view ?q)"
    using run_line [of "''POST''" "''/''" ma mi] parts(1)
    by (simp add: request_parts_ok_def view_def as_post_def with_status_def with_line_def Response_def Request_def
        HttpResponseParser_def HttpRequestParser_def)
  have whole: "render_request ''POST'' ''/'' ma mi hs @ payload @ rest = render_line ''POST'' ''/'' ma mi @ ?tail"
    by (simp add: render_request_eq)
  have "run_scan req_step ?tail (view ?q) = Return (Result ParsingCompleted p)"
    using p(1) line run_scan_not_incomplete [of ?tail "view ?q"]
    unfolding whole by (simp add: consume_def run_scan_append [of _ "render_line ''POST'' ''/'' ma mi"] split: scan.splits)
  then obtain q where q: "run_scan resp_step ?tail ?q = Return (RResult ParsingCompleted q)" "p = view q"
    unfolding run_view [OF past] by (rule view_Completed)
  have "resp_consume (render_response ma mi code reason hs @ payload @ rest) HttpResponseParser = RResult ParsingCompleted q"
    using run_status [OF assms(1)] q(1)
    by (simp add: resp_consume_def render_response_def run_scan_append [of _ "render_status ma mi code reason"])
  moreover have "resp q = response_of ma mi code reason hs body"
    using line_run [OF past q(1)] p(2) q(2)
    by (simp add: view_def as_post_def request_of_def response_of_def with_status_def)
  ultimately show ?thesis by blast
qed

text \<open>A small response.\<close>

definition demo_response :: string where
  "demo_response = render_response 1 1 200 ''OK'' [] @ [] @ []"

lemma demo_response_parses: "\<exists>q. resp_consume demo_response HttpResponseParser = RResult ParsingCompleted q"
proof -
  have "status_ok 1 1 200 ''OK''"
    by (simp add: status_ok_def version_ok_def INT_MAX_def isChar_code char_code_def word_le_nat_alt)
  from resp_consume_rendered [OF this _ body_coded.no_body [of "[]"], of "[]"] show ?thesis
    unfolding demo_response_def by auto
qed

end
