(* ===== verification/Sockets.thy ===== *)
theory Sockets
  imports Prelude Chars
begin

text \<open>
  The socket classes (\<open>net/tcp_socket\<close>, \<open>net/active_socket\<close>, \<open>net/passive_socket\<close>). A socket
  object is its descriptor. The operating system is a parameter: a \<open>kernel\<close> answers each system
  call from the history of the calls so far, so that any behaviour of the network, the
  peers and the clock is one choice of the parameter. \<open>kernel_ok\<close> states what the manual pages
  promise of it. What the program writes to its log is not modelled.
\<close>

section \<open>System calls\<close>

record addrinfo =
  ai_family :: int
  ai_socktype :: int
  ai_protocol :: int
  ai_addr :: string

type_synonym poll_bits = "16 word"

record pollfd =
  pfd_fd :: fd
  pfd_events :: poll_bits
  pfd_revents :: poll_bits

definition POLLIN :: poll_bits where "POLLIN = 1"
definition POLLOUT :: poll_bits where "POLLOUT = 4"
definition POLLERR :: poll_bits where "POLLERR = 8"
definition POLLHUP :: poll_bits where "POLLHUP = 16"
definition POLLNVAL :: poll_bits where "POLLNVAL = 32"

lemmas poll_defs = POLLIN_def POLLOUT_def POLLERR_def POLLHUP_def POLLNVAL_def

definition INVALID_SOCKET_FD :: fd where "INVALID_SOCKET_FD = - 1"
definition AF_INET :: int where "AF_INET = 2"
definition SOCK_STREAM :: int where "SOCK_STREAM = 1"

text \<open>One system call with its result; \<open>None\<close> stands for -1 where a count is returned.\<close>

datatype event =
    Ev_socket fd
  | Ev_connect fd string bool
  | Ev_getaddrinfo "string option" string "addrinfo list option"
  | Ev_send fd string "nat option"
  | Ev_recv fd nat "string option"
  | Ev_shutdown fd bool
  | Ev_close fd
  | Ev_setsockopt fd bool
  | Ev_bind fd string bool
  | Ev_listen fd nat bool
  | Ev_accept fd fd
  | Ev_poll "pollfd list" int "poll_bits list"

type_synonym history = "event list"

record kernel =
  k_socket :: "history \<Rightarrow> int \<Rightarrow> int \<Rightarrow> int \<Rightarrow> fd"
  k_connect :: "history \<Rightarrow> fd \<Rightarrow> string \<Rightarrow> bool"
  k_getaddrinfo :: "history \<Rightarrow> string option \<Rightarrow> string \<Rightarrow> addrinfo list option"
  k_send :: "history \<Rightarrow> fd \<Rightarrow> string \<Rightarrow> nat option"
  k_recv :: "history \<Rightarrow> fd \<Rightarrow> nat \<Rightarrow> string option"
  k_shutdown :: "history \<Rightarrow> fd \<Rightarrow> bool"
  k_setsockopt :: "history \<Rightarrow> fd \<Rightarrow> bool"
  k_bind :: "history \<Rightarrow> fd \<Rightarrow> string \<Rightarrow> bool"
  k_listen :: "history \<Rightarrow> fd \<Rightarrow> nat \<Rightarrow> bool"
  k_accept :: "history \<Rightarrow> fd \<Rightarrow> fd"
  k_poll :: "history \<Rightarrow> pollfd list \<Rightarrow> int \<times> poll_bits list"
  k_strerror :: "history \<Rightarrow> string"
  k_stack :: "history \<Rightarrow> string"
  k_freed :: "string \<Rightarrow> string option"
  k_stopped :: "history \<Rightarrow> bool"

text \<open>
  \<open>recv\<close> fills at most the buffer, \<open>send\<close> takes at most what it is given, a descriptor is
  -1 or not negative, \<open>getaddrinfo\<close> gives at least one address when it succeeds, \<open>poll\<close>
  reports on the descriptors it is given, only the events asked for and the three error
  events, and returns their number. \<open>k_stack\<close> is the memory an uninitialised array of 16 kB
  starts with, \<open>k_freed\<close> what a freed string still reads as, if anything, \<open>k_stopped\<close> whether \<open>SIGTERM\<close> or \<open>SIGINT\<close> has arrived.
\<close>

definition poll_ok :: "kernel \<Rightarrow> bool" where
  "poll_ok K \<longleftrightarrow> (\<forall>tr pfds. length (snd (k_poll K tr pfds)) = length pfds \<and>
     (fst (k_poll K tr pfds) \<ge> 0 \<longrightarrow>
        fst (k_poll K tr pfds) = int (length (filter (\<lambda>r. r \<noteq> 0) (snd (k_poll K tr pfds))))))"

definition kernel_ok :: "kernel \<Rightarrow> bool" where
  "kernel_ok K \<longleftrightarrow>
     (\<forall>tr fd n bs. k_recv K tr fd n = Some bs \<longrightarrow> length bs \<le> n) \<and>
     (\<forall>tr fd bs n. k_send K tr fd bs = Some n \<longrightarrow> n \<le> length bs) \<and>
     (\<forall>tr d t p. k_socket K tr d t p = INVALID_SOCKET_FD \<or> 0 \<le> k_socket K tr d t p) \<and>
     (\<forall>tr fd. k_accept K tr fd = INVALID_SOCKET_FD \<or> 0 \<le> k_accept K tr fd) \<and>
     (\<forall>tr host service. k_getaddrinfo K tr host service \<noteq> Some []) \<and> poll_ok K"

text \<open>The state of the network is the history; everything above adds its own state to it.\<close>

record net =
  trace :: history

definition log_event :: "event \<Rightarrow> (unit, 'r net_scheme) act" where
  "log_event e = modify (\<lambda>s. s\<lparr>trace := trace s @ [e]\<rparr>)"

text \<open>Running a clean-up on the way out of an exception, as destructors do.\<close>

definition onException :: "('a, 's) act \<Rightarrow> (unit, 's) act \<Rightarrow> ('a, 's) act" where
  "onException m cleanup = tryCatch (\<lambda>_. True) m (\<lambda>e. andThen cleanup (\<lambda>_. raise e))"

section \<open>\<open>TcpSocket\<close>\<close>

definition socket_isValid :: "fd \<Rightarrow> bool" where
  "socket_isValid fd \<longleftrightarrow> fd \<noteq> INVALID_SOCKET_FD"

definition socket_eq :: "fd \<Rightarrow> fd \<Rightarrow> bool" where
  "socket_eq a b \<longleftrightarrow> a = b"

text \<open>The constructor from domain, type and protocol, and the destructor.\<close>

definition tcp_socket :: "kernel \<Rightarrow> int \<Rightarrow> int \<Rightarrow> int \<Rightarrow> (fd, 'r net_scheme) act" where
  "tcp_socket K domain type protocol =
     andThen (get (\<lambda>s. k_socket K (trace s) domain type protocol)) (\<lambda>fd.
     andThen (log_event (Ev_socket fd)) (\<lambda>_.
     if fd = INVALID_SOCKET_FD then raise (SpxException ''Failed to create tcp socket'') else ret fd))"

definition socket_destroy :: "fd \<Rightarrow> (unit, 'r net_scheme) act" where
  "socket_destroy fd = (if socket_isValid fd then log_event (Ev_close fd) else ret ())"

text \<open>
  \<open>close()\<close> returns the new value of \<open>fd_\<close>. Moving is \<open>swap\<close>: a moved-from new object holds
  the invalid descriptor, and an assigned-from one the descriptor of the other.
\<close>

definition socket_close :: "fd \<Rightarrow> (fd, 'r net_scheme) act" where
  "socket_close fd = andThen (log_event (Ev_close fd)) (\<lambda>_. ret INVALID_SOCKET_FD)"

definition socket_swap :: "fd \<times> fd \<Rightarrow> fd \<times> fd" where
  "socket_swap ab = (case ab of (this, other) \<Rightarrow> (other, this))"

definition socket_move :: "fd \<Rightarrow> fd \<times> fd" where
  "socket_move other = socket_swap (INVALID_SOCKET_FD, other)"

definition socket_move_assign :: "fd \<Rightarrow> fd \<Rightarrow> fd \<times> fd" where
  "socket_move_assign this other = socket_swap (this, other)"

lemma socket_destroy_closes:
  "socket_destroy fd = (if socket_isValid fd then andThen (socket_close fd) (\<lambda>_. ret ()) else ret ())"
  by (auto simp: socket_destroy_def socket_close_def andThen_def ret_def log_event_def modify_def)

text \<open>However a socket is moved, destroying both objects closes its descriptor once.\<close>

lemma moved_socket_closed_once:
  assumes "socket_isValid fd" "socket_move fd = (a, b)"
  shows "andThen (socket_destroy a) (\<lambda>_. socket_destroy b) s = Done () (s\<lparr>trace := trace s @ [Ev_close fd]\<rparr>)"
  using assms
  by (auto simp: socket_move_def socket_swap_def socket_destroy_def socket_isValid_def andThen_def ret_def log_event_def
      modify_def)

section \<open>\<open>ActiveSocket\<close>\<close>

definition active_create :: "kernel \<Rightarrow> addrinfo \<Rightarrow> (fd, 'r net_scheme) act" where
  "active_create K info = tcp_socket K (ai_family info) (ai_socktype info) (ai_protocol info)"

definition send_bytes :: "kernel \<Rightarrow> fd \<Rightarrow> string \<Rightarrow> (nat, 'r net_scheme) act" where
  "send_bytes K fd data =
     andThen (get (\<lambda>s. k_send K (trace s) fd data)) (\<lambda>res.
     andThen (log_event (Ev_send fd data res)) (\<lambda>_. case res of
       None \<Rightarrow> andThen (get (\<lambda>s. k_strerror K (trace s))) (\<lambda>msg.
         raise (SpxException (''Error on send(): '' @ msg)))
     | Some n \<Rightarrow> ret n))"

text \<open>A \<open>std::string\<close> is sent up to its first null byte.\<close>

definition send_string :: "kernel \<Rightarrow> fd \<Rightarrow> string \<Rightarrow> (nat, 'r net_scheme) act" where
  "send_string K fd data = send_bytes K fd (c_str data)"

definition receive :: "kernel \<Rightarrow> fd \<Rightarrow> nat \<Rightarrow> (string, 'r net_scheme) act" where
  "receive K fd buffer_len =
     andThen (get (\<lambda>s. k_recv K (trace s) fd buffer_len)) (\<lambda>res.
     andThen (log_event (Ev_recv fd buffer_len res)) (\<lambda>_. case res of
       None \<Rightarrow> andThen (get (\<lambda>s. k_strerror K (trace s))) (\<lambda>msg.
         raise (SpxException (''Error on recv(): '' @ msg)))
     | Some bs \<Rightarrow> if bs = [] then raise ZeroLengthMessageException else ret bs))"

definition shutdownWrite :: "kernel \<Rightarrow> fd \<Rightarrow> (unit, 'r net_scheme) act" where
  "shutdownWrite K fd =
     andThen (get (\<lambda>s. k_shutdown K (trace s) fd)) (\<lambda>ok.
     andThen (log_event (Ev_shutdown fd ok)) (\<lambda>_.
     if ok then ret () else andThen (get (\<lambda>s. k_strerror K (trace s))) (\<lambda>msg.
       raise (SpxException (''Error on shutdown(write): '' @ msg)))))"

definition socket_connect :: "kernel \<Rightarrow> fd \<Rightarrow> string \<Rightarrow> (unit, 'r net_scheme) act" where
  "socket_connect K fd addr =
     andThen (get (\<lambda>s. k_connect K (trace s) fd addr)) (\<lambda>ok.
     andThen (log_event (Ev_connect fd addr ok)) (\<lambda>_.
     if ok then ret () else raise (SpxException ''Error on connect()'')))"

definition getaddrinfo :: "kernel \<Rightarrow> string option \<Rightarrow> string \<Rightarrow> (addrinfo list option, 'r net_scheme) act" where
  "getaddrinfo K host service =
     andThen (get (\<lambda>s. k_getaddrinfo K (trace s) host service)) (\<lambda>res.
     andThen (log_event (Ev_getaddrinfo host service res)) (\<lambda>_. ret res))"

section \<open>\<open>PassiveSocket\<close>\<close>

record passive_socket =
  listen_fd :: fd
  listen_port :: uint16

definition set_reuse :: "kernel \<Rightarrow> fd \<Rightarrow> string \<Rightarrow> (unit, 'r net_scheme) act" where
  "set_reuse K fd msg =
     andThen (get (\<lambda>s. k_setsockopt K (trace s) fd)) (\<lambda>ok.
     andThen (log_event (Ev_setsockopt fd ok)) (\<lambda>_.
     if ok then ret () else raise (SpxException msg)))"

text \<open>The constructor: when its body throws, the base class destructor closes the descriptor.\<close>

definition passive_create :: "kernel \<Rightarrow> uint16 \<Rightarrow> (passive_socket, 'r net_scheme) act" where
  "passive_create K port =
     andThen (tcp_socket K AF_INET SOCK_STREAM 0) (\<lambda>fd.
     onException (
       andThen (set_reuse K fd ''setsockopt(SO_REUSEADDR) failed'') (\<lambda>_.
       andThen (set_reuse K fd ''setsockopt(SO_REUSEPORT) failed'') (\<lambda>_.
       andThen (getaddrinfo K None (show_nat (unat port))) (\<lambda>res. case res of
         None \<Rightarrow> raise (SpxException ''Failed to get addrinfo for server socket'')
       | Some [] \<Rightarrow> undefined_behaviour
       | Some (info # _) \<Rightarrow>
           andThen (get (\<lambda>s. k_bind K (trace s) fd (ai_addr info))) (\<lambda>ok.
           andThen (log_event (Ev_bind fd (ai_addr info) ok)) (\<lambda>_.
           if ok then ret \<lparr>listen_fd = fd, listen_port = port\<rparr>
           else raise (SpxException ''Failed to bind server socket'')))))))
       (socket_destroy fd))"

definition socket_listen :: "kernel \<Rightarrow> passive_socket \<Rightarrow> nat \<Rightarrow> (unit, 'r net_scheme) act" where
  "socket_listen K ps backlog =
     andThen (get (\<lambda>s. k_listen K (trace s) (listen_fd ps) backlog)) (\<lambda>ok.
     andThen (log_event (Ev_listen (listen_fd ps) backlog ok)) (\<lambda>_.
     if ok then ret () else raise (SpxException ''error on listen'')))"

definition socket_accept :: "kernel \<Rightarrow> passive_socket \<Rightarrow> (fd, 'r net_scheme) act" where
  "socket_accept K ps =
     andThen (get (\<lambda>s. k_accept K (trace s) (listen_fd ps))) (\<lambda>conn_fd.
     andThen (log_event (Ev_accept (listen_fd ps) conn_fd)) (\<lambda>_.
     if conn_fd = INVALID_SOCKET_FD then raise (SpxException ''error on accepting connection'')
     else ret conn_fd))"

end
