(* ===== verification/Url_Parser.thy ===== *)
theory Url_Parser
  imports Scanner Chars
begin

text \<open>
  \<open>httpparser::UrlParser\<close> (\<open>http/httpparser/urlparser.hpp\<close>): the state machine of \<open>parse_\<close>,
  with the failed assertion and the \<open>abort()\<close> it can end in, and the accessors, which assert that
  the URL is valid. Assertions are compiled in: the Makefile does not define \<open>NDEBUG\<close>.
\<close>

section \<open>State\<close>

datatype url_state =
    Scheme
  | SlashAfterScheme1
  | SlashAfterScheme2
  | UsernameOrHostname
  | Password
  | Hostname
  | IPV6Hostname
  | PortOrPassword
  | Port
  | Path
  | Query
  | Fragment

record url =
  url_scheme :: string
  url_username :: string
  url_password :: string
  url_hostname :: string
  url_port :: string
  url_path :: string
  url_query :: string
  url_fragment :: string
  integerPort :: uint16

definition Url :: url where
  "Url = \<lparr>url_scheme = [], url_username = [], url_password = [], url_hostname = [], url_port = [],
     url_path = [], url_query = [], url_fragment = [], integerPort = 0\<rparr>"

record url_parser =
  valid :: bool
  the_url :: url

definition UrlParser :: url_parser where
  "UrlParser = \<lparr>valid = False, the_url = Url\<rparr>"

text \<open>The local variables of \<open>parse_\<close>, with the object's \<open>url\<close>.\<close>

record url_locals =
  ustate :: url_state
  usernameOrHostname :: string
  portOrPassword :: string
  u :: url

definition isUnreserved :: "char \<Rightarrow> bool" where
  "isUnreserved ch \<longleftrightarrow> isalnum ch \<or> ch \<in> set [CHR ''-'', CHR ''.'', CHR ''_'', CHR ''~'']"

section \<open>The loop of \<open>parse_\<close>\<close>

text \<open>
  The loop leaves early when a byte makes the URL invalid (\<open>valid\<close> becomes false and \<open>url\<close> is
  reset, the local variables stay) or when it calls \<open>abort()\<close>.
\<close>

datatype url_exit = Invalid url_locals | Aborted

definition invalid :: "url_locals \<Rightarrow> (url_exit, url_locals) scan" where
  "invalid s = Return (Invalid (s\<lparr>u := Url\<rparr>))"

fun url_step :: "char \<Rightarrow> url_locals \<Rightarrow> (url_exit, url_locals) scan" where
  "url_step ch s = (case ustate s of
     Scheme \<Rightarrow>
       if isalnum ch \<or> ch = CHR ''+'' \<or> ch = CHR ''-'' \<or> ch = CHR ''.'' then
         Continue (s\<lparr>u := (u s)\<lparr>url_scheme := url_scheme (u s) @ [ch]\<rparr>\<rparr>)
       else if ch = CHR '':'' then Continue (s\<lparr>ustate := SlashAfterScheme1\<rparr>)
       else invalid s
   | SlashAfterScheme1 \<Rightarrow>
       if ch = CHR ''/'' then Continue (s\<lparr>ustate := SlashAfterScheme2\<rparr>)
       else if isalnum ch then
         Continue (s\<lparr>usernameOrHostname := [ch], ustate := UsernameOrHostname\<rparr>)
       else invalid s
   | SlashAfterScheme2 \<Rightarrow>
       if ch = CHR ''/'' then Continue (s\<lparr>ustate := UsernameOrHostname\<rparr>)
       else invalid s
   | UsernameOrHostname \<Rightarrow>
       if isUnreserved ch \<or> ch = CHR ''%'' then
         Continue (s\<lparr>usernameOrHostname := usernameOrHostname s @ [ch]\<rparr>)
       else if ch = CHR '':'' then Continue (s\<lparr>ustate := PortOrPassword\<rparr>)
       else if ch = CHR ''@'' then
         Continue (s\<lparr>ustate := Hostname, usernameOrHostname := url_username (u s),
                     u := (u s)\<lparr>url_username := usernameOrHostname s\<rparr>\<rparr>)
       else if ch = CHR ''/'' then
         Continue (s\<lparr>ustate := Path, usernameOrHostname := url_hostname (u s),
                     u := (u s)\<lparr>url_hostname := usernameOrHostname s\<rparr>\<rparr>)
       else invalid s
   | Password \<Rightarrow>
       if isalnum ch \<or> ch = CHR ''%'' then
         Continue (s\<lparr>u := (u s)\<lparr>url_password := url_password (u s) @ [ch]\<rparr>\<rparr>)
       else if ch = CHR ''@'' then Continue (s\<lparr>ustate := Hostname\<rparr>)
       else invalid s
   | Hostname \<Rightarrow>
       if ch = CHR ''['' \<and> url_hostname (u s) = [] then Continue (s\<lparr>ustate := IPV6Hostname\<rparr>)
       else if isUnreserved ch \<or> ch = CHR ''%'' then
         Continue (s\<lparr>u := (u s)\<lparr>url_hostname := url_hostname (u s) @ [ch]\<rparr>\<rparr>)
       else if ch = CHR '':'' then Continue (s\<lparr>ustate := Port\<rparr>)
       else if ch = CHR ''/'' then Continue (s\<lparr>ustate := Path\<rparr>)
       else invalid s
   | IPV6Hostname \<Rightarrow> Return Aborted
   | PortOrPassword \<Rightarrow>
       if isdigit ch then Continue (s\<lparr>portOrPassword := portOrPassword s @ [ch]\<rparr>)
       else if ch = CHR ''/'' then
         Continue (s\<lparr>usernameOrHostname := url_hostname (u s), portOrPassword := url_port (u s),
                     u := (u s)\<lparr>url_hostname := usernameOrHostname s, url_port := portOrPassword s,
                                integerPort := word_of_int (atoi (portOrPassword s))\<rparr>,
                     ustate := Path\<rparr>)
       else if isalnum ch \<or> ch = CHR ''%'' then
         Continue (s\<lparr>usernameOrHostname := url_username (u s), portOrPassword := url_password (u s),
                     u := (u s)\<lparr>url_username := usernameOrHostname s,
                                url_password := portOrPassword s @ [ch]\<rparr>,
                     ustate := Password\<rparr>)
       else invalid s
   | Port \<Rightarrow>
       if isdigit ch then Continue (s\<lparr>portOrPassword := portOrPassword s @ [ch]\<rparr>)
       else if ch = CHR ''/'' then
         Continue (s\<lparr>portOrPassword := url_port (u s),
                     u := (u s)\<lparr>url_port := portOrPassword s,
                                integerPort := word_of_int (atoi (portOrPassword s))\<rparr>,
                     ustate := Path\<rparr>)
       else invalid s
   | Path \<Rightarrow>
       if ch = CHR ''#'' then Continue (s\<lparr>ustate := Fragment\<rparr>)
       else if ch = CHR ''?'' then Continue (s\<lparr>ustate := Query\<rparr>)
       else Continue (s\<lparr>u := (u s)\<lparr>url_path := url_path (u s) @ [ch]\<rparr>\<rparr>)
   | Query \<Rightarrow>
       if ch = CHR ''#'' then Continue (s\<lparr>ustate := Fragment\<rparr>)
       else if ch = CHR ''?'' then Continue (s\<lparr>ustate := Query\<rparr>)
       else Continue (s\<lparr>u := (u s)\<lparr>url_query := url_query (u s) @ [ch]\<rparr>\<rparr>)
   | Fragment \<Rightarrow> Continue (s\<lparr>u := (u s)\<lparr>url_fragment := url_fragment (u s) @ [ch]\<rparr>\<rparr>))"

declare url_step.simps [simp del]

section \<open>The parser object\<close>

definition url_start :: url_locals where
  "url_start = \<lparr>ustate = Scheme, usernameOrHostname = [], portOrPassword = [],
     u = Url\<lparr>url_path := ''/'', integerPort := 0\<rparr>\<rparr>"

text \<open>After the loop: \<open>assert(portOrPassword.empty())\<close>, then a pending host name is stored.\<close>

definition url_finish :: "bool \<Rightarrow> url_locals \<Rightarrow> (bool, url_parser) act" where
  "url_finish ok s = andThen (assertThat (portOrPassword s = [])) (\<lambda>_.
     andThen (modify (\<lambda>p. p\<lparr>valid := ok,
       the_url := (if usernameOrHostname s = [] then u s
                   else (u s)\<lparr>url_hostname := usernameOrHostname s\<rparr>)\<rparr>)) (\<lambda>_.
     get valid))"

definition url_parse :: "string \<Rightarrow> (bool, url_parser) act" where
  "url_parse str = (case run_scan url_step str url_start of
       Continue s \<Rightarrow> url_finish True s
     | Return (Invalid s) \<Rightarrow> url_finish False s
     | Return Aborted \<Rightarrow> call_abort)"

definition isValid :: "url_parser \<Rightarrow> bool" where
  "isValid p = valid p"

definition scheme :: "url_parser \<Rightarrow> (string, 's) act" where
  "scheme p = andThen (assertThat (isValid p)) (\<lambda>_. ret (url_scheme (the_url p)))"

definition username :: "url_parser \<Rightarrow> (string, 's) act" where
  "username p = andThen (assertThat (isValid p)) (\<lambda>_. ret (url_username (the_url p)))"

definition password :: "url_parser \<Rightarrow> (string, 's) act" where
  "password p = andThen (assertThat (isValid p)) (\<lambda>_. ret (url_password (the_url p)))"

definition hostname :: "url_parser \<Rightarrow> (string, 's) act" where
  "hostname p = andThen (assertThat (isValid p)) (\<lambda>_. ret (url_hostname (the_url p)))"

definition port :: "url_parser \<Rightarrow> (string, 's) act" where
  "port p = andThen (assertThat (isValid p)) (\<lambda>_. ret (url_port (the_url p)))"

definition path :: "url_parser \<Rightarrow> (string, 's) act" where
  "path p = andThen (assertThat (isValid p)) (\<lambda>_. ret (url_path (the_url p)))"

definition query :: "url_parser \<Rightarrow> (string, 's) act" where
  "query p = andThen (assertThat (isValid p)) (\<lambda>_. ret (url_query (the_url p)))"

definition fragment :: "url_parser \<Rightarrow> (string, 's) act" where
  "fragment p = andThen (assertThat (isValid p)) (\<lambda>_. ret (url_fragment (the_url p)))"

definition httpPort :: "url_parser \<Rightarrow> (uint16, 's) act" where
  "httpPort p = andThen (assertThat (isValid p)) (\<lambda>_.
     if url_port (the_url p) = []
     then andThen (scheme p) (\<lambda>s. ret (if s = ''https'' then 443 else 80))
     else ret (integerPort (the_url p)))"

end
