(* ===== verification/Url_Correct.thy ===== *)
theory Url_Correct
  imports Url_Parser
begin

text \<open>
  What \<open>UrlParser\<close> computes: on a URL written out from its parts the parts come back, every URL
  it calls valid has well-formed parts (the invariant of the loop, an instance of the scanner
  contract), and the inputs on which it aborts the process.
\<close>

section \<open>Character classes of the parts\<close>

definition scheme_char :: "char \<Rightarrow> bool" where
  "scheme_char ch \<longleftrightarrow> isalnum ch \<or> ch = CHR ''+'' \<or> ch = CHR ''-'' \<or> ch = CHR ''.''"

definition host_char :: "char \<Rightarrow> bool" where
  "host_char ch \<longleftrightarrow> isUnreserved ch \<or> ch = CHR ''%''"

definition path_char :: "char \<Rightarrow> bool" where
  "path_char ch \<longleftrightarrow> ch \<noteq> CHR ''?'' \<and> ch \<noteq> CHR ''#''"

lemma delimiters [simp]:
  "\<not> scheme_char CHR '':''" "\<not> scheme_char CHR ''/''"
  "\<not> host_char CHR '':''" "\<not> host_char CHR ''/''" "\<not> host_char CHR ''@''" "\<not> host_char CHR ''[''"
  "\<not> isUnreserved CHR '':''" "\<not> isUnreserved CHR ''/''" "\<not> isUnreserved CHR ''@''"
  "\<not> isdigit CHR '':''" "\<not> isdigit CHR ''/''" "\<not> isdigit CHR ''@''"
  "\<not> isalnum CHR '':''" "\<not> isalnum CHR ''/''" "\<not> isalnum CHR ''@''"
  by (simp_all add: scheme_char_def host_char_def isUnreserved_def ctype_defs)

lemma digit_host_char: "isdigit c \<Longrightarrow> host_char c"
  by (simp add: host_char_def isUnreserved_def isalnum_def)

section \<open>Runs of the loop inside one part\<close>

lemma step_scheme: "scheme_char c \<Longrightarrow> ustate s = Scheme \<Longrightarrow>
    url_step c s = Continue (s\<lparr>u := (u s)\<lparr>url_scheme := url_scheme (u s) @ [c]\<rparr>\<rparr>)"
  by (simp add: url_step.simps scheme_char_def)

lemma run_scheme:
  assumes "\<forall>c \<in> set xs. scheme_char c" and "ustate s = Scheme"
  shows "run_scan url_step xs s = Continue (s\<lparr>u := (u s)\<lparr>url_scheme := url_scheme (u s) @ xs\<rparr>\<rparr>)"
  using run_scan_span [where f = "\<lambda>acc. s\<lparr>u := (u s)\<lparr>url_scheme := url_scheme (u s) @ acc\<rparr>\<rparr>"
      and step = url_step and P = scheme_char and acc = "[]"] assms
  by (simp add: step_scheme)

lemma run_host:
  assumes "\<forall>c \<in> set xs. host_char c" and "ustate s = UsernameOrHostname"
  shows "run_scan url_step xs s = Continue (s\<lparr>usernameOrHostname := usernameOrHostname s @ xs\<rparr>)"
  using run_scan_span [where f = "\<lambda>acc. s\<lparr>usernameOrHostname := usernameOrHostname s @ acc\<rparr>"
      and step = url_step and P = host_char and acc = "[]"] assms
  by (simp add: url_step.simps host_char_def)

lemma run_port:
  assumes "\<forall>c \<in> set xs. isdigit c" and "ustate s = PortOrPassword \<or> ustate s = Port"
  shows "run_scan url_step xs s = Continue (s\<lparr>portOrPassword := portOrPassword s @ xs\<rparr>)"
  using run_scan_span [where f = "\<lambda>acc. s\<lparr>portOrPassword := portOrPassword s @ acc\<rparr>"
      and step = url_step and P = isdigit and acc = "[]"] assms
  by (auto simp: url_step.simps)

lemma run_path:
  assumes "\<forall>c \<in> set xs. path_char c" and "ustate s = Path"
  shows "run_scan url_step xs s = Continue (s\<lparr>u := (u s)\<lparr>url_path := url_path (u s) @ xs\<rparr>\<rparr>)"
  using run_scan_span [where f = "\<lambda>acc. s\<lparr>u := (u s)\<lparr>url_path := url_path (u s) @ acc\<rparr>\<rparr>"
      and step = url_step and P = path_char and acc = "[]"] assms
  by (simp add: url_step.simps path_char_def)

lemma run_fragment:
  assumes "ustate s = Fragment"
  shows "run_scan url_step xs s = Continue (s\<lparr>u := (u s)\<lparr>url_fragment := url_fragment (u s) @ xs\<rparr>\<rparr>)"
  using run_scan_span [where f = "\<lambda>acc. s\<lparr>u := (u s)\<lparr>url_fragment := url_fragment (u s) @ acc\<rparr>\<rparr>"
      and step = url_step and P = "\<lambda>_. True" and acc = "[]"] assms
  by (simp add: url_step.simps)

text \<open>In a query a further question mark is dropped.\<close>

lemma run_query:
  assumes "CHR ''#'' \<notin> set xs" and "ustate s = Query"
  shows "run_scan url_step xs s =
    Continue (s\<lparr>u := (u s)\<lparr>url_query := url_query (u s) @ filter (\<lambda>c. c \<noteq> CHR ''?'') xs\<rparr>\<rparr>)"
  using assms
proof (induction xs arbitrary: s)
  case (Cons c xs)
  then have "c \<noteq> CHR ''#''" by auto
  with Cons show ?case by (simp add: url_step.simps [of c s])
qed simp

section \<open>Writing a URL out\<close>

text \<open>\<open>scheme://host[:port]/path[?query][#fragment]\<close>.\<close>

definition render_port :: "string option \<Rightarrow> string" where
  "render_port po = (case po of None \<Rightarrow> [] | Some p \<Rightarrow> CHR '':'' # p)"

definition render_tail :: "string option \<Rightarrow> string option \<Rightarrow> string" where
  "render_tail qu fr = (case qu of None \<Rightarrow> [] | Some q \<Rightarrow> CHR ''?'' # q) @
     (case fr of None \<Rightarrow> [] | Some f \<Rightarrow> CHR ''#'' # f)"

definition render_url :: "string \<Rightarrow> string \<Rightarrow> string option \<Rightarrow> string \<Rightarrow> string option \<Rightarrow> string option \<Rightarrow> string" where
  "render_url sch host po pa qu fr =
     sch @ ''://'' @ host @ render_port po @ ''/'' @ pa @ render_tail qu fr"

lemma run_authority:
  assumes "\<forall>c \<in> set sch. scheme_char c" "\<forall>c \<in> set host. host_char c"
  shows "run_scan url_step (sch @ ''://'' @ host) url_start =
    Continue (url_start\<lparr>ustate := UsernameOrHostname, usernameOrHostname := host,
      u := (u url_start)\<lparr>url_scheme := sch\<rparr>\<rparr>)"
  using assms
  by (simp add: run_scan_append run_scheme run_host url_start_def Url_def)
    (simp add: url_step.simps run_host)

lemma run_to_path:
  assumes "\<forall>c \<in> set sch. scheme_char c" "\<forall>c \<in> set host. host_char c"
    "\<forall>p. po = Some p \<longrightarrow> (\<forall>c \<in> set p. isdigit c)"
  shows "run_scan url_step (sch @ ''://'' @ host @ render_port po @ ''/'') url_start =
    Continue (url_start\<lparr>ustate := Path,
      u := (u url_start)\<lparr>url_scheme := sch, url_hostname := host,
        url_port := (case po of None \<Rightarrow> [] | Some p \<Rightarrow> p),
        integerPort := (case po of None \<Rightarrow> 0 | Some p \<Rightarrow> word_of_int (atoi p))\<rparr>\<rparr>)"
proof -
  let ?s = "url_start\<lparr>ustate := UsernameOrHostname, usernameOrHostname := host,
      u := (u url_start)\<lparr>url_scheme := sch\<rparr>\<rparr>"
  have "run_scan url_step (render_port po @ ''/'') ?s = Continue (url_start\<lparr>ustate := Path,
      u := (u url_start)\<lparr>url_scheme := sch, url_hostname := host,
        url_port := (case po of None \<Rightarrow> [] | Some p \<Rightarrow> p),
        integerPort := (case po of None \<Rightarrow> 0 | Some p \<Rightarrow> word_of_int (atoi p))\<rparr>\<rparr>)"
  proof (cases po)
    case None
    then show ?thesis
      by (simp add: render_port_def url_step.simps [of "CHR ''/''"] url_start_def Url_def)
  next
    case (Some p)
    then have "\<forall>c \<in> set p. isdigit c" using assms(3) by simp
    with Some show ?thesis
      by (simp add: render_port_def run_scan_append run_port url_step.simps [of "CHR '':''"]
          url_step.simps [of "CHR ''/''"] url_start_def Url_def)
  qed
  with run_authority [OF assms(1,2)]
  have "run_scan url_step ((sch @ ''://'' @ host) @ render_port po @ ''/'') url_start =
      Continue (url_start\<lparr>ustate := Path,
      u := (u url_start)\<lparr>url_scheme := sch, url_hostname := host,
        url_port := (case po of None \<Rightarrow> [] | Some p \<Rightarrow> p),
        integerPort := (case po of None \<Rightarrow> 0 | Some p \<Rightarrow> word_of_int (atoi p))\<rparr>\<rparr>)"
    by (simp only: run_scan_append [of url_step "sch @ ''://'' @ host"] scan.case)
  then show ?thesis by (simp only: append_assoc)
qed

text \<open>The part after the path.\<close>

lemma run_tail:
  assumes "ustate s = Path" "\<forall>q. qu = Some q \<longrightarrow> CHR ''#'' \<notin> set q"
  shows "\<exists>st. run_scan url_step (render_tail qu fr) s = Continue (s\<lparr>ustate := st,
    u := (u s)\<lparr>url_query := url_query (u s) @ (case qu of None \<Rightarrow> [] | Some q \<Rightarrow> filter (\<lambda>c. c \<noteq> CHR ''?'') q),
               url_fragment := url_fragment (u s) @ (case fr of None \<Rightarrow> [] | Some f \<Rightarrow> f)\<rparr>\<rparr>)"
proof (cases qu)
  case None
  with assms(1) show ?thesis
    by (cases fr) (auto simp: render_tail_def url_step.simps [of "CHR ''#''"] run_fragment
        intro: exI [of _ Path] exI [of _ Fragment])
next
  case (Some q)
  with assms have "CHR ''#'' \<notin> set q" by simp
  with Some assms(1) show ?thesis
    by (cases fr) (auto simp: render_tail_def url_step.simps [of "CHR ''#''"]
        url_step.simps [of "CHR ''?''"] run_fragment run_query run_scan_append
        intro: exI [of _ Query] exI [of _ Fragment])
qed

text \<open>The URL that the parts denote.\<close>

definition url_of :: "string \<Rightarrow> string \<Rightarrow> string option \<Rightarrow> string \<Rightarrow> string option \<Rightarrow> string option \<Rightarrow> url" where
  "url_of sch host po pa qu fr = \<lparr>url_scheme = sch, url_username = [], url_password = [],
     url_hostname = host, url_port = (case po of None \<Rightarrow> [] | Some p \<Rightarrow> p), url_path = CHR ''/'' # pa,
     url_query = (case qu of None \<Rightarrow> [] | Some q \<Rightarrow> filter (\<lambda>c. c \<noteq> CHR ''?'') q),
     url_fragment = (case fr of None \<Rightarrow> [] | Some f \<Rightarrow> f),
     integerPort = (case po of None \<Rightarrow> 0 | Some p \<Rightarrow> word_of_int (atoi p))\<rparr>"

definition url_parts_ok :: "string \<Rightarrow> string \<Rightarrow> string option \<Rightarrow> string \<Rightarrow> string option \<Rightarrow> bool" where
  "url_parts_ok sch host po pa qu \<longleftrightarrow> (\<forall>c \<in> set sch. scheme_char c) \<and> (\<forall>c \<in> set host. host_char c) \<and>
     (case po of None \<Rightarrow> True | Some p \<Rightarrow> \<forall>c \<in> set p. isdigit c) \<and> (\<forall>c \<in> set pa. path_char c) \<and>
     (case qu of None \<Rightarrow> True | Some q \<Rightarrow> CHR ''#'' \<notin> set q)"

lemma url_parse_render:
  assumes "url_parts_ok sch host po pa qu"
  shows "url_parse (render_url sch host po pa qu fr) p =
    Done True (p\<lparr>valid := True, the_url := url_of sch host po pa qu fr\<rparr>)"
proof -
  have ok: "\<forall>c \<in> set sch. scheme_char c" "\<forall>c \<in> set host. host_char c"
    "\<forall>p. po = Some p \<longrightarrow> (\<forall>c \<in> set p. isdigit c)" "\<forall>c \<in> set pa. path_char c"
    "\<forall>q. qu = Some q \<longrightarrow> CHR ''#'' \<notin> set q"
    using assms by (auto simp: url_parts_ok_def split: option.splits)
  let ?s = "url_start\<lparr>ustate := Path,
      u := (u url_start)\<lparr>url_scheme := sch, url_hostname := host,
        url_port := (case po of None \<Rightarrow> [] | Some p \<Rightarrow> p),
        integerPort := (case po of None \<Rightarrow> 0 | Some p \<Rightarrow> word_of_int (atoi p))\<rparr>\<rparr>"
  let ?s1 = "?s\<lparr>u := (u ?s)\<lparr>url_path := url_path (u ?s) @ pa\<rparr>\<rparr>"
  obtain st where tail: "run_scan url_step (render_tail qu fr) ?s1 = Continue (?s1\<lparr>ustate := st,
    u := (u ?s1)\<lparr>url_query := url_query (u ?s1) @ (case qu of None \<Rightarrow> [] | Some q \<Rightarrow> filter (\<lambda>c. c \<noteq> CHR ''?'') q),
               url_fragment := url_fragment (u ?s1) @ (case fr of None \<Rightarrow> [] | Some f \<Rightarrow> f)\<rparr>\<rparr>)"
    using run_tail [of ?s1 qu fr] ok(5) by auto
  have pa: "run_scan url_step pa ?s = Continue ?s1"
    using ok(4) by (rule run_path) simp
  have "run_scan url_step ((sch @ ''://'' @ host @ render_port po @ ''/'') @ pa @ render_tail qu fr) url_start =
      run_scan url_step (render_tail qu fr) ?s1"
    by (simp only: run_scan_append [of url_step "sch @ ''://'' @ host @ render_port po @ ''/''"]
        run_scan_append [of url_step pa] run_to_path [OF ok(1-3)] pa scan.case)
  then have "run_scan url_step (render_url sch host po pa qu fr) url_start =
      run_scan url_step (render_tail qu fr) ?s1"
    by (simp only: render_url_def append_assoc)
  then show ?thesis
    unfolding url_parse_def tail
    by (simp add: url_finish_def andThen_def assertThat_def ret_def modify_def get_def url_of_def
        url_start_def Url_def)
qed

section \<open>Every valid URL\<close>

text \<open>What holds of the parts of every URL the parser accepts.\<close>

definition url_wf :: "url \<Rightarrow> bool" where
  "url_wf v \<longleftrightarrow> list_all scheme_char (url_scheme v) \<and> list_all host_char (url_hostname v) \<and>
     list_all host_char (url_username v) \<and> list_all isdigit (url_port v) \<and>
     integerPort v = word_of_int (atoi (url_port v)) \<and>
     url_path v \<noteq> [] \<and> hd (url_path v) = CHR ''/'' \<and> list_all path_char (url_path v) \<and>
     list_all (\<lambda>c. c \<noteq> CHR ''#'') (url_query v)"

text \<open>The invariant of the loop: the parts so far, and which variables are still empty in which state.\<close>

definition url_inv :: "url_locals \<Rightarrow> bool" where
  "url_inv s \<longleftrightarrow> url_wf (u s) \<and> list_all host_char (usernameOrHostname s) \<and> list_all isdigit (portOrPassword s) \<and>
     (portOrPassword s \<noteq> [] \<longrightarrow> ustate s = PortOrPassword \<or> ustate s = Port) \<and>
     (ustate s \<notin> {Path, Query, Fragment} \<longrightarrow> url_port (u s) = []) \<and>
     (ustate s \<in> {Scheme, SlashAfterScheme1, SlashAfterScheme2, UsernameOrHostname, PortOrPassword} \<longrightarrow>
       url_username (u s) = [] \<and> url_hostname (u s) = [] \<and> url_password (u s) = [])"

lemma atoi_Nil [simp]: "atoi [] = 0"
  by (simp add: atoi_def strtol_def c_str_def LONG_MAX_def LONG_MIN_def)

lemma url_start_inv: "url_inv url_start"
  by (simp add: url_inv_def url_wf_def url_start_def Url_def path_char_def)

lemma char_class_intros:
  "isUnreserved c \<or> c = CHR ''%'' \<Longrightarrow> host_char c" "isalnum c \<Longrightarrow> host_char c" "isdigit c \<Longrightarrow> host_char c"
  "isalnum c \<or> c = CHR ''+'' \<or> c = CHR ''-'' \<or> c = CHR ''.'' \<Longrightarrow> scheme_char c"
  "c \<noteq> CHR ''#'' \<Longrightarrow> c \<noteq> CHR ''?'' \<Longrightarrow> path_char c"
  by (auto simp: host_char_def isUnreserved_def scheme_char_def isalnum_def path_char_def)

lemma url_step_inv:
  assumes "url_inv s" "url_step c s = Continue s'"
  shows "url_inv s'"
  using assms
  by (cases "ustate s"; simp add: url_step.simps [of c s] url_inv_def url_wf_def invalid_def
      char_class_intros split: if_splits; clarsimp simp: char_class_intros)

interpretation url: scanner url_step url_inv "\<lambda>_. True"
  by unfold_locales (auto intro: url_step_inv)

lemma url_parse_True:
  assumes "url_parse str p = Done True p'"
  obtains s where "run_scan url_step str url_start = Continue s" "portOrPassword s = []"
    "p' = p\<lparr>valid := True, the_url := (if usernameOrHostname s = [] then u s
        else (u s)\<lparr>url_hostname := usernameOrHostname s\<rparr>)\<rparr>"
  using assms
  by (auto simp: url_parse_def url_finish_def andThen_def assertThat_def ret_def modify_def get_def
      call_abort_def split: scan.splits url_exit.splits if_splits)

lemma url_parse_wf:
  assumes "url_parse str p = Done True p'"
  shows "valid p' \<and> url_wf (the_url p')"
proof -
  obtain s where s: "run_scan url_step str url_start = Continue s" "portOrPassword s = []"
    "p' = p\<lparr>valid := True, the_url := (if usernameOrHostname s = [] then u s
        else (u s)\<lparr>url_hostname := usernameOrHostname s\<rparr>)\<rparr>"
    using assms by (rule url_parse_True)
  from url.run_inv [OF url_start_inv s(1)] s(3) show ?thesis
    by (auto simp: url_inv_def url_wf_def)
qed

text \<open>The result of \<open>parse\<close> is what \<open>isValid\<close> says, and \<open>parse\<close> returns or aborts.\<close>

lemma url_parse_cases:
  "url_parse str p = Abort \<or> (\<exists>p'. url_parse str p = Done (isValid p') p')"
  by (auto simp: url_parse_def url_finish_def andThen_def assertThat_def ret_def modify_def get_def
      call_abort_def isValid_def split: scan.splits url_exit.splits)

section \<open>The inputs that abort\<close>

text \<open>A port that is not followed by a slash is still pending when the loop ends.\<close>

lemma url_parse_pending_port:
  assumes "\<forall>c \<in> set sch. scheme_char c" "\<forall>c \<in> set host. host_char c" "\<forall>c \<in> set po. isdigit c" "po \<noteq> []"
  shows "url_parse (sch @ ''://'' @ host @ CHR '':'' # po) p = Abort"
proof -
  let ?s = "url_start\<lparr>ustate := UsernameOrHostname, usernameOrHostname := host,
      u := (u url_start)\<lparr>url_scheme := sch\<rparr>\<rparr>"
  have "run_scan url_step (CHR '':'' # po) ?s =
      Continue (?s\<lparr>ustate := PortOrPassword, portOrPassword := po\<rparr>)"
    using assms(3) by (simp add: url_step.simps [of "CHR '':''"] run_port url_start_def)
  then have "run_scan url_step ((sch @ ''://'' @ host) @ CHR '':'' # po) url_start =
      Continue (?s\<lparr>ustate := PortOrPassword, portOrPassword := po\<rparr>)"
    by (simp only: run_scan_append [of url_step "sch @ ''://'' @ host"] run_authority [OF assms(1,2)] scan.case)
  then show ?thesis
    using assms(4) by (simp add: url_parse_def url_finish_def andThen_def assertThat_def call_abort_def)
qed

text \<open>A target that starts with a slash (the form sent to an origin server) is invalid.\<close>

lemma url_parse_relative: "url_parse (CHR ''/'' # rest) p = Done False (p\<lparr>valid := False, the_url := Url\<rparr>)"
proof -
  have "url_step (CHR ''/'') url_start = Return (Invalid (url_start\<lparr>u := Url\<rparr>))"
    by (simp add: url_step.simps url_start_def invalid_def)
  then show ?thesis
    by (simp add: url_parse_def url_finish_def andThen_def assertThat_def ret_def modify_def get_def
        url_start_def)
qed

section \<open>The port\<close>

lemma httpPort_valid:
  "valid p \<Longrightarrow> httpPort p s = Done (if url_port (the_url p) \<noteq> [] then integerPort (the_url p)
     else if url_scheme (the_url p) = ''https'' then 443 else 80) s"
  by (simp add: httpPort_def scheme_def andThen_def assertThat_def isValid_def ret_def)

lemma dropWhile_digits:
  assumes "s \<noteq> []" "\<forall>c \<in> set s. isdigit c"
  shows "dropWhile isspace (c_str s) = s" "hd s \<noteq> CHR ''-''" "hd s \<noteq> CHR ''+''"
proof -
  have c: "isdigit c \<Longrightarrow> \<not> isspace c \<and> c \<noteq> CHR 0x00 \<and> c \<noteq> CHR ''-'' \<and> c \<noteq> CHR ''+''" for c
    by (auto simp: ctype_defs)
  have "c_str s = s" using assms(2) c by (auto simp: c_str_def takeWhile_eq_all_conv)
  then show "dropWhile isspace (c_str s) = s"
    using assms c by (cases s) auto
  show "hd s \<noteq> CHR ''-''" "hd s \<noteq> CHR ''+''" using assms c [of "hd s"] by (cases s; simp)+
qed

lemma atoi_show_nat: "n < 2 ^ 31 \<Longrightarrow> atoi (show_nat n) = int n"
  using dropWhile_digits [OF show_nat_not_Nil show_nat_digits, of n]
  by (simp add: atoi_def strtol_def digits_value_show_nat LONG_MAX_def signed_take_bit_int_eq_self
      sint_sbintrunc' min_def del: of_int_of_nat_eq)

text \<open>The port: the number in the URL modulo \<open>2 ^ 16\<close>, else that of the scheme.\<close>

lemma url_port_value:
  assumes "url_parts_ok sch host (map_option show_nat n) pa qu" "\<forall>m. n = Some m \<longrightarrow> m < 2 ^ 31"
  shows "\<exists>p'. url_parse (render_url sch host (map_option show_nat n) pa qu fr) p = Done True p' \<and>
    httpPort p' s = Done (case n of Some m \<Rightarrow> word_of_nat m
      | None \<Rightarrow> if sch = ''https'' then 443 else 80) s"
  using assms(2) url_parse_render [OF assms(1), of fr p]
  by (auto simp: httpPort_valid url_of_def atoi_show_nat split: option.split)

end
