(* ===== verification/Http_Request.thy ===== *)
theory Http_Request
  imports Request_Bodies Url_Correct "HOL-Library.List_Lexorder" "HOL-Library.Char_ord"
begin

text \<open>
  \<open>spx::HttpRequest\<close> (\<open>http/http_request.cpp\<close>): what the proxy keeps of a client's request and
  the request it writes out, which it both sends to the origin server and uses as cache key.
  The headers are a \<open>std::map\<close>: an association list sorted by \<open>std::string\<close>'s
  bytewise order, which is the lexicographic order of the library on \<open>char list\<close>.
\<close>

section \<open>The object and its operations\<close>

record http_request =
  versionMajor :: int
  versionMinor :: int
  rq_method :: string
  rq_url :: url_parser
  rq_headers :: "(string \<times> string) list"

definition HttpRequest :: http_request where
  "HttpRequest = \<lparr>versionMajor = 1, versionMinor = 0, rq_method = [],
     rq_url = \<lparr>valid = False, the_url = Url\<rparr>, rq_headers = []\<rparr>"

definition HEADERS_TO_REMOVE :: "string list" where
  "HEADERS_TO_REMOVE = [''Proxy-Connection'', ''Upgrade-Insecure-Requests'', ''Range'']"

text \<open>The value a \<open>ParseResult\<close> has when it is written to a stream.\<close>

fun parse_code :: "ParseResult \<Rightarrow> nat" where
  "parse_code ParsingCompleted = 0"
| "parse_code ParsingIncompleted = 1"
| "parse_code ParsingError = 2"

definition parsing_failed :: "ParseResult \<Rightarrow> string \<Rightarrow> exn" where
  "parsing_failed res request_str = SpxException (''Parsing failed (code '' @ show_nat (parse_code res) @
     '')'' @ [LF] @ ''Request:'' @ [LF] @ request_str)"

definition parseRequestStr :: "string \<Rightarrow> (request, 's) act" where
  "parseRequestStr request_str = (case consume request_str HttpRequestParser of
       Result res p \<Rightarrow> if res = ParsingCompleted then ret (req p) else raise (parsing_failed res request_str)
     | Throws e \<Rightarrow> raise e
     | IntOverflow \<Rightarrow> undefined_behaviour
     | BackOfEmpty \<Rightarrow> undefined_behaviour)"

text \<open>\<open>std::map::insert_or_assign\<close>.\<close>

fun insert_or_assign :: "string \<Rightarrow> string \<Rightarrow> (string \<times> string) list \<Rightarrow> (string \<times> string) list" where
  "insert_or_assign k v [] = [(k, v)]"
| "insert_or_assign k v ((a, b) # xs) =
     (if k < a then (k, v) # (a, b) # xs else if k = a then (k, v) # xs
      else (a, b) # insert_or_assign k v xs)"

text \<open>The body of the loop over the parsed headers.\<close>

definition keep_header :: "header_item \<Rightarrow> (string \<times> string) list \<Rightarrow> (string \<times> string) list" where
  "keep_header h m =
     (if hname h \<in> set HEADERS_TO_REMOVE then m
      else if hname h = ''Connection'' then insert_or_assign (hname h) ''close'' m
      else insert_or_assign (hname h) (hvalue h) m)"

definition http_request_parse :: "string \<Rightarrow> (unit, http_request) act" where
  "http_request_parse request_str = andThen (parseRequestStr request_str) (\<lambda>r.
     andThen (modify (\<lambda>h. h\<lparr>versionMajor := r_versionMajor r, versionMinor := r_versionMinor r,
                             rq_method := r_method r\<rparr>)) (\<lambda>_.
     andThen (zoom rq_url (\<lambda>p h. h\<lparr>rq_url := p\<rparr>) (url_parse (r_uri r))) (\<lambda>_.
     forEach (r_headers r) (\<lambda>i. modify (\<lambda>h. h\<lparr>rq_headers := keep_header i (rq_headers h)\<rparr>)))))"

text \<open>The constructor from a string: \<open>parse\<close> on a fresh object.\<close>

definition http_request_new :: "string \<Rightarrow> (http_request, 's) act" where
  "http_request_new request_str = (\<lambda>s. case http_request_parse request_str HttpRequest of
       Done _ h \<Rightarrow> Done h s | Raise e _ \<Rightarrow> Raise e s | Abort \<Rightarrow> Abort | Undef \<Rightarrow> Undef | Hang \<Rightarrow> Hang)"

definition header_line :: "string \<times> string \<Rightarrow> string" where
  "header_line kv = fst kv @ '': '' @ snd kv @ CRLF"

definition toString :: "http_request \<Rightarrow> (string, 's) act" where
  "toString h = andThen (path (rq_url h)) (\<lambda>p.
     ret (rq_method h @ '' '' @ p @ '' HTTP/'' @ show_int (versionMajor h) @ ''.'' @
          show_int (versionMinor h) @ CRLF @ concat (map header_line (rq_headers h)) @ CRLF @ CRLF))"

section \<open>The header map\<close>

lemma insert_or_assign_map_of: "map_of (insert_or_assign k v m) = (map_of m)(k \<mapsto> v)"
  by (induction k v m rule: insert_or_assign.induct) (auto simp: fun_upd_twist)

lemma insert_or_assign_keys: "set (map fst (insert_or_assign k v m)) = insert k (set (map fst m))"
  by (induction k v m rule: insert_or_assign.induct) auto

lemma insert_or_assign_items: "set (insert_or_assign k v m) \<subseteq> insert (k, v) (set m)"
  by (induction k v m rule: insert_or_assign.induct) auto

definition headers_sorted :: "(string \<times> string) list \<Rightarrow> bool" where
  "headers_sorted m \<longleftrightarrow> sorted_wrt (<) (map fst m)"

lemma insert_or_assign_sorted: "headers_sorted m \<Longrightarrow> headers_sorted (insert_or_assign k v m)"
proof (induction k v m rule: insert_or_assign.induct)
  case (2 k v a b xs)
  then show ?case
    using insert_or_assign_keys [of k v xs] by (auto simp: headers_sorted_def)
qed (simp add: headers_sorted_def)

text \<open>What a list of parsed headers means: later headers win, hop-by-hop ones are dropped.\<close>

definition kept :: "header_item \<Rightarrow> (string \<times> string) list" where
  "kept h = (if hname h \<in> set HEADERS_TO_REMOVE then []
             else [(hname h, if hname h = ''Connection'' then ''close'' else hvalue h)])"

definition forwarded :: "header_item list \<Rightarrow> string \<rightharpoonup> string" where
  "forwarded hs = map_of (rev (concat (map kept hs)))"

definition keep_headers :: "header_item list \<Rightarrow> (string \<times> string) list \<Rightarrow> (string \<times> string) list" where
  "keep_headers hs m = fold keep_header hs m"

lemma keep_header_map_of: "map_of (keep_header h m) = map_of m ++ map_of (kept h)"
  by (auto simp: keep_header_def kept_def insert_or_assign_map_of)

lemma keep_headers_map_of: "map_of (keep_headers hs m) = map_of m ++ forwarded hs"
  by (induction hs arbitrary: m)
    (simp_all add: keep_headers_def forwarded_def keep_header_map_of, simp add: kept_def)

lemma keep_header_sorted: "headers_sorted m \<Longrightarrow> headers_sorted (keep_header h m)"
  by (simp add: keep_header_def insert_or_assign_sorted)

lemma keep_headers_sorted: "headers_sorted m \<Longrightarrow> headers_sorted (keep_headers hs m)"
  by (induction hs arbitrary: m) (simp_all add: keep_headers_def keep_header_sorted)

text \<open>Two sorted lists with the same map are the same: the output depends on the map only.\<close>

lemma headers_sorted_unique:
  assumes "headers_sorted m" "headers_sorted m'" "map_of m = map_of m'"
  shows "m = m'"
proof -
  have d: "distinct (map fst m)" "distinct (map fst m')"
    using assms(1,2) by (simp_all add: headers_sorted_def strict_sorted_iff)
  have k: "set (map fst m) = set (map fst m')"
    using assms(3) by (metis dom_map_of_conv_image_fst list.set_map)
  then have "map fst m = map fst m'"
    using assms(1,2) sorted_distinct_set_unique [of "map fst m" "map fst m'"]
    by (simp add: headers_sorted_def strict_sorted_iff)
  moreover have "xs = map (\<lambda>k. (k, the (map_of xs k))) (map fst xs)" if "distinct (map fst xs)" for xs :: "(string \<times> string) list"
    using that by (simp add: comp_def) (rule map_idI [symmetric], auto)
  ultimately show ?thesis
    using d assms(3) by metis
qed

end
