(* ===== verification/Clients.thy ===== *)
theory Clients
  imports Sockets Http_Request
begin

text \<open>
  \<open>Client\<close> and \<open>ClientsList\<close> (\<open>clients_list.cpp\<close>). Client objects live in a heap and are
  named by identities, which is what a \<open>Client &\<close>, a \<open>reference_wrapper\<close> or a
  \<open>unique_ptr\<close> holds; reading through the identity of a destroyed client is undefined
  behaviour. \<open>ClientsList\<close> is a vector of owners indexed by the client's descriptor.
\<close>

section \<open>Objects\<close>

datatype client_state =
    waiting_for_request
  | waiting_for_response_for_another_client
  | sending_request
  | waiting_response_status_code
  | waiting_response
  | got_response
  | getting_response_from_another_client

type_synonym client_id = nat

record client =
  request_str :: string
  request :: http_request
  client_connection :: fd
  server_connection :: "fd option"
  state :: client_state
  sent_bytes :: nat
  chunks :: "string list"
  should_write_to_cache :: bool
  should_read_from_cache :: bool
  should_write_to_all :: bool

definition client_create :: "fd \<Rightarrow> client" where
  "client_create client_conn = \<lparr>request_str = [], request = HttpRequest, client_connection = client_conn,
     server_connection = None, state = waiting_for_request, sent_bytes = 0, chunks = [],
     should_write_to_cache = False, should_read_from_cache = False, should_write_to_all = False\<rparr>"

record world = net +
  slots :: "client_id option list"
  heap :: "client_id \<rightharpoonup> client"
  next_client :: client_id

definition getC :: "client_id \<Rightarrow> (client \<Rightarrow> 'a) \<Rightarrow> ('a, 'r world_scheme) act" where
  "getC i f = (\<lambda>s. case heap s i of None \<Rightarrow> Undef | Some c \<Rightarrow> Done (f c) s)"

definition setC :: "client_id \<Rightarrow> (client \<Rightarrow> client) \<Rightarrow> (unit, 'r world_scheme) act" where
  "setC i f = (\<lambda>s. case heap s i of
       None \<Rightarrow> Undef | Some c \<Rightarrow> Done () (s\<lparr>heap := (heap s)(i \<mapsto> f c)\<rparr>))"

lemma wp_getC [wp_simps]:
  "wp C (getC i f) Q E s = (case heap s i of None \<Rightarrow> C | Some c \<Rightarrow> Q (f c) s)"
  by (simp add: wp_def getC_def split: option.split)

lemma wp_setC [wp_simps]:
  "wp C (setC i f) Q E s = (case heap s i of None \<Rightarrow> C | Some c \<Rightarrow> Q () (s\<lparr>heap := (heap s)(i \<mapsto> f c)\<rparr>))"
  by (simp add: wp_def setC_def split: option.split)

text \<open>\<open>operator==\<close> compares the owning pointers of the two connections: equal for the same object only.\<close>

definition client_eq :: "client_id \<Rightarrow> client_id \<Rightarrow> (bool, 'r world_scheme) act" where
  "client_eq i j = andThen (getC i client_connection) (\<lambda>_. andThen (getC j client_connection) (\<lambda>_. ret (i = j)))"

section \<open>Reading a request\<close>

definition MAX_REQUEST_SIZE :: nat where "MAX_REQUEST_SIZE = 16 * 1024"
definition BUFSIZ :: nat where "BUFSIZ = 8192"

text \<open>
  \<open>strncpy(dst, src, n)\<close> copies up to the first null byte and fills the rest with null bytes;
  \<open>strstr\<close> reads the array up to a match or a null byte, and off its end when there is
  neither (\<open>None\<close>).
\<close>

definition strncpy :: "string \<Rightarrow> string" where
  "strncpy src = c_str src @ replicate (length src - length (c_str src)) (CHR 0x00)"

definition overwrite :: "nat \<Rightarrow> string \<Rightarrow> string \<Rightarrow> string" where
  "overwrite offset bs mem = take offset mem @ bs @ drop (offset + length bs) mem"

fun strstr :: "string \<Rightarrow> string \<Rightarrow> bool option" where
  "strstr pat [] = None"
| "strstr pat (c # cs) =
     (if take (length pat) (c # cs) = pat then Some True
      else if c = CHR 0x00 then Some False else strstr pat cs)"

text \<open>The loop; \<open>mem\<close> is the array \<open>request_raw\<close>, \<open>written\<close> the bytes received so far.\<close>

function read_loop :: "kernel \<Rightarrow> fd \<Rightarrow> nat \<Rightarrow> string \<Rightarrow> (string, 'r net_scheme) act" where
  "read_loop K fd written mem s = (case receive K fd BUFSIZ s of
       Done buf t \<Rightarrow>
         if buf = [] then Done (take written mem) t
         else if written + length buf > MAX_REQUEST_SIZE then Raise (SpxException ''Too large request'') t
         else (case strstr (CRLF @ CRLF) (overwrite written (strncpy buf) mem) of
             None \<Rightarrow> Undef
           | Some found \<Rightarrow>
               if found then Done (take (written + length buf) (overwrite written (strncpy buf) mem)) t
               else read_loop K fd (written + length buf) (overwrite written (strncpy buf) mem) t)
     | Raise e t \<Rightarrow> Raise e t | Abort \<Rightarrow> Abort | Undef \<Rightarrow> Undef | Hang \<Rightarrow> Hang)"
  by pat_completeness auto

termination
proof (relation "measure (\<lambda>(K, fd, written, mem, s). Suc MAX_REQUEST_SIZE - written)")
  fix written :: nat and buf :: string
  have "buf \<noteq> [] \<Longrightarrow> \<not> MAX_REQUEST_SIZE < written + length buf \<Longrightarrow>
      Suc MAX_REQUEST_SIZE - (written + length buf) < Suc MAX_REQUEST_SIZE - written"
    by (cases buf) auto
  then show "buf \<noteq> [] \<Longrightarrow> \<not> written + length buf > MAX_REQUEST_SIZE \<Longrightarrow>
      ((K, fd, written + length buf, mem', t), (K, fd, written, mem, s)) \<in>
        measure (\<lambda>(K, fd, written, mem, s). Suc MAX_REQUEST_SIZE - written)" for K fd mem' t mem s
    by simp
qed simp

declare read_loop.simps [simp del]

definition readHttpRequest :: "kernel \<Rightarrow> fd \<Rightarrow> (string, 'r net_scheme) act" where
  "readHttpRequest K connection =
     andThen (get (\<lambda>s. k_stack K (trace s))) (\<lambda>request_raw. read_loop K connection 0 request_raw)"

section \<open>\<open>Client\<close>\<close>

definition sendToClient :: "kernel \<Rightarrow> client_id \<Rightarrow> string \<Rightarrow> (nat, 'r world_scheme) act" where
  "sendToClient K i chunk =
     andThen (getC i client_connection) (\<lambda>fd.
     andThen (send_bytes K fd chunk) (\<lambda>written_size.
     andThen (setC i (\<lambda>c. c\<lparr>sent_bytes := sent_bytes c + written_size\<rparr>)) (\<lambda>_.
     ret written_size)))"

definition sendToClientFromChunks :: "kernel \<Rightarrow> client_id \<Rightarrow> (unit, 'r world_scheme) act" where
  "sendToClientFromChunks K i =
     andThen (getC i chunks) (\<lambda>cs. case cs of
       [] \<Rightarrow> undefined_behaviour
     | chunk # rest \<Rightarrow>
         andThen (setC i (\<lambda>c. c\<lparr>chunks := rest\<rparr>)) (\<lambda>_.
         andThen (sendToClient K i chunk) (\<lambda>written_size.
         if written_size \<noteq> length chunk
         then setC i (\<lambda>c. c\<lparr>chunks := drop written_size chunk # chunks c\<rparr>)
         else ret ())))"

definition getHttpRequest :: "kernel \<Rightarrow> client_id \<Rightarrow> (unit, 'r world_scheme) act" where
  "getHttpRequest K i =
     andThen (getC i client_connection) (\<lambda>fd.
     andThen (readHttpRequest K fd) (\<lambda>received_request_str.
     andThen (http_request_new received_request_str) (\<lambda>h.
     andThen (setC i (\<lambda>c. c\<lparr>request := h\<rparr>)) (\<lambda>_.
     andThen (toString h) (\<lambda>str.
     setC i (\<lambda>c. c\<lparr>request_str := str\<rparr>))))))"

definition isReadingFromCache :: "client \<Rightarrow> bool" where
  "isReadingFromCache c \<longleftrightarrow> state c = got_response \<and> should_read_from_cache c \<and> server_connection c = None"

text \<open>\<open>obtainServerConnection\<close> moves the connection of \<open>other\<close>; one already held would be closed.\<close>

definition destroy_opt :: "fd option \<Rightarrow> (unit, 'r net_scheme) act" where
  "destroy_opt co = (case co of None \<Rightarrow> ret () | Some fd \<Rightarrow> socket_destroy fd)"

definition obtainServerConnection :: "client_id \<Rightarrow> client_id \<Rightarrow> (unit, 'r world_scheme) act" where
  "obtainServerConnection i other =
     andThen (getC other server_connection) (\<lambda>conn.
     andThen (setC other (\<lambda>c. c\<lparr>server_connection := None\<rparr>)) (\<lambda>_.
     andThen (getC i server_connection) (\<lambda>old.
     andThen (setC i (\<lambda>c. c\<lparr>server_connection := conn\<rparr>)) (\<lambda>_.
     andThen (destroy_opt old) (\<lambda>_.
     setC i (\<lambda>c. c\<lparr>state := waiting_response, should_write_to_cache := True\<rparr>))))))"

section \<open>\<open>ClientsList\<close>\<close>

definition calculateMaximumClients :: "size_t \<Rightarrow> size_t" where
  "calculateMaximumClients max_fds = (max_fds - 4) div 2"

text \<open>A vector of pointers holds at most \<open>PTRDIFF_MAX / 8\<close> of them, else \<open>length_error\<close>.\<close>

definition ClientsList :: "size_t \<Rightarrow> (client_id option list, 's) act" where
  "ClientsList max_fds =
     (if unat (calculateMaximumClients max_fds) > 2 ^ 60 - 1 then raise StdLengthError
      else ret (replicate (unat (calculateMaximumClients max_fds)) None))"

definition client_pollfds :: "client \<Rightarrow> (pollfd list, 's) act" where
  "client_pollfds c =
     (let client_fd = client_connection c;
          server_fd = (case server_connection c of None \<Rightarrow> - 1 | Some fd \<Rightarrow> fd);
          on_client = (\<lambda>ev. \<lparr>pfd_fd = client_fd, pfd_events = ev, pfd_revents = 0\<rparr>);
          on_server = (\<lambda>ev. \<lparr>pfd_fd = server_fd, pfd_events = ev, pfd_revents = 0\<rparr>)
      in case state c of
        waiting_for_request \<Rightarrow> ret [on_client POLLIN]
      | waiting_for_response_for_another_client \<Rightarrow> ret []
      | sending_request \<Rightarrow> andThen (assertThat (server_fd \<noteq> - 1)) (\<lambda>_. ret [on_server POLLOUT])
      | waiting_response_status_code \<Rightarrow> andThen (assertThat (server_fd \<noteq> - 1)) (\<lambda>_. ret [on_server POLLIN])
      | waiting_response \<Rightarrow>
          andThen (assertThat (server_fd \<noteq> - 1)) (\<lambda>_. ret [on_server POLLIN, on_client POLLOUT])
      | got_response \<Rightarrow> ret [on_client POLLOUT]
      | getting_response_from_another_client \<Rightarrow> ret [on_client POLLOUT])"

fun collect_pollfds :: "client_id option list \<Rightarrow> (pollfd list, 'r world_scheme) act" where
  "collect_pollfds [] = ret []"
| "collect_pollfds (None # rest) = collect_pollfds rest"
| "collect_pollfds (Some i # rest) =
     andThen (getC i id) (\<lambda>c.
     andThen (client_pollfds c) (\<lambda>ps.
     andThen (collect_pollfds rest) (\<lambda>qs. ret (ps @ qs))))"

definition clients_getPollfds :: "(pollfd list, 'r world_scheme) act" where
  "clients_getPollfds = andThen (get slots) collect_pollfds"

text \<open>\<open>clients_[fd]\<close>: an index outside the vector is undefined.\<close>

definition slot_at :: "fd \<Rightarrow> (client_id option, 'r world_scheme) act" where
  "slot_at fd = (\<lambda>s. if 0 \<le> fd \<and> nat fd < length (slots s) then Done (slots s ! nat fd) s else Undef)"

fun find_client :: "fd \<Rightarrow> client_id option list \<Rightarrow> (client_id option, 'r world_scheme) act" where
  "find_client fd [] = ret None"
| "find_client fd (None # rest) = find_client fd rest"
| "find_client fd (Some i # rest) =
     andThen (getC i id) (\<lambda>c.
     if client_connection c = fd \<or> server_connection c = Some fd then ret (Some i)
     else find_client fd rest)"

definition getClient :: "fd \<Rightarrow> (client_id, 'r world_scheme) act" where
  "getClient fd =
     andThen (get slots) (\<lambda>os.
     andThen (find_client fd os) (\<lambda>found. case found of
       Some i \<Rightarrow> ret i
     | None \<Rightarrow> andThen (slot_at fd) (\<lambda>entry. case entry of None \<Rightarrow> undefined_behaviour | Some i \<Rightarrow> ret i)))"

text \<open>Destroying a client closes its server connection, then its client connection.\<close>

definition client_destroy :: "client_id \<Rightarrow> (unit, 'r world_scheme) act" where
  "client_destroy i =
     andThen (getC i id) (\<lambda>c.
     andThen (destroy_opt (server_connection c)) (\<lambda>_.
     andThen (socket_destroy (client_connection c)) (\<lambda>_.
     modify (\<lambda>s. s\<lparr>heap := (heap s)(i := None)\<rparr>))))"

definition assign_slot :: "fd \<Rightarrow> client_id option \<Rightarrow> (unit, 'r world_scheme) act" where
  "assign_slot fd new =
     andThen (slot_at fd) (\<lambda>old.
     andThen (modify (\<lambda>s. s\<lparr>slots := (slots s)[nat fd := new]\<rparr>)) (\<lambda>_.
     case old of None \<Rightarrow> ret () | Some i \<Rightarrow> client_destroy i))"

definition clients_acceptClient :: "fd \<Rightarrow> (unit, 'r world_scheme) act" where
  "clients_acceptClient conn_fd =
     andThen (get next_client) (\<lambda>i.
     andThen (modify (\<lambda>s. s\<lparr>heap := (heap s)(i \<mapsto> client_create conn_fd), next_client := Suc i\<rparr>)) (\<lambda>_.
     assign_slot conn_fd (Some i)))"

definition clients_discardClient :: "client_id \<Rightarrow> (unit, 'r world_scheme) act" where
  "clients_discardClient i = andThen (getC i client_connection) (\<lambda>fd. assign_slot fd None)"

end
