(* ===== verification/Server.thy ===== *)
theory Server
  imports Clients Cache_Refinement
begin

text \<open>
  The proxy (\<open>server.cpp\<close>): one event loop over all connections, a state machine per client,
  the cache and the map from a request to the clients that made it. Each handler is the whole
  member function, with its \<open>try\<close> blocks. Log output is left out.
\<close>

section \<open>State\<close>

record server = world +
  server_socket :: passive_socket
  the_cache :: cache
  request_clients_map :: "string \<rightharpoonup> client_id list"
  is_running :: bool

type_synonym 'a server_act = "('a, server) act"

definition PENDING_CONNECTIONS_QUEUE_LEN :: nat where "PENDING_CONNECTIONS_QUEUE_LEN = 5"
definition MAX_CACHE_SIZE :: size_t where "MAX_CACHE_SIZE = 16 * 1024 * 1024"
definition MAX_CHUNK_SIZE :: nat where "MAX_CHUNK_SIZE = 1024"

definition onCache :: "('a, cache) act \<Rightarrow> 'a server_act" where
  "onCache m = zoom the_cache (\<lambda>c s. s\<lparr>the_cache := c\<rparr>) m"

text \<open>\<open>request_clients_map[key]\<close> makes an empty list where there is none.\<close>

definition map_at :: "string \<Rightarrow> client_id list server_act" where
  "map_at key = (\<lambda>s. case request_clients_map s key of
       Some l \<Rightarrow> Done l s
     | None \<Rightarrow> Done [] (s\<lparr>request_clients_map := (request_clients_map s)(key \<mapsto> [])\<rparr>))"

definition map_set :: "string \<Rightarrow> client_id list \<Rightarrow> unit server_act" where
  "map_set key l = modify (\<lambda>s. s\<lparr>request_clients_map := (request_clients_map s)(key \<mapsto> l)\<rparr>)"

section \<open>Connecting to the origin server\<close>

fun try_addresses :: "kernel \<Rightarrow> addrinfo list \<Rightarrow> (fd option, 'r net_scheme) act" where
  "try_addresses K [] = ret None"
| "try_addresses K (p # ps) =
     andThen (tryCatch is_spx_exception
       (andThen (active_create K p) (\<lambda>fd.
        andThen (onException (socket_connect K fd (ai_addr p)) (socket_destroy fd)) (\<lambda>_.
        ret (Some fd))))
       (\<lambda>_. ret None)) (\<lambda>res. case res of
     Some fd \<Rightarrow> ret (Some fd) | None \<Rightarrow> try_addresses K ps)"

definition cannot_connect :: "string \<Rightarrow> string \<Rightarrow> exn" where
  "cannot_connect host service =
     SpxException (''Can'' @ [CHR 0x27] @ ''t connect to host '' @ host @ '':'' @ service)"

definition connectToHost :: "kernel \<Rightarrow> string \<Rightarrow> string \<Rightarrow> (fd, 'r net_scheme) act" where
  "connectToHost K host service =
     andThen (getaddrinfo K (Some (c_str host)) (c_str service)) (\<lambda>servinfo. case servinfo of
       None \<Rightarrow> raise (SpxException ''error on getaddrinfo()'')
     | Some infos \<Rightarrow>
         andThen (try_addresses K infos) (\<lambda>res. case res of
           None \<Rightarrow> raise (cannot_connect host service)
         | Some fd \<Rightarrow> if socket_isValid fd then ret fd else raise (cannot_connect host service)))"

definition prepareForSendingRequest :: "kernel \<Rightarrow> client_id \<Rightarrow> (unit, 'r world_scheme) act" where
  "prepareForSendingRequest K i =
     andThen (getC i request) (\<lambda>r.
     andThen (httpPort (rq_url r)) (\<lambda>p.
     andThen (hostname (rq_url r)) (\<lambda>host.
     andThen (connectToHost K host (show_nat (unat p))) (\<lambda>fd.
     andThen (getC i server_connection) (\<lambda>old.
     andThen (setC i (\<lambda>c. c\<lparr>server_connection := Some fd\<rparr>)) (\<lambda>_.
     andThen (destroy_opt old) (\<lambda>_.
     setC i (\<lambda>c. c\<lparr>state := sending_request\<rparr>))))))))"

text \<open>\<open>*client.server_connection\<close> of a null pointer is undefined.\<close>

definition server_conn :: "client_id \<Rightarrow> (fd, 'r world_scheme) act" where
  "server_conn i = andThen (getC i server_connection) (\<lambda>conn. case conn of
     None \<Rightarrow> undefined_behaviour | Some fd \<Rightarrow> ret fd)"

definition readResponseChunk :: "kernel \<Rightarrow> client_id \<Rightarrow> (string, 'r world_scheme) act" where
  "readResponseChunk K i = andThen (server_conn i) (\<lambda>fd. receive K fd MAX_CHUNK_SIZE)"

section \<open>The clients that made a request\<close>

definition hasClientsWithRequest :: "string \<Rightarrow> server \<Rightarrow> bool" where
  "hasClientsWithRequest key s = (case request_clients_map s key of None \<Rightarrow> False | Some l \<Rightarrow> l \<noteq> [])"

definition addToRequestClients :: "client_id \<Rightarrow> unit server_act" where
  "addToRequestClients i =
     andThen (getC i request_str) (\<lambda>key.
     andThen (get (\<lambda>s. request_clients_map s key)) (\<lambda>found. case found of
       Some l \<Rightarrow> map_set key (l @ [i])
     | None \<Rightarrow> map_set key [i]))"

fun remove_if_client :: "client_id \<Rightarrow> client_id list \<Rightarrow> (client_id list, 'r world_scheme) act" where
  "remove_if_client i [] = ret []"
| "remove_if_client i (j # js) =
     andThen (client_eq i j) (\<lambda>same.
     andThen (remove_if_client i js) (\<lambda>rest. ret (if same then rest else j # rest)))"

definition removeFromRequestClients :: "client_id \<Rightarrow> unit server_act" where
  "removeFromRequestClients i =
     andThen (getC i request_str) (\<lambda>key.
     andThen (map_at key) (\<lambda>l.
     andThen (remove_if_client i l) (\<lambda>l'.
     map_set key l')))"

section \<open>Discarding a client\<close>

fun find_reading :: "client_id list \<Rightarrow> (client_id option, 'r world_scheme) act" where
  "find_reading [] = ret None"
| "find_reading (j # js) =
     andThen (getC j isReadingFromCache) (\<lambda>b. if b then ret (Some j) else find_reading js)"

definition discardClient :: "kernel \<Rightarrow> client_id \<Rightarrow> unit server_act" where
  "discardClient K i =
     andThen (getC i request_str) (\<lambda>key.
     andThen (map_at key) (\<lambda>_.
     andThen (removeFromRequestClients i) (\<lambda>_.
     andThen (getC i state) (\<lambda>st.
     andThen (get (hasClientsWithRequest key)) (\<lambda>has.
     andThen (if st = waiting_response \<and> has then
        andThen (map_at key) (\<lambda>l.
        andThen (find_reading l) (\<lambda>found. case found of
          None \<Rightarrow> ret () | Some j \<Rightarrow> obtainServerConnection j i))
      else ret ()) (\<lambda>_.
     andThen (onCache (disuseEntry (k_freed K) key)) (\<lambda>_.
     clients_discardClient i)))))))"

section \<open>Writing a response\<close>

definition writeResponseChunkToClientBuffer :: "client_id \<Rightarrow> string \<Rightarrow> (unit, 'r world_scheme) act" where
  "writeResponseChunkToClientBuffer i chunk = setC i (\<lambda>c. c\<lparr>chunks := chunks c @ [chunk]\<rparr>)"

definition fallback_one :: "kernel \<Rightarrow> string \<Rightarrow> client_id \<Rightarrow> unit server_act" where
  "fallback_one K chunk i =
     andThen (setC i (\<lambda>c. c\<lparr>should_read_from_cache := False, state := getting_response_from_another_client\<rparr>)) (\<lambda>_.
     andThen (getC i request_str) (\<lambda>key.
     andThen (onCache (getEntry key)) (\<lambda>ref.
     andThen (onCache (deref ref)) (\<lambda>e.
     andThen (getC i sent_bytes) (\<lambda>sent.
     andThen (if sent < entry_size e
              then setC i (\<lambda>c. c\<lparr>chunks := chunks c @ [drop sent (buffer e)]\<rparr>) else ret ()) (\<lambda>_.
     andThen (writeResponseChunkToClientBuffer i chunk) (\<lambda>_.
     onCache (disuseEntry (k_freed K) key))))))))"

definition fallbackToClientBuffer :: "kernel \<Rightarrow> client_id \<Rightarrow> string \<Rightarrow> unit server_act" where
  "fallbackToClientBuffer K original chunk =
     andThen (getC original request_str) (\<lambda>key.
     andThen (map_at key) (\<lambda>l.
     andThen (forEach l (fallback_one K chunk)) (\<lambda>_.
     setC original (\<lambda>c. c\<lparr>should_write_to_cache := False, should_write_to_all := True,
                          state := waiting_response\<rparr>))))"

definition writeResponseChunkToCache :: "kernel \<Rightarrow> client_id \<Rightarrow> string \<Rightarrow> unit server_act" where
  "writeResponseChunkToCache K i chunk =
     andThen (getC i request_str) (\<lambda>key.
     tryCatch (\<lambda>e. e = AllInUseException)
       (onCache (cache_write (k_freed K) key chunk))
       (\<lambda>_. fallbackToClientBuffer K i chunk))"

definition setClientToGetResponseFromCache :: "client_id \<Rightarrow> unit server_act" where
  "setClientToGetResponseFromCache i =
     andThen (setC i (\<lambda>c. c\<lparr>state := got_response\<rparr>)) (\<lambda>_.
     andThen (getC i request_str) (\<lambda>key.
     andThen (onCache (useEntry key)) (\<lambda>_.
     setC i (\<lambda>c. c\<lparr>should_read_from_cache := True\<rparr>))))"

section \<open>Handlers\<close>

definition readRequestFromClient :: "kernel \<Rightarrow> client_id \<Rightarrow> unit server_act" where
  "readRequestFromClient K i = tryCatch is_spx_exception
     (andThen (getHttpRequest K i) (\<lambda>_.
      andThen (getC i request_str) (\<lambda>key.
      andThen (get (\<lambda>s. contains key (the_cache s))) (\<lambda>cached.
      andThen (get (hasClientsWithRequest key)) (\<lambda>has.
      andThen (if cached then setClientToGetResponseFromCache i
        else if has then setC i (\<lambda>c. c\<lparr>state := waiting_for_response_for_another_client\<rparr>)
        else prepareForSendingRequest K i) (\<lambda>_.
      addToRequestClients i))))))
     (\<lambda>_. discardClient K i)"

definition sendRequestToServer :: "kernel \<Rightarrow> client_id \<Rightarrow> unit server_act" where
  "sendRequestToServer K i = tryCatch is_spx_exception
     (andThen (server_conn i) (\<lambda>fd.
      andThen (getC i request_str) (\<lambda>str.
      andThen (send_string K fd str) (\<lambda>_.
      andThen (shutdownWrite K fd) (\<lambda>_.
      setC i (\<lambda>c. c\<lparr>state := waiting_response_status_code\<rparr>))))))
     (\<lambda>_. discardClient K i)"

definition prepareAllWaitingClientsForSending :: "kernel \<Rightarrow> string \<Rightarrow> unit server_act" where
  "prepareAllWaitingClientsForSending K key =
     andThen (map_at key) (\<lambda>l. forEach l (\<lambda>j.
       andThen (getC j state) (\<lambda>st.
       if st = waiting_for_response_for_another_client then prepareForSendingRequest K j else ret ())))"

definition STATUS_CODE_OFFSET :: nat where "STATUS_CODE_OFFSET = 9"
definition STATUS_CODE_LEN :: nat where "STATUS_CODE_LEN = 3"
definition OK_STATUS_CODE :: int where "OK_STATUS_CODE = 200"

text \<open>\<open>std::string{chunk.data() + 9, 3}\<close>: reading beyond the chunk is undefined.\<close>

definition status_code :: "string \<Rightarrow> (int, 's) act" where
  "status_code chunk =
     (if length chunk < STATUS_CODE_OFFSET + STATUS_CODE_LEN then undefined_behaviour
      else case stoi (take STATUS_CODE_LEN (drop STATUS_CODE_OFFSET chunk)) of
          Inl e \<Rightarrow> raise e | Inr n \<Rightarrow> ret n)"

definition readResponseStatusCodeFromServer :: "kernel \<Rightarrow> client_id \<Rightarrow> unit server_act" where
  "readResponseStatusCodeFromServer K i = tryCatch is_spx_exception
     (andThen (readResponseChunk K i) (\<lambda>chunk.
      andThen (status_code chunk) (\<lambda>code.
      andThen (getC i request_str) (\<lambda>key.
      andThen (if code = OK_STATUS_CODE then
          andThen (setC i (\<lambda>c. c\<lparr>should_write_to_cache := True, should_read_from_cache := True\<rparr>)) (\<lambda>_.
          andThen (onCache (useEntry key)) (\<lambda>_.
          andThen (writeResponseChunkToCache K i chunk) (\<lambda>_.
          andThen (map_at key) (\<lambda>l. forEach l (\<lambda>j.
            andThen (client_eq i j) (\<lambda>same.
            if \<not> same then setClientToGetResponseFromCache j else ret ()))))))
        else
          andThen (writeResponseChunkToClientBuffer i chunk) (\<lambda>_.
          prepareAllWaitingClientsForSending K key)) (\<lambda>_.
      setC i (\<lambda>c. c\<lparr>state := waiting_response\<rparr>))))))
     (\<lambda>_. andThen (getC i request_str) (\<lambda>key.
      andThen (prepareAllWaitingClientsForSending K key) (\<lambda>_. discardClient K i)))"

definition finish_response :: "client_id \<Rightarrow> unit server_act" where
  "finish_response i =
     andThen (setC i (\<lambda>c. c\<lparr>state := got_response\<rparr>)) (\<lambda>_.
     andThen (getC i id) (\<lambda>c.
     if should_write_to_cache c then onCache (completeEntry (request_str c))
     else if should_write_to_all c then
       andThen (map_at (request_str c)) (\<lambda>l. forEach l (\<lambda>j. setC j (\<lambda>c. c\<lparr>state := got_response\<rparr>)))
     else ret ()))"

definition readResponseFromServer :: "kernel \<Rightarrow> client_id \<Rightarrow> unit server_act" where
  "readResponseFromServer K i = tryCatch is_spx_exception
     (andThen (readResponseChunk K i) (\<lambda>chunk.
      andThen (getC i id) (\<lambda>c.
      if should_write_to_cache c then writeResponseChunkToCache K i chunk
      else if should_write_to_all c then
        andThen (map_at (request_str c)) (\<lambda>l. forEach l (\<lambda>j. writeResponseChunkToClientBuffer j chunk))
      else writeResponseChunkToClientBuffer i chunk)))
     (\<lambda>e. if e = ZeroLengthMessageException then finish_response i else discardClient K i)"

definition sendUncachedResponseToClient :: "kernel \<Rightarrow> client_id \<Rightarrow> unit server_act" where
  "sendUncachedResponseToClient K i = tryCatch is_spx_exception
     (andThen (getC i chunks) (\<lambda>cs.
      if cs = [] then andThen (getC i state) (\<lambda>st. if st = got_response then discardClient K i else ret ())
      else sendToClientFromChunks K i))
     (\<lambda>_. discardClient K i)"

definition sendCachedResponseToClient :: "kernel \<Rightarrow> client_id \<Rightarrow> unit server_act" where
  "sendCachedResponseToClient K i = tryCatch is_spx_exception
     (andThen (getC i request_str) (\<lambda>key.
      andThen (onCache (getEntry key)) (\<lambda>ref.
      andThen (onCache (deref ref)) (\<lambda>e.
      andThen (getC i sent_bytes) (\<lambda>sent.
      if \<not> sent < entry_size e then (if entry_isCompleted e then discardClient K i else ret ())
      else
        andThen (onCache (cache_read key sent (min (entry_size e - sent) MAX_CHUNK_SIZE))) (\<lambda>bytes.
        andThen (sendToClient K i bytes) (\<lambda>_. ret ())))))))
     (\<lambda>e. if e = KeyNotFoundException then ret () else discardClient K i)"

definition sendResponseToClient :: "kernel \<Rightarrow> client_id \<Rightarrow> unit server_act" where
  "sendResponseToClient K i =
     andThen (getC i should_read_from_cache) (\<lambda>b.
     if b then sendCachedResponseToClient K i else sendUncachedResponseToClient K i)"

section \<open>The event loop\<close>

definition server_acceptClient :: "kernel \<Rightarrow> unit server_act" where
  "server_acceptClient K =
     andThen (get server_socket) (\<lambda>ps. andThen (socket_accept K ps) clients_acceptClient)"

definition handleServerSocketEvents :: "kernel \<Rightarrow> poll_bits \<Rightarrow> unit server_act" where
  "handleServerSocketEvents K events_bitmask =
     (if and events_bitmask (or POLLERR POLLNVAL) \<noteq> 0 then raise (SpxException ''Error on server socket'')
      else if and events_bitmask POLLIN \<noteq> 0
        then tryCatch is_spx_exception (server_acceptClient K) (\<lambda>_. ret ())
      else ret ())"

text \<open>The part of the switch that \<open>waiting_response\<close> falls through to.\<close>

definition handle_sending :: "kernel \<Rightarrow> client_id \<Rightarrow> poll_bits \<Rightarrow> unit server_act" where
  "handle_sending K i revents =
     (if revents = POLLHUP then discardClient K i
      else if and revents POLLOUT \<noteq> 0 then sendResponseToClient K i
      else ret ())"

definition handle_state :: "kernel \<Rightarrow> client_id \<Rightarrow> poll_bits \<Rightarrow> client_state \<Rightarrow> unit server_act" where
  "handle_state K i revents st = (case st of
       waiting_for_request \<Rightarrow> readRequestFromClient K i
     | waiting_for_response_for_another_client \<Rightarrow> ret ()
     | sending_request \<Rightarrow>
         if and revents POLLHUP \<noteq> 0 then discardClient K i else sendRequestToServer K i
     | waiting_response_status_code \<Rightarrow> readResponseStatusCodeFromServer K i
     | waiting_response \<Rightarrow>
         andThen (if and revents POLLIN \<noteq> 0 then readResponseFromServer K i else ret ()) (\<lambda>_.
         handle_sending K i revents)
     | getting_response_from_another_client \<Rightarrow> handle_sending K i revents
     | got_response \<Rightarrow> handle_sending K i revents)"

definition handleClientSocketEvents :: "kernel \<Rightarrow> client_id \<Rightarrow> poll_bits \<Rightarrow> unit server_act" where
  "handleClientSocketEvents K i revents = tryCatch is_spx_exception
     (if and revents (or POLLERR POLLNVAL) \<noteq> 0 then discardClient K i
      else andThen (getC i state) (handle_state K i revents))
     (\<lambda>_. ret ())"

definition server_getPollfds :: "pollfd list server_act" where
  "server_getPollfds =
     andThen clients_getPollfds (\<lambda>pfds.
     andThen (get (listen_fd \<circ> server_socket)) (\<lambda>fd.
     ret (pfds @ [\<lparr>pfd_fd = fd, pfd_events = POLLIN, pfd_revents = 0\<rparr>])))"

definition server_poll :: "kernel \<Rightarrow> pollfd list server_act" where
  "server_poll K =
     andThen server_getPollfds (\<lambda>pfds.
     andThen (get (\<lambda>s. k_poll K (trace s) pfds)) (\<lambda>(poll_result, revents).
     andThen (log_event (Ev_poll pfds poll_result revents)) (\<lambda>_.
     if poll_result < 0 then raise (SpxException ''error on poll()'')
     else if poll_result = 0 then ret []
     else ret (filter (\<lambda>p. pfd_revents p \<noteq> 0)
       (map (\<lambda>(p, r). p\<lparr>pfd_revents := r\<rparr>) (zip pfds revents))))))"

definition handle_pollfd :: "kernel \<Rightarrow> pollfd \<Rightarrow> unit server_act" where
  "handle_pollfd K pfd =
     andThen (get (listen_fd \<circ> server_socket)) (\<lambda>fd.
     if socket_eq fd (pfd_fd pfd) then handleServerSocketEvents K (pfd_revents pfd)
     else andThen (getClient (pfd_fd pfd)) (\<lambda>i. handleClientSocketEvents K i (pfd_revents pfd)))"

definition server_iteration :: "kernel \<Rightarrow> unit server_act" where
  "server_iteration K = andThen (server_poll K) (\<lambda>pfds. forEach pfds (handle_pollfd K))"

text \<open>The loop; \<open>None\<close> means that it runs forever.\<close>

partial_function (option) event_loop :: "kernel \<Rightarrow> server \<Rightarrow> (unit, server) outcome option" where
  "event_loop K s =
     (if is_running s \<and> \<not> k_stopped K (trace s)
      then (case server_iteration K s of
              Done _ t \<Rightarrow> event_loop K t
            | r \<Rightarrow> Some r)
      else Some (Done () s))"

definition server_start :: "kernel \<Rightarrow> unit server_act" where
  "server_start K =
     andThen (get server_socket) (\<lambda>ps.
     andThen (socket_listen K ps PENDING_CONNECTIONS_QUEUE_LEN) (\<lambda>_.
     andThen (modify (\<lambda>s. s\<lparr>is_running := True\<rparr>)) (\<lambda>_ s.
     case event_loop K s of None \<Rightarrow> Hang | Some r \<Rightarrow> r)))"

text \<open>The constructor: the client list, then the listening socket, then the cache.\<close>

definition server_new :: "kernel \<Rightarrow> uint16 \<Rightarrow> size_t \<Rightarrow> (server, net) act" where
  "server_new K port_number max_fds =
     andThen (ClientsList max_fds) (\<lambda>cl.
     andThen (passive_create K port_number) (\<lambda>ps.
     get (\<lambda>n. \<lparr>trace = trace n, slots = cl, heap = Map.empty, next_client = 0, server_socket = ps,
               the_cache = cache_create MAX_CACHE_SIZE, request_clients_map = Map.empty,
               is_running = False\<rparr>)))"

end
