(* ===== verification/Server_Invariant.thy ===== *)
theory Server_Invariant
  imports Server Cache_Interface
begin

text \<open>
  The safety invariant of the proxy, kept by every handler and every turn of the event loop, on
  every path that returns or throws: the client vector owns exactly the live clients, each
  in the slot of its descriptor; the descriptors open are the listening one and those the live
  clients hold, each held once, so none leaks and none is closed twice; the request map
  holds no dangling reference; the cache is well-formed and has its size. The triples below also
  say that the operation returns or throws: it does not run forever.
\<close>

section \<open>Triples\<close>

definition hoare :: "('s \<Rightarrow> bool) \<Rightarrow> ('a, 's) act \<Rightarrow> ('a \<Rightarrow> 's \<Rightarrow> bool) \<Rightarrow> ('s \<Rightarrow> bool) \<Rightarrow> bool" where
  "hoare P m Q X \<longleftrightarrow> (\<forall>s. P s \<longrightarrow> wp True m Q (\<lambda>_. X) s)"

named_theorems keeps \<open>what every operation keeps\<close>

lemma hoareI: "(\<And>s. P s \<Longrightarrow> wp True m Q (\<lambda>_. X) s) \<Longrightarrow> hoare P m Q X"
  by (simp add: hoare_def)

lemma hoareD: "hoare P m Q X \<Longrightarrow> P s \<Longrightarrow> wp True m Q (\<lambda>_. X) s"
  by (simp add: hoare_def)

lemma hoare_weaken: "hoare P m Q X \<Longrightarrow> (\<And>s. P' s \<Longrightarrow> P s) \<Longrightarrow> hoare P' m Q X"
  by (simp add: hoare_def)

lemma hoare_conseq:
  assumes "hoare P m Q X" "\<And>s. P' s \<Longrightarrow> P s" "\<And>a s. Q a s \<Longrightarrow> Q' a s" "\<And>s. X s \<Longrightarrow> X' s"
  shows "hoare P' m Q' X'"
proof (rule hoareI)
  fix s assume "P' s"
  with assms(1,2) have "wp True m Q (\<lambda>_. X) s" by (simp add: hoare_def)
  then show "wp True m Q' (\<lambda>_. X') s" by (rule wp_mono) (simp_all add: assms(3,4))
qed

lemma hoare_andThen:
  assumes "hoare P m R X" "\<And>a. hoare (R a) (f a) Q X"
  shows "hoare P (andThen m f) Q X"
proof (rule hoareI)
  fix s assume "P s"
  with assms(1) have "wp True m R (\<lambda>_. X) s" by (rule hoareD)
  then show "wp True (andThen m f) Q (\<lambda>_. X) s"
    unfolding wp_andThen by (rule wp_mono) (simp_all add: assms(2) [THEN hoareD])
qed

lemma hoare_tryCatch:
  assumes "hoare P m Q Y" "\<And>e. hoare Y (h e) Q X" "\<And>s. Y s \<Longrightarrow> X s"
  shows "hoare P (tryCatch p m h) Q X"
proof (rule hoareI)
  fix s assume "P s"
  with assms(1) have "wp True m Q (\<lambda>_. Y) s" by (rule hoareD)
  then show "wp True (tryCatch p m h) Q (\<lambda>_. X) s"
    unfolding wp_tryCatch by (rule wp_mono) (simp_all add: assms(2) [THEN hoareD] assms(3))
qed

lemma hoare_forEach:
  assumes "\<And>x. x \<in> set xs \<Longrightarrow> hoare I (f x) (\<lambda>_. I) X"
  shows "hoare I (forEach xs f) (\<lambda>_. I) X"
  using assms by (intro hoareI wp_forEach) (simp_all add: hoare_def)

lemma hoare_get: "(\<And>s. P s \<Longrightarrow> Q (g s) s) \<Longrightarrow> hoare P (get g) Q X"
  by (simp add: hoare_def wp_simps)

lemma hoare_modify: "(\<And>s. P s \<Longrightarrow> Q () (g s)) \<Longrightarrow> hoare P (modify g) Q X"
  by (simp add: hoare_def wp_simps)

lemma hoare_if:
  "(b \<Longrightarrow> hoare P m Q X) \<Longrightarrow> (\<not> b \<Longrightarrow> hoare P n Q X) \<Longrightarrow> hoare P (if b then m else n) Q X"
  by simp

lemma hoare_option:
  "(\<And>x. v = Some x \<Longrightarrow> hoare P (f x) Q X) \<Longrightarrow> (v = None \<Longrightarrow> hoare P n Q X) \<Longrightarrow>
   hoare P (case v of None \<Rightarrow> n | Some x \<Rightarrow> f x) Q X"
  by (simp split: option.split)

lemma hoare_getC: "(\<And>s c. P s \<Longrightarrow> heap s i = Some c \<Longrightarrow> Q (f c) s) \<Longrightarrow> hoare P (getC i f) Q X"
  by (auto simp: hoare_def wp_def getC_def split: option.split)

lemma hoare_setC:
  "(\<And>s c. P s \<Longrightarrow> heap s i = Some c \<Longrightarrow> Q () (s\<lparr>heap := (heap s)(i \<mapsto> f c)\<rparr>)) \<Longrightarrow> hoare P (setC i f) Q X"
  by (auto simp: hoare_def wp_def setC_def split: option.split)

section \<open>The invariant\<close>

text \<open>The descriptors that the calls so far have opened and not closed.\<close>

fun fd_step :: "fd list \<Rightarrow> event \<Rightarrow> fd list" where
  "fd_step l (Ev_socket fd) = (if socket_isValid fd then fd # l else l)"
| "fd_step l (Ev_accept _ fd) = (if socket_isValid fd then fd # l else l)"
| "fd_step l (Ev_close fd) = removeAll fd l"
| "fd_step l _ = l"

definition open_fds :: "history \<Rightarrow> fd list" where
  "open_fds tr = foldl fd_step [] tr"

lemma open_fds_snoc [simp]: "open_fds (tr @ [e]) = fd_step (open_fds tr) e"
  by (simp add: open_fds_def)

text \<open>A new descriptor is one that is not open.\<close>

definition kernel_fresh :: "kernel \<Rightarrow> bool" where
  "kernel_fresh K \<longleftrightarrow> (\<forall>tr d t p. k_socket K tr d t p \<notin> set (open_fds tr)) \<and>
     (\<forall>tr fd. k_accept K tr fd \<notin> set (open_fds tr))"

definition fds_of :: "client \<Rightarrow> fd list" where
  "fds_of c = client_connection c # (case server_connection c of None \<Rightarrow> [] | Some fd \<Rightarrow> [fd])"

definition owned :: "server \<Rightarrow> fd set" where
  "owned s = {fd. \<exists>i c. heap s i = Some c \<and> fd \<in> set (fds_of c)}"

definition owners_ok :: "server \<Rightarrow> bool" where
  "owners_ok s \<longleftrightarrow>
     (\<forall>n i. n < length (slots s) \<longrightarrow> slots s ! n = Some i \<longrightarrow>
        (\<exists>c. heap s i = Some c \<and> client_connection c = int n)) \<and>
     (\<forall>i c. heap s i = Some c \<longrightarrow> 0 \<le> client_connection c \<and> nat (client_connection c) < length (slots s) \<and>
        slots s ! nat (client_connection c) = Some i \<and> i < next_client s)"

text \<open>\<open>E\<close> is the set of descriptors that local variables hold.\<close>

definition fds_ok :: "fd set \<Rightarrow> server \<Rightarrow> bool" where
  "fds_ok E s \<longleftrightarrow>
     set (open_fds (trace s)) = insert (listen_fd (server_socket s)) (E \<union> owned s) \<and>
     listen_fd (server_socket s) \<notin> E \<union> owned s \<and> E \<inter> owned s = {} \<and>
     INVALID_SOCKET_FD \<notin> insert (listen_fd (server_socket s)) (E \<union> owned s) \<and>
     (\<forall>i c. heap s i = Some c \<longrightarrow> distinct (fds_of c)) \<and>
     (\<forall>i j c d. heap s i = Some c \<longrightarrow> heap s j = Some d \<longrightarrow> i \<noteq> j \<longrightarrow> set (fds_of c) \<inter> set (fds_of d) = {})"

definition requests_ok :: "server \<Rightarrow> bool" where
  "requests_ok s \<longleftrightarrow> (\<forall>k l. request_clients_map s k = Some l \<longrightarrow> distinct l \<and>
     (\<forall>i \<in> set l. \<exists>c. heap s i = Some c \<and> request_str c = k \<and> state c \<noteq> waiting_for_request))"

definition cache_ok :: "cache \<Rightarrow> bool" where
  "cache_ok c \<longleftrightarrow> cache_wf c \<and> max_size c = MAX_CACHE_SIZE"

definition server_inv :: "fd set \<Rightarrow> server \<Rightarrow> bool" where
  "server_inv E s \<longleftrightarrow> owners_ok s \<and> fds_ok E s \<and> requests_ok s \<and> cache_ok (the_cache s)"

section \<open>Updates that keep it\<close>

text \<open>An update of a client that leaves its descriptors and its place in the map alone.\<close>

definition harmless :: "(client \<Rightarrow> client) \<Rightarrow> bool" where
  "harmless f \<longleftrightarrow> (\<forall>c. fds_of (f c) = fds_of c \<and> request_str (f c) = request_str c \<and>
     (state (f c) = waiting_for_request \<longrightarrow> state c = waiting_for_request))"

lemma fds_of_client_connection: "fds_of c = fds_of d \<Longrightarrow> client_connection c = client_connection d"
  by (simp add: fds_of_def)

lemma owned_update:
  assumes "heap s i = Some c" "fds_of d = fds_of c"
  shows "owned (s\<lparr>heap := (heap s)(i \<mapsto> d)\<rparr>) = owned s"
proof (intro set_eqI iffI)
  fix x assume "x \<in> owned (s\<lparr>heap := (heap s)(i \<mapsto> d)\<rparr>)"
  then obtain j e where "((heap s)(i \<mapsto> d)) j = Some e" "x \<in> set (fds_of e)" by (auto simp: owned_def)
  then show "x \<in> owned s" using assms by (cases "j = i") (auto simp: owned_def)
next
  fix x assume "x \<in> owned s"
  then obtain j e where "heap s j = Some e" "x \<in> set (fds_of e)" by (auto simp: owned_def)
  then show "x \<in> owned (s\<lparr>heap := (heap s)(i \<mapsto> d)\<rparr>)"
    using assms by (cases "j = i") (auto simp: owned_def)
qed

lemma inv_update:
  assumes "server_inv E s" "heap s i = Some c" "fds_of d = fds_of c"
    "\<forall>k l. request_clients_map s k = Some l \<longrightarrow> i \<in> set l \<longrightarrow> request_str d = k \<and> state d \<noteq> waiting_for_request"
  shows "server_inv E (s\<lparr>heap := (heap s)(i \<mapsto> d)\<rparr>)"
proof -
  have "client_connection d = client_connection c" using assms(3) by (rule fds_of_client_connection)
  then have "owners_ok (s\<lparr>heap := (heap s)(i \<mapsto> d)\<rparr>)"
    using assms(1,2) by (simp add: server_inv_def owners_ok_def) (metis option.inject)
  moreover have "fds_ok E (s\<lparr>heap := (heap s)(i \<mapsto> d)\<rparr>)"
    using assms(1-3) owned_update [OF assms(2,3)] by (simp add: server_inv_def fds_ok_def)
  moreover have "requests_ok (s\<lparr>heap := (heap s)(i \<mapsto> d)\<rparr>)"
    using assms(1,4) by (fastforce simp: server_inv_def requests_ok_def)
  ultimately show ?thesis
    using assms(1) by (simp add: server_inv_def)
qed

lemma setC_harmless [keeps]:
  assumes "harmless f"
  shows "hoare (server_inv E) (setC i f) (\<lambda>_. server_inv E) (server_inv E)"
proof (rule hoare_setC)
  fix s c assume s: "server_inv E s" "heap s i = Some c"
  have "\<forall>k l. request_clients_map s k = Some l \<longrightarrow> i \<in> set l \<longrightarrow> request_str c = k \<and> state c \<noteq> waiting_for_request"
    using s by (fastforce simp: server_inv_def requests_ok_def)
  then show "server_inv E (s\<lparr>heap := (heap s)(i \<mapsto> f c)\<rparr>)"
    using s assms by (intro inv_update) (auto simp: harmless_def)
qed

lemma getC_keeps [keeps]: "hoare (server_inv E) (getC i f) (\<lambda>_. server_inv E) (server_inv E)"
  by (rule hoare_getC)

lemma get_keeps [keeps]: "hoare (server_inv E) (get f) (\<lambda>_. server_inv E) (server_inv E)"
  by (rule hoare_get)

lemma ret_keeps [keeps]: "hoare P (ret a) (\<lambda>_. P) X"
  by (simp add: hoare_def wp_simps)

lemma raise_keeps [keeps]: "hoare P (raise e) Q P"
  by (simp add: hoare_def wp_simps)

lemma undefined_keeps [keeps]: "hoare P undefined_behaviour Q X"
  by (simp add: hoare_def wp_simps)

lemma assert_keeps [keeps]: "hoare P (assertThat b) (\<lambda>_. P) X"
  by (simp add: hoare_def wp_simps)

lemmas keeps_rules = hoare_andThen [where R = "\<lambda>_. server_inv E" and X = "server_inv E" for E]
  hoare_tryCatch [where Y = "server_inv E" and X = "server_inv E" for E] hoare_forEach hoare_if hoare_option

text \<open>A system call that neither opens nor closes a descriptor.\<close>

fun neutral :: "event \<Rightarrow> bool" where
  "neutral (Ev_socket _) = False"
| "neutral (Ev_accept _ _) = False"
| "neutral (Ev_close _) = False"
| "neutral _ = True"

lemma fd_step_neutral: "neutral e \<Longrightarrow> fd_step l e = l"
  by (cases e) simp_all

lemma owned_frame [simp]:
  "owned (s\<lparr>trace := tr\<rparr>) = owned s" "owned (s\<lparr>the_cache := c\<rparr>) = owned s"
  "owned (s\<lparr>request_clients_map := m\<rparr>) = owned s" "owned (s\<lparr>slots := sl\<rparr>) = owned s"
  "owned (s\<lparr>is_running := b\<rparr>) = owned s" "owned (s\<lparr>next_client := n\<rparr>) = owned s"
  by (simp_all add: owned_def)

lemma inv_trace:
  assumes "server_inv E s" "neutral e"
  shows "server_inv E (s\<lparr>trace := trace s @ [e]\<rparr>)"
  using assms by (simp add: server_inv_def owners_ok_def fds_ok_def requests_ok_def fd_step_neutral)

lemma log_keeps [keeps]:
  "neutral e \<Longrightarrow> hoare (server_inv E) (log_event e) (\<lambda>_. server_inv E) (server_inv E)"
  unfolding log_event_def by (intro hoare_modify inv_trace)

section \<open>Descriptors opened, closed and moved\<close>

lemma owners_frame [simp]:
  "owners_ok (s\<lparr>trace := tr\<rparr>) = owners_ok s" "owners_ok (s\<lparr>the_cache := c\<rparr>) = owners_ok s"
  "owners_ok (s\<lparr>request_clients_map := m\<rparr>) = owners_ok s" "owners_ok (s\<lparr>is_running := b\<rparr>) = owners_ok s"
  by (simp_all add: owners_ok_def)

lemma requests_frame [simp]:
  "requests_ok (s\<lparr>trace := tr\<rparr>) = requests_ok s" "requests_ok (s\<lparr>the_cache := c\<rparr>) = requests_ok s"
  "requests_ok (s\<lparr>slots := sl\<rparr>) = requests_ok s" "requests_ok (s\<lparr>is_running := b\<rparr>) = requests_ok s"
  "requests_ok (s\<lparr>next_client := n\<rparr>) = requests_ok s"
  by (simp_all add: requests_ok_def)

lemma fds_frame [simp]:
  "fds_ok E (s\<lparr>the_cache := c\<rparr>) = fds_ok E s" "fds_ok E (s\<lparr>request_clients_map := m\<rparr>) = fds_ok E s"
  "fds_ok E (s\<lparr>slots := sl\<rparr>) = fds_ok E s" "fds_ok E (s\<lparr>is_running := b\<rparr>) = fds_ok E s"
  "fds_ok E (s\<lparr>next_client := n\<rparr>) = fds_ok E s"
  by (simp_all add: fds_ok_def)

lemma fds_ok_open:
  "fds_ok E s \<Longrightarrow> set (open_fds (trace s)) = insert (listen_fd (server_socket s)) (E \<union> owned s)"
  by (simp add: fds_ok_def)

lemma inv_open:
  assumes "server_inv E s" "socket_isValid fd" "fd \<notin> set (open_fds (trace s))" "fd_step (open_fds (trace s)) e = fd # open_fds (trace s)"
  shows "server_inv (insert fd E) (s\<lparr>trace := trace s @ [e]\<rparr>)"
proof -
  have fds: "fds_ok E s" "fd \<notin> insert (listen_fd (server_socket s)) (E \<union> owned s)"
    using assms(1,3) fds_ok_open [of E s] by (simp_all add: server_inv_def)
  then have "fds_ok (insert fd E) (s\<lparr>trace := trace s @ [e]\<rparr>)"
    using assms(2,4) by (simp add: fds_ok_def socket_isValid_def insert_commute)
  then show ?thesis using assms(1) by (simp add: server_inv_def)
qed

lemma inv_close:
  assumes "server_inv E s" "fd \<in> E"
  shows "server_inv (E - {fd}) (s\<lparr>trace := trace s @ [Ev_close fd]\<rparr>)"
proof -
  have fds: "fds_ok E s" using assms(1) by (simp add: server_inv_def)
  with assms(2) have "fd \<notin> owned s" "fd \<noteq> listen_fd (server_socket s)" unfolding fds_ok_def by blast+
  with fds have "fds_ok (E - {fd}) (s\<lparr>trace := trace s @ [Ev_close fd]\<rparr>)"
    unfolding fds_ok_def by (simp add: insert_Diff_if Un_Diff) blast
  with assms(1) show ?thesis by (simp add: server_inv_def)
qed

lemma inv_valid: "server_inv E s \<Longrightarrow> fd \<in> E \<Longrightarrow> socket_isValid fd"
  unfolding server_inv_def fds_ok_def socket_isValid_def by blast

lemma destroy_keeps:
  "fd \<in> E \<Longrightarrow> hoare (server_inv E) (socket_destroy fd) (\<lambda>_. server_inv (E - {fd})) X"
  by (simp add: hoare_def socket_destroy_def log_event_def wp_simps inv_valid inv_close)

lemma destroy_opt_keeps:
  "set_option co \<subseteq> E \<Longrightarrow> hoare (server_inv E) (destroy_opt co) (\<lambda>_. server_inv (E - set_option co)) X"
  using destroy_keeps [of _ E X] by (cases co) (auto simp: destroy_opt_def hoare_def wp_simps)

lemma tcp_socket_keeps:
  assumes "kernel_fresh K"
  shows "hoare (server_inv E) (tcp_socket K d t p) (\<lambda>fd s. fd \<notin> E \<and> server_inv (insert fd E) s) (server_inv E)"
proof (rule hoareI)
  fix s assume s: "server_inv E s"
  let ?fd = "k_socket K (trace s) d t p"
  have fresh: "?fd \<notin> set (open_fds (trace s))" using assms by (simp add: kernel_fresh_def)
  then have "?fd \<notin> E" using s fds_ok_open [of E s] by (simp add: server_inv_def)
  moreover have "server_inv (insert ?fd E) (s\<lparr>trace := trace s @ [Ev_socket ?fd]\<rparr>)" if "socket_isValid ?fd"
    using s that fresh by (intro inv_open) simp_all
  moreover have "server_inv E (s\<lparr>trace := trace s @ [Ev_socket ?fd]\<rparr>)" if "\<not> socket_isValid ?fd"
    using s that by (simp add: server_inv_def fds_ok_def)
  ultimately show "wp True (tcp_socket K d t p) (\<lambda>fd s. fd \<notin> E \<and> server_inv (insert fd E) s) (\<lambda>_. server_inv E) s"
    by (simp add: tcp_socket_def wp_simps log_event_def socket_isValid_def)
qed

lemma connect_keeps [keeps]:
  "hoare (server_inv E) (socket_connect K fd addr) (\<lambda>_. server_inv E) (server_inv E)"
  unfolding socket_connect_def by (intro keeps_rules keeps) simp_all

lemma getaddrinfo_keeps [keeps]:
  "hoare (server_inv E) (getaddrinfo K host service) (\<lambda>_. server_inv E) (server_inv E)"
  unfolding getaddrinfo_def by (intro keeps_rules keeps) simp_all

definition new_fd :: "fd set \<Rightarrow> fd \<Rightarrow> server \<Rightarrow> bool" where
  "new_fd E fd s \<longleftrightarrow> fd \<notin> E \<and> server_inv (insert fd E) s"

lemma connect_one_keeps:
  assumes "kernel_fresh K"
  shows "hoare (server_inv E) (andThen (active_create K p) (\<lambda>fd.
      andThen (onException (socket_connect K fd (ai_addr p)) (socket_destroy fd)) (\<lambda>_. ret (Some fd))))
    (\<lambda>res s. case res of None \<Rightarrow> server_inv E s | Some fd \<Rightarrow> new_fd E fd s) (server_inv E)"
  unfolding active_create_def
proof (rule hoare_andThen [OF tcp_socket_keeps [OF assms]])
  fix fd
  have close: "hoare (server_inv (insert fd E)) (andThen (socket_destroy fd) (\<lambda>_. raise e)) (\<lambda>_ :: unit. new_fd E fd)
      (server_inv E)" if "fd \<notin> E" for e
    using destroy_keeps [of fd "insert fd E" "server_inv E"] that
    by (intro hoare_andThen [where R = "\<lambda>_. server_inv E"] raise_keeps) simp
  have conn: "hoare (server_inv (insert fd E)) (onException (socket_connect K fd (ai_addr p)) (socket_destroy fd))
      (\<lambda>_. new_fd E fd) (server_inv E)" if "fd \<notin> E"
  proof (rule hoareI)
    fix s assume s: "server_inv (insert fd E) s"
    have "wp True (socket_connect K fd (ai_addr p)) (\<lambda>_. server_inv (insert fd E)) (\<lambda>_. server_inv (insert fd E)) s"
      using connect_keeps s by (rule hoareD)
    then show "wp True (onException (socket_connect K fd (ai_addr p)) (socket_destroy fd)) (\<lambda>_. new_fd E fd) (\<lambda>_. server_inv E) s"
      unfolding onException_def wp_tryCatch
      by (rule wp_mono) (use that close [THEN hoareD] in \<open>simp_all add: new_fd_def\<close>)
  qed
  show "hoare (\<lambda>s. fd \<notin> E \<and> server_inv (insert fd E) s)
      (andThen (onException (socket_connect K fd (ai_addr p)) (socket_destroy fd)) (\<lambda>_. ret (Some fd)))
      (\<lambda>res s. case res of None \<Rightarrow> server_inv E s | Some fd \<Rightarrow> new_fd E fd s) (server_inv E)"
    by (rule hoareI, unfold wp_andThen, elim conjE, rule wp_mono, rule conn [THEN hoareD])
      (simp_all add: wp_simps)
qed

lemma try_addresses_keeps:
  assumes "kernel_fresh K"
  shows "hoare (server_inv E) (try_addresses K ps)
    (\<lambda>res s. case res of None \<Rightarrow> server_inv E s | Some fd \<Rightarrow> new_fd E fd s) (server_inv E)"
proof (induction ps)
  case (Cons p ps)
  let ?Q = "\<lambda>res s. case res of None \<Rightarrow> server_inv E s | Some fd \<Rightarrow> new_fd E fd s"
  have rest: "hoare (?Q res) (case res of None \<Rightarrow> try_addresses K ps | Some fd \<Rightarrow> ret (Some fd)) ?Q (server_inv E)" for res
    using Cons.IH by (cases res) (simp_all add: hoare_def wp_simps)
  show ?case
    unfolding try_addresses.simps
    by (rule hoare_andThen [where R = ?Q], rule hoare_tryCatch [where Y = "server_inv E"],
        rule connect_one_keeps [OF assms]) (simp_all add: rest, simp add: hoare_def wp_simps)
qed (simp add: hoare_def wp_simps)

lemma connectToHost_keeps:
  assumes "kernel_fresh K"
  shows "hoare (server_inv E) (connectToHost K host service) (new_fd E) (server_inv E)"
proof -
  have valid: "new_fd E fd s \<Longrightarrow> socket_isValid fd" for fd s
    using inv_valid [of "insert fd E" s fd] by (simp add: new_fd_def)
  have "hoare (server_inv E) (andThen (try_addresses K infos) (\<lambda>res. case res of
      None \<Rightarrow> raise (cannot_connect host service)
    | Some fd \<Rightarrow> if socket_isValid fd then ret fd else raise (cannot_connect host service))) (new_fd E) (server_inv E)" for infos
    by (rule hoare_andThen [OF try_addresses_keeps [OF assms]])
      (auto simp: hoare_def wp_simps split: option.split dest: valid)
  then show ?thesis
    unfolding connectToHost_def
    by (intro hoare_andThen [OF getaddrinfo_keeps] hoare_option raise_keeps)
qed

section \<open>Server connections\<close>

text \<open>Giving a client another server connection, or none: the old one is now held by the caller.\<close>

lemma swap_sets:
  assumes "N \<subseteq> E" "x \<notin> P" "P \<inter> R = {}" "E \<inter> insert x (P \<union> R) = {}"
  shows "(E - N \<union> P) \<union> insert x (N \<union> R) = E \<union> insert x (P \<union> R)"
    "(E - N \<union> P) \<inter> insert x (N \<union> R) = {}"
  using assms by blast+

lemma inv_set_server:
  assumes "server_inv E s" "heap s i = Some c" "set_option new \<subseteq> E"
  shows "server_inv (E - set_option new \<union> set_option (server_connection c))
    (s\<lparr>heap := (heap s)(i \<mapsto> c\<lparr>server_connection := new\<rparr>)\<rparr>)" (is "server_inv ?E' ?s'")
proof -
  let ?d = "c\<lparr>server_connection := new\<rparr>"
  define R where "R = {fd. \<exists>j e. j \<noteq> i \<and> heap s j = Some e \<and> fd \<in> set (fds_of e)}"
  have fds: "fds_ok E s" using assms(1) by (simp add: server_inv_def)
  have d: "set (fds_of ?d) = insert (client_connection c) (set_option new)"
    "set (fds_of c) = insert (client_connection c) (set_option (server_connection c))"
    by (cases new, simp_all add: fds_of_def) (cases "server_connection c", simp_all)
  have own: "owned s = insert (client_connection c) (set_option (server_connection c) \<union> R)"
  proof -
    have "owned s = set (fds_of c) \<union> R"
      using assms(2) unfolding owned_def R_def by auto (metis option.inject)
    then show ?thesis using d(2) by simp
  qed
  have own': "owned ?s' = insert (client_connection c) (set_option new \<union> R)"
  proof -
    have "owned ?s' = set (fds_of ?d) \<union> R" unfolding owned_def R_def by auto
    then show ?thesis using d(1) by simp
  qed
  have dist: "client_connection c \<notin> set_option (server_connection c)"
  proof -
    have "distinct (fds_of c)" using fds assms(2) unfolding fds_ok_def by blast
    then show ?thesis by (cases "server_connection c") (simp_all add: fds_of_def)
  qed
  have new: "set_option new \<inter> owned s = {}" using fds assms(3) by (auto simp: fds_ok_def)
  have other: "set (fds_of c) \<inter> set (fds_of e) = {}" if "heap s j = Some e" "j \<noteq> i" for j e
    using fds assms(2) that unfolding fds_ok_def by metis
  then have old: "set_option (server_connection c) \<inter> R = {}" using d(2) by (auto simp: R_def)
  have mine: "set (fds_of e) \<subseteq> owned s" if "heap s j = Some e" for j e using that by (auto simp: owned_def)
  have E: "E \<inter> owned s = {}" using fds by (simp add: fds_ok_def)
  note swap = swap_sets [OF assms(3) dist old E [unfolded own], folded own own']
  have "?E' \<union> owned ?s' = E \<union> owned s" by (rule swap(1))
  moreover have "?E' \<inter> owned ?s' = {}" by (rule swap(2))
  moreover have "distinct (fds_of ?d)"
    using new mine [OF assms(2)] d by (cases new) (auto simp: fds_of_def)
  moreover have "set (fds_of ?d) \<inter> set (fds_of e) = {}" if "heap s j = Some e" "j \<noteq> i" for j e
    using other [OF that] mine [OF that(1)] new d by blast
  ultimately have "fds_ok ?E' ?s'"
    using fds unfolding fds_ok_def by (simp del: Un_iff) (metis Int_commute)
  moreover have "owners_ok ?s'"
    using assms(1,2) by (simp add: server_inv_def owners_ok_def) (metis option.inject)
  moreover have "requests_ok ?s'"
    using assms(1,2) by (fastforce simp: server_inv_def requests_ok_def)
  ultimately show ?thesis using assms(1) by (simp add: server_inv_def)
qed

lemma swap_server_connection:
  assumes "set_option new \<subseteq> E"
  shows "hoare (\<lambda>s. (\<exists>c. heap s i = Some c \<and> server_connection c = old) \<and> server_inv E s)
    (setC i (\<lambda>c. c\<lparr>server_connection := new\<rparr>)) (\<lambda>_. server_inv (E - set_option new \<union> set_option old)) X"
  by (rule hoare_setC) (use inv_set_server [OF _ _ assms] in auto)

lemma getC_server_connection:
  "hoare (server_inv E) (getC i server_connection)
    (\<lambda>old s. (\<exists>c. heap s i = Some c \<and> server_connection c = old) \<and> server_inv E s) X"
  by (rule hoare_getC) simp

lemma destroy_old_keeps:
  "hoare (server_inv (set_option old)) (destroy_opt old) (\<lambda>_. server_inv {}) X"
  using destroy_opt_keeps [of old "set_option old" X] by simp

lemma obtainServerConnection_keeps [keeps]:
  "hoare (server_inv {}) (obtainServerConnection i other) (\<lambda>_. server_inv {}) (server_inv {})"
proof -
  have take: "hoare (\<lambda>s. (\<exists>c. heap s other = Some c \<and> server_connection c = conn) \<and> server_inv {} s)
      (setC other (\<lambda>c. c\<lparr>server_connection := None\<rparr>)) (\<lambda>_. server_inv (set_option conn)) X" for conn X
    using swap_server_connection [of None "{}" other conn X] by simp
  have give: "hoare (\<lambda>s. (\<exists>c. heap s i = Some c \<and> server_connection c = old) \<and> server_inv (set_option conn) s)
      (setC i (\<lambda>c. c\<lparr>server_connection := conn\<rparr>)) (\<lambda>_. server_inv (set_option old)) X" for conn old X
    using swap_server_connection [of conn "set_option conn" i old X] by simp
  show ?thesis
    unfolding obtainServerConnection_def
    by (intro hoare_andThen [OF getC_server_connection] hoare_andThen [OF take] hoare_andThen [OF give]
        hoare_andThen [OF destroy_old_keeps] setC_harmless) (simp add: harmless_def fds_of_def)
qed

lemma accessor_keeps:
  "hoare P (httpPort v) (\<lambda>_. P) X" "hoare P (hostname v') (\<lambda>_. P) X'" "hoare P (path v') (\<lambda>_. P) X'"
  by (simp_all add: hoare_def httpPort_def hostname_def path_def scheme_def wp_simps)

text \<open>A client that has left \<open>waiting_for_request\<close>.\<close>

definition busy :: "client_id \<Rightarrow> server \<Rightarrow> bool" where
  "busy i s \<longleftrightarrow> (\<forall>c. heap s i = Some c \<longrightarrow> state c \<noteq> waiting_for_request)"

lemma prepareForSendingRequest_busy:
  assumes "kernel_fresh K"
  shows "hoare (server_inv {}) (prepareForSendingRequest K i) (\<lambda>_ s. server_inv {} s \<and> busy i s) (server_inv {})"
proof -
  have conn: "hoare (server_inv {}) (connectToHost K host service) (\<lambda>fd. server_inv {fd}) (server_inv {})" for host service
    by (rule hoare_conseq [OF connectToHost_keeps [OF assms]]) (simp_all add: new_fd_def)
  have give: "hoare (\<lambda>s. (\<exists>c. heap s i = Some c \<and> server_connection c = old) \<and> server_inv {fd} s)
      (setC i (\<lambda>c. c\<lparr>server_connection := Some fd\<rparr>)) (\<lambda>_. server_inv (set_option old)) X" for fd old X
    using swap_server_connection [of "Some fd" "{fd}" i old X] by simp
  have set: "hoare (server_inv {}) (setC i (\<lambda>c. c\<lparr>state := sending_request\<rparr>)) (\<lambda>_ s. server_inv {} s \<and> busy i s) (server_inv {})"
    using setC_harmless [of "\<lambda>c. c\<lparr>state := sending_request\<rparr>" "{}" i]
    by (auto simp: hoare_def wp_setC busy_def harmless_def fds_of_def split: option.splits)
  show ?thesis
    unfolding prepareForSendingRequest_def
    by (intro hoare_andThen [OF getC_keeps] hoare_andThen [OF accessor_keeps(1)] hoare_andThen [OF accessor_keeps(2)]
        hoare_andThen [OF conn] hoare_andThen [OF getC_server_connection] hoare_andThen [OF give]
        hoare_andThen [OF destroy_old_keeps] set)
qed

lemma prepareForSendingRequest_keeps:
  assumes "kernel_fresh K"
  shows "hoare (server_inv {}) (prepareForSendingRequest K i) (\<lambda>_. server_inv {}) (server_inv {})"
  by (rule hoare_conseq [OF prepareForSendingRequest_busy [OF assms]]) auto

end
