(* ===== verification/Http_Request_Correct.thy ===== *)
theory Http_Request_Correct
  imports Http_Request
begin

text \<open>
  What the proxy forwards: the request rebuilt by \<open>toString\<close> is again a well-formed request with
  the header map of the original less the removed names, no byte of a client can add a line to
  it, and it forgets the authority, the query and the body of what the client asked for.
\<close>

section \<open>Parsing in one step\<close>

lemma forEach_modify: "forEach xs (\<lambda>x. modify (f x)) s = Done () (fold f xs s)"
  by (induction xs arbitrary: s) (simp_all add: ret_def andThen_def modify_def)

lemma fold_headers:
  "fold (\<lambda>i h. h\<lparr>rq_headers := keep_header i (rq_headers h)\<rparr>) hs h =
    h\<lparr>rq_headers := keep_headers hs (rq_headers h)\<rparr>"
  by (induction hs arbitrary: h) (simp_all add: keep_headers_def)

lemma http_request_parse_completed:
  assumes "consume str HttpRequestParser = Result ParsingCompleted p" "url_parse (r_uri (req p)) (rq_url h) = Done b v"
  shows "http_request_parse str h = Done () (h\<lparr>versionMajor := r_versionMajor (req p),
    versionMinor := r_versionMinor (req p), rq_method := r_method (req p), rq_url := v,
    rq_headers := keep_headers (r_headers (req p)) (rq_headers h)\<rparr>)"
  using assms
  by (simp add: http_request_parse_def parseRequestStr_def andThen_def ret_def modify_def zoom_def
      forEach_modify [unfolded modify_def] fold_headers)

lemma http_request_new_Done:
  assumes "http_request_new str s = Done h s'"
  obtains p b where "consume str HttpRequestParser = Result ParsingCompleted p"
    "url_parse (r_uri (req p)) (rq_url HttpRequest) = Done b (rq_url h)" "s' = s"
    "versionMajor h = r_versionMajor (req p)" "versionMinor h = r_versionMinor (req p)"
    "rq_method h = r_method (req p)" "rq_headers h = keep_headers (r_headers (req p)) []"
proof -
  from assms obtain u where u: "http_request_parse str HttpRequest = Done u h" "s' = s"
    by (auto simp: http_request_new_def split: outcome.splits)
  then obtain p where p: "consume str HttpRequestParser = Result ParsingCompleted p"
    by (auto simp: http_request_parse_def parseRequestStr_def andThen_def raise_def
        undefined_behaviour_def split: req_exit.splits if_splits)
  from u(1) p obtain b v where v: "url_parse (r_uri (req p)) (rq_url HttpRequest) = Done b v"
    by (cases "url_parse (r_uri (req p)) (rq_url HttpRequest)")
      (auto simp: http_request_parse_def parseRequestStr_def andThen_def ret_def modify_def zoom_def HttpRequest_def)
  have "h = HttpRequest\<lparr>versionMajor := r_versionMajor (req p), versionMinor := r_versionMinor (req p),
      rq_method := r_method (req p), rq_url := v, rq_headers := keep_headers (r_headers (req p)) (rq_headers HttpRequest)\<rparr>"
    using http_request_parse_completed [OF p v] u(1) by simp
  with that [OF p _ u(2)] v show thesis by (simp add: HttpRequest_def)
qed

lemma http_request_parse_returns: "http_request_parse str h \<noteq> Hang"
proof -
  have "url_parse v p \<noteq> Hang" for v p using url_parse_cases [of v p] by auto
  then show ?thesis
    by (auto simp: http_request_parse_def parseRequestStr_def zoom_def andThen_def modify_def ret_def raise_def
        undefined_behaviour_def forEach_modify [unfolded modify_def] split: req_exit.splits outcome.splits)
qed

section \<open>The characters of a path come from the input\<close>

lemma url_step_path:
  assumes "url_step c s = Continue s'" "list_all P (url_path (u s))" "P c"
  shows "list_all P (url_path (u s'))"
  using assms by (cases "ustate s"; simp add: url_step.simps [of c s] invalid_def split: if_splits; clarsimp)

lemma run_url_path:
  assumes "run_scan url_step xs s = Continue s'" "list_all P (url_path (u s))" "list_all P xs"
  shows "list_all P (url_path (u s'))"
  using assms
proof (induction xs arbitrary: s)
  case (Cons c xs)
  then obtain t where t: "url_step c s = Continue t" by (cases "url_step c s") auto
  with Cons.prems have "run_scan url_step xs t = Continue s'" "list_all P xs" by simp_all
  with Cons.IH [of t] url_step_path [OF t] Cons.prems show ?case by simp
qed simp

lemma valid_uri_first:
  assumes "url_parse (c # cs) p = Done True p'"
  shows "c \<noteq> SP"
proof
  assume "c = SP"
  then have "url_step c url_start = Return (Invalid (url_start\<lparr>u := Url\<rparr>))"
    by (simp add: url_step.simps [of _ url_start] ctype_defs) (simp add: url_start_def invalid_def)
  with assms show False
    by (simp add: url_parse_def url_finish_def andThen_def assertThat_def ret_def modify_def get_def url_start_def)
qed

lemma uri_char_slash [simp]: "uri_char CHR ''/''"
  by (simp add: uri_char_def isControl_code char_code_def)

lemma valid_path_chars:
  assumes "url_parse str p = Done True p'" "uri_ok str"
  shows "list_all uri_char (url_path (the_url p'))"
proof -
  obtain s where s: "run_scan url_step str url_start = Continue s"
    "p' = p\<lparr>valid := True, the_url := (if usernameOrHostname s = [] then u s
        else (u s)\<lparr>url_hostname := usernameOrHostname s\<rparr>)\<rparr>"
    using assms(1) by (rule url_parse_True)
  have "list_all uri_char str"
  proof (cases str)
    case (Cons c cs)
    then have "c \<noteq> SP" using valid_uri_first assms(1) by blast
    with Cons assms(2) show ?thesis by (simp add: uri_ok_def uri_char_def)
  qed simp
  then have "list_all uri_char (url_path (u s))"
    using run_url_path [OF s(1)] by (simp add: url_start_def Url_def)
  then show ?thesis using s(2) by simp
qed

section \<open>Every parsed request is safe to forward\<close>

definition header_of :: "string \<times> string \<Rightarrow> header_item" where
  "header_of kv = \<lparr>hname = fst kv, hvalue = snd kv\<rparr>"

definition forwarded_header_ok :: "string \<times> string \<Rightarrow> bool" where
  "forwarded_header_ok kv \<longleftrightarrow> header_ok (header_of kv) \<and> fst kv \<notin> set HEADERS_TO_REMOVE \<and>
     (fst kv = ''Connection'' \<longrightarrow> snd kv = ''close'')"

definition forwardable :: "http_request \<Rightarrow> bool" where
  "forwardable h \<longleftrightarrow> rq_method h \<noteq> [] \<and> list_all isToken (rq_method h) \<and> in_int (versionMajor h) \<and>
     in_int (versionMinor h) \<and> headers_sorted (rq_headers h) \<and> (\<forall>kv \<in> set (rq_headers h). forwarded_header_ok kv) \<and>
     (isValid (rq_url h) \<longrightarrow> url_wf (the_url (rq_url h)) \<and> list_all uri_char (url_path (the_url (rq_url h))))"

lemma close_chars: "list_all value_char ''close''"
  by (simp add: value_char_def isControl_code char_code_def)

lemma keep_header_ok:
  assumes "header_ok i" "\<forall>kv \<in> set m. forwarded_header_ok kv"
  shows "\<forall>kv \<in> set (keep_header i m). forwarded_header_ok kv"
proof -
  have "forwarded_header_ok (hname i, if hname i = ''Connection'' then ''close'' else hvalue i)"
    if "hname i \<notin> set HEADERS_TO_REMOVE"
    using assms(1) that close_chars by (simp add: forwarded_header_ok_def header_ok_def header_of_def)
  then show ?thesis
    using assms(2) insert_or_assign_items [of "hname i" "''close''" m] insert_or_assign_items [of "hname i" "hvalue i" m]
    by (auto simp: keep_header_def split: if_splits)
qed

lemma keep_headers_ok:
  assumes "list_all header_ok hs" "\<forall>kv \<in> set m. forwarded_header_ok kv"
  shows "\<forall>kv \<in> set (keep_headers hs m). forwarded_header_ok kv"
  using assms
proof (induction hs arbitrary: m)
  case (Cons h hs)
  have "\<forall>kv \<in> set (keep_header h m). forwarded_header_ok kv"
    using Cons.prems by (intro keep_header_ok) simp_all
  with Cons.IH [of "keep_header h m"] Cons.prems(1) show ?case by (simp add: keep_headers_def)
qed (simp add: keep_headers_def)

lemma http_request_new_forwardable:
  assumes "http_request_new str s = Done h s'"
  shows "forwardable h"
proof -
  obtain p b where p: "consume str HttpRequestParser = Result ParsingCompleted p"
    "url_parse (r_uri (req p)) (rq_url HttpRequest) = Done b (rq_url h)"
    "versionMajor h = r_versionMajor (req p)" "versionMinor h = r_versionMinor (req p)"
    "rq_method h = r_method (req p)" "rq_headers h = keep_headers (r_headers (req p)) []"
    using assms by (rule http_request_new_Done)
  have wf: "request_wf (req p)" "r_method (req p) \<noteq> []"
    using consume_good [OF HttpRequestParser_inv, of str] p(1) by (simp_all add: exit_good_def)
  have "b = isValid (rq_url h)"
    using url_parse_cases [of "r_uri (req p)" "rq_url HttpRequest"] p(2) by auto
  then have "isValid (rq_url h) \<Longrightarrow> url_parse (r_uri (req p)) (rq_url HttpRequest) = Done True (rq_url h)"
    using p(2) by simp
  then have "isValid (rq_url h) \<longrightarrow> url_wf (the_url (rq_url h)) \<and> list_all uri_char (url_path (the_url (rq_url h)))"
    using url_parse_wf valid_path_chars wf(1) unfolding request_wf_def by blast
  moreover have "\<forall>kv \<in> set (rq_headers h). forwarded_header_ok kv"
    using keep_headers_ok [of "r_headers (req p)" "[]"] wf(1) p(6) by (simp add: request_wf_def)
  moreover have "headers_sorted (rq_headers h)"
    using keep_headers_sorted [of "[]"] p(6) by (simp add: headers_sorted_def)
  ultimately show ?thesis
    using wf p(3-5) by (simp add: forwardable_def request_wf_def)
qed

section \<open>The request written out\<close>

lemma show_int_nonneg: "0 \<le> i \<Longrightarrow> show_int i = show_nat (nat i)"
  by (simp add: show_int_def)

lemma inspect_header_of: "inspect_header (header_of kv) = header_line kv"
  by (simp add: inspect_header_def header_of_def header_line_def)

lemma toString_valid:
  assumes "forwardable h" "isValid (rq_url h)"
  shows "toString h s = Done (render_request (rq_method h) (url_path (the_url (rq_url h))) (nat (versionMajor h))
    (nat (versionMinor h)) (map header_of (rq_headers h)) @ CRLF) s"
  using assms
  by (simp add: toString_def path_def andThen_def assertThat_def ret_def render_request_def comp_def
      inspect_header_of show_int_nonneg forwardable_def in_int_def)

lemma toString_invalid: "\<not> isValid (rq_url h) \<Longrightarrow> toString h s = Abort"
  by (simp add: toString_def path_def andThen_def assertThat_def call_abort_def)

lemma uri_chars_ok: "list_all uri_char v \<Longrightarrow> uri_ok v"
  by (cases v) (simp_all add: uri_ok_def uri_char_def)

lemma forwardable_parts:
  assumes "forwardable h" "isValid (rq_url h)" "versionMajor h + 48 \<le> INT_MAX" "versionMinor h + 48 \<le> INT_MAX"
  shows "request_parts_ok (rq_method h) (url_path (the_url (rq_url h))) (nat (versionMajor h))
    (nat (versionMinor h)) (map header_of (rq_headers h))"
proof -
  have wf: "url_wf (the_url (rq_url h))" "list_all uri_char (url_path (the_url (rq_url h)))"
    "in_int (versionMajor h)" "in_int (versionMinor h)" "\<forall>kv \<in> set (rq_headers h). forwarded_header_ok kv"
    "rq_method h \<noteq> []" "list_all isToken (rq_method h)"
    using assms(1,2) unfolding forwardable_def by blast+
  have "url_path (the_url (rq_url h)) \<noteq> []" using wf(1) unfolding url_wf_def by blast
  moreover have "list_all header_ok (map header_of (rq_headers h))"
    using wf(5) by (simp add: forwarded_header_ok_def list_all_iff)
  moreover have "version_ok (nat (versionMajor h))" "version_ok (nat (versionMinor h))"
    using assms(3,4) wf(3,4) by (simp_all add: version_ok_def in_int_def)
  ultimately show ?thesis
    using wf(6,7) uri_chars_ok [OF wf(2)] unfolding request_parts_ok_def by blast
qed

text \<open>Without a body to announce, what is written parses back to exactly what is kept.\<close>

lemma forwarded_parses:
  assumes "forwardable h" "isValid (rq_url h)" "versionMajor h + 48 \<le> INT_MAX" "versionMinor h + 48 \<le> INT_MAX"
    "\<not> takes_body (rq_method h) \<or> list_all no_body_header (map header_of (rq_headers h))"
  shows "\<exists>str p. toString h s = Done str s \<and> consume str HttpRequestParser = Result ParsingCompleted p \<and>
    req p = request_of (rq_method h) (url_path (the_url (rq_url h))) (nat (versionMajor h)) (nat (versionMinor h))
      (map header_of (rq_headers h)) []"
proof -
  obtain p where p: "consume (render_request (rq_method h) (url_path (the_url (rq_url h))) (nat (versionMajor h))
      (nat (versionMinor h)) (map header_of (rq_headers h)) @ CRLF) HttpRequestParser = Result ParsingCompleted p"
    "req p = request_of (rq_method h) (url_path (the_url (rq_url h))) (nat (versionMajor h)) (nat (versionMinor h))
      (map header_of (rq_headers h)) []"
    using consume_no_body [OF forwardable_parts [OF assms(1-4)] assms(5), where rest = CRLF] by (elim exE conjE)
  show ?thesis
    by (intro exI conjI, rule toString_valid [OF assms(1,2)], rule p(1), rule p(2))
qed

text \<open>
  With \<open>Content-Length\<close> the header is forwarded and the body is not: the receiver is left
  waiting for the body, of which it only ever sees the two bytes of the extra \<open>CRLF\<close>.
\<close>

lemma run_post_short:
  assumes "pstate p = Post" "length xs < unat (contentSize p)"
  shows "\<exists>p'. run_scan req_step xs p = Continue p' \<and> pstate p' = Post"
  using assms
proof (induction xs arbitrary: p)
  case (Cons x xs)
  let ?p1 = "p\<lparr>contentSize := contentSize p - 1, req := (req p)\<lparr>r_content := r_content (req p) @ [x]\<rparr>\<rparr>"
  have n: "unat (contentSize p - 1) = unat (contentSize p) - 1"
    using Cons.prems(2) size_t_sub [of 1 "contentSize p"] by simp
  then have "contentSize p - 1 \<noteq> 0" using Cons.prems(2) by (cases "contentSize p - 1 = 0") simp_all
  then have "req_step x p = Continue ?p1"
    using Cons.prems(1) by (simp add: req_step_defs push_content_def upd_def Let_def)
  with Cons.IH [of ?p1] n Cons.prems show ?case by simp
qed simp

lemma consume_missing_body:
  assumes parts: "request_parts_ok m v ma mi (hs1 @ h # hs2)" and m: "takes_body m"
    and hs: "list_all no_body_header (hs1 @ hs2)" and h: "is_content_length h"
    and n: "int (length rest) < atoi (hvalue h)"
  shows "\<exists>p. consume (render_request m v ma mi (hs1 @ h # hs2) @ rest) HttpRequestParser = Result ParsingIncompleted p"
proof -
  let ?hs = "hs1 @ h # hs2" let ?p = "after_headers m v ma mi ?hs"
  have ok: "takes_body m \<longrightarrow> list_all content_length_ok ?hs"
    using content_length_ok_parts [OF hs, of h] n by (simp add: content_length_ok_def)
  have m': "takes_body (r_method (req (HttpRequestParser\<lparr>pstate := HeaderLineStart, req := with_line m v ma mi\<rparr>)))"
    using m by (simp add: with_line_def)
  have cnt: "contentSize ?p = word_of_int (atoi (hvalue h))" "chunked ?p = False" "pstate ?p = HeaderLineStart"
    using fold_content_length [OF hs h m'] by (simp_all add: after_headers_def HttpRequestParser_def)
  have size: "length rest < unat (contentSize ?p)"
  proof -
    obtain k where k: "atoi (hvalue h) = int k" using n by (cases "atoi (hvalue h)") auto
    then show ?thesis using cnt(1) n atoi_bounds(2) [of "hvalue h"] by simp
  qed
  then have nz: "contentSize ?p \<noteq> 0" by auto
  let ?p1 = "?p\<lparr>pstate := Post, req := (req ?p)\<lparr>r_keepAlive := keep_alive (req ?p)\<rparr>\<rparr>"
  have nl: "run_scan req_step CRLF ?p = Continue ?p1"
    using cnt(2,3) nz by (simp add: CRLF_def req_step_def req_step_header_def goto_def upd_def)
  obtain p' where post: "run_scan req_step rest ?p1 = Continue p'"
    using run_post_short [of ?p1 rest] size by auto
  have "run_scan req_step ((render_line m v ma mi @ concat (map inspect_header ?hs)) @ CRLF @ rest) HttpRequestParser =
      Continue p'"
    using run_to_headers [OF parts ok] nl post
    by (simp only: run_scan_append [of _ "render_line m v ma mi @ concat (map inspect_header ?hs)"]
        run_scan_append [of _ CRLF] scan.case)
  then have "consume (render_request m v ma mi ?hs @ rest) HttpRequestParser = Result ParsingIncompleted p'"
    by (simp add: consume_def render_request_eq)
  then show ?thesis by blast
qed

section \<open>From the client's request to the forwarded one\<close>

lemma forward_request:
  assumes "url_parts_ok sch host po pa qu" "request_parts_ok m (render_url sch host po pa qu fr) ma mi hs"
    "\<not> takes_body m \<or> list_all no_body_header hs"
  shows "\<exists>h. http_request_new (render_request m (render_url sch host po pa qu fr) ma mi hs @ rest) s = Done h s \<and>
    isValid (rq_url h) \<and> rq_method h = m \<and> versionMajor h = int ma \<and> versionMinor h = int mi \<and>
    the_url (rq_url h) = url_of sch host po pa qu fr \<and> rq_headers h = keep_headers hs []"
proof -
  obtain p where p: "consume (render_request m (render_url sch host po pa qu fr) ma mi hs @ rest) HttpRequestParser =
      Result ParsingCompleted p" "req p = request_of m (render_url sch host po pa qu fr) ma mi hs []"
    using consume_no_body [OF assms(2,3), where rest = rest] by blast
  have "url_parse (r_uri (req p)) (rq_url HttpRequest) =
      Done True ((rq_url HttpRequest)\<lparr>valid := True, the_url := url_of sch host po pa qu fr\<rparr>)"
    using url_parse_render [OF assms(1)] p(2) by (simp add: request_of_def)
  from http_request_parse_completed [OF p(1) this] show ?thesis
    by (simp add: http_request_new_def p(2) request_of_def isValid_def HttpRequest_def)
qed

lemma forward_string:
  assumes "url_parts_ok sch host po pa qu" "request_parts_ok m (render_url sch host po pa qu fr) ma mi hs"
    "\<not> takes_body m \<or> list_all no_body_header hs"
  shows "\<exists>h. http_request_new (render_request m (render_url sch host po pa qu fr) ma mi hs @ rest) s = Done h s \<and>
    toString h s = Done (render_request m (CHR ''/'' # pa) ma mi (map header_of (keep_headers hs [])) @ CRLF) s"
proof -
  obtain h where h: "http_request_new (render_request m (render_url sch host po pa qu fr) ma mi hs @ rest) s = Done h s"
    "isValid (rq_url h)" "rq_method h = m" "versionMajor h = int ma" "versionMinor h = int mi"
    "the_url (rq_url h) = url_of sch host po pa qu fr" "rq_headers h = keep_headers hs []"
    using forward_request [OF assms, where rest = rest and s = s] by (elim exE conjE)
  have "toString h s = Done (render_request m (CHR ''/'' # pa) ma mi (map header_of (keep_headers hs [])) @ CRLF) s"
    using toString_valid [OF http_request_new_forwardable [OF h(1)] h(2), of s] h(3-7) by (simp add: url_of_def)
  with h(1) show ?thesis by blast
qed

text \<open>A target in origin form is accepted by the constructor, and \<open>toString\<close> then aborts.\<close>

lemma relative_target:
  assumes "request_parts_ok m (CHR ''/'' # pa) ma mi hs" "\<not> takes_body m \<or> list_all no_body_header hs"
  shows "\<exists>h. http_request_new (render_request m (CHR ''/'' # pa) ma mi hs @ rest) s = Done h s \<and> toString h s = Abort"
proof -
  obtain p where p: "consume (render_request m (CHR ''/'' # pa) ma mi hs @ rest) HttpRequestParser =
      Result ParsingCompleted p" "req p = request_of m (CHR ''/'' # pa) ma mi hs []"
    using consume_no_body [OF assms, where rest = rest] by blast
  have "url_parse (r_uri (req p)) (rq_url HttpRequest) =
      Done False ((rq_url HttpRequest)\<lparr>valid := False, the_url := Url\<rparr>)"
    using p(2) by (simp add: request_of_def url_parse_relative)
  from http_request_parse_completed [OF p(1) this]
  have "\<exists>h. http_request_new (render_request m (CHR ''/'' # pa) ma mi hs @ rest) s = Done h s \<and> \<not> isValid (rq_url h)"
    by (simp only: http_request_new_def outcome.case outcome.inject) (simp add: isValid_def)
  then obtain h where h: "http_request_new (render_request m (CHR ''/'' # pa) ma mi hs @ rest) s = Done h s"
    "\<not> isValid (rq_url h)" by (elim exE conjE)
  show ?thesis by (intro exI conjI, rule h(1), rule toString_invalid [OF h(2)])
qed

end
