(* ===== verification/Server_Safety.thy ===== *)
theory Server_Safety
  imports Server_Invariant Http_Request_Correct
begin

text \<open>
  Every handler of \<open>server.cpp\<close> keeps the safety invariant: first the operations on the cache,
  the sockets and the request map, then discarding and accepting a client, then the
  handlers and one turn of the event loop.
\<close>

abbreviation safe :: "server \<Rightarrow> bool" where
  "safe \<equiv> server_inv {}"

abbreviation preserves :: "'a server_act \<Rightarrow> bool" where
  "preserves m \<equiv> hoare safe m (\<lambda>_. safe) safe"

text \<open>What the manual pages promise of the kernel, and freed keys that still read as they were.\<close>

definition kernel_safe :: "kernel \<Rightarrow> bool" where
  "kernel_safe K \<longleftrightarrow> kernel_ok K \<and> kernel_fresh K \<and> intact (k_freed K)"

lemma hoare_pure: "(b \<Longrightarrow> hoare P m Q X) \<Longrightarrow> hoare (\<lambda>s. P s \<and> b) m Q X"
  by (auto simp: hoare_def)

lemma hoare_conj:
  assumes "hoare P m Q X" "hoare P' m Q' X'"
  shows "hoare (\<lambda>s. P s \<and> P' s) m (\<lambda>a s. Q a s \<and> Q' a s) (\<lambda>s. X s \<and> X' s)"
  using assms by (auto simp: hoare_def wp_def split: outcome.splits)

lemmas preserves_rules = hoare_andThen [where R = "\<lambda>_. safe" and X = safe]
  hoare_tryCatch [where Y = safe and X = safe] hoare_forEach hoare_if hoare_option

section \<open>Cache operations\<close>

lemma onCache_preserves:
  assumes "\<And>c. cache_ok c \<Longrightarrow> wp True m (\<lambda>_. cache_ok) (\<lambda>_. cache_ok) c"
  shows "preserves (onCache m)"
proof (rule hoareI)
  fix s assume s: "safe s"
  then have "wp True m (\<lambda>_. cache_ok) (\<lambda>_. cache_ok) (the_cache s)" using assms by (simp add: server_inv_def)
  then show "wp True (onCache m) (\<lambda>_. safe) (\<lambda>_. safe) s"
    unfolding onCache_def wp_zoom by (rule wp_mono) (use s in \<open>simp_all add: server_inv_def\<close>)
qed

lemma call_keeps_ok:
  assumes "intact af" "\<And>c. call_fits call c" "cache_ok c"
  shows "wp True (run_call af call) (\<lambda>_. cache_ok) (\<lambda>_. cache_ok) c"
  using run_call_wf [of c af call] assms by (auto simp: cache_ok_def wp_def split: outcome.splits)

lemma onCache_calls [keeps]:
  "intact af \<Longrightarrow> preserves (onCache (disuseEntry af key))"
  "preserves (onCache (useEntry key))"
  "preserves (onCache (completeEntry key))"
  "intact af \<Longrightarrow> length buf < 2 ^ 64 \<Longrightarrow> preserves (onCache (cache_write af key buf))"
  using call_keeps_ok [of af "CallDisuse key"] call_keeps_ok [of "Some" "CallUse key"]
    call_keeps_ok [of "Some" "CallComplete key"] call_keeps_ok [of af "CallWrite key buf"]
  by (auto simp: intact_def intro!: onCache_preserves)

lemma onCache_getEntry [keeps]: "preserves (onCache (getEntry key))"
proof (rule onCache_preserves)
  fix c assume "cache_ok c"
  then have "wp True (run_call Some (CallGetEntry key)) (\<lambda>_. cache_ok) (\<lambda>_. cache_ok) c"
    by (intro call_keeps_ok) (simp_all add: intact_def)
  then show "wp True (getEntry key) (\<lambda>_. cache_ok) (\<lambda>_. cache_ok) c"
    unfolding run_call.simps wp_andThen by (rule wp_mono) (simp_all add: wp_ret)
qed

lemma onCache_deref [keeps]: "preserves (onCache (deref ref))"
  by (rule onCache_preserves) (simp add: deref_def wp_def split: option.split)

lemma onCache_read [keeps]: "preserves (onCache (cache_read key offset len))"
proof (rule onCache_preserves)
  fix c assume wf: "cache_ok c"
  then have "wp True (run_call Some (CallGetEntry key)) (\<lambda>_. cache_ok) (\<lambda>_. cache_ok) c"
    by (intro call_keeps_ok) (simp_all add: intact_def)
  then have "wp True (makeMostRecentlyUsed key) (\<lambda>_. cache_ok) (\<lambda>_. cache_ok) c"
    by (auto simp: getEntry_def andThen_def wp_def ret_def split: outcome.splits option.splits)
  then show "wp True (cache_read key offset len) (\<lambda>_. cache_ok) (\<lambda>_. cache_ok) c"
    unfolding cache_read_def wp_andThen
    by (rule wp_mono) (simp_all add: back_entry_def deref_def wp_def ret_def undefined_behaviour_def
        split: option.split)
qed

section \<open>Socket operations\<close>

lemma send_preserves [keeps]:
  "preserves (send_bytes K fd data)" "preserves (send_string K fd str)"
  unfolding send_string_def send_bytes_def
  by (auto intro!: preserves_rules keeps hoare_get split: option.split)

lemma shutdown_preserves [keeps]: "preserves (shutdownWrite K fd)"
  unfolding shutdownWrite_def by (auto intro!: preserves_rules keeps hoare_get)

lemma receive_keeps:
  assumes "kernel_ok K"
  shows "hoare safe (receive K fd n) (\<lambda>bs s. safe s \<and> length bs \<le> n) safe"
proof -
  have "k_recv K tr fd n = Some bs \<Longrightarrow> length bs \<le> n" for tr bs using assms by (simp add: kernel_ok_def)
  then show ?thesis
    by (auto simp: receive_def hoare_def wp_simps log_event_def inv_trace split: option.split)
qed

section \<open>The request map\<close>

definition absent :: "client_id \<Rightarrow> server \<Rightarrow> bool" where
  "absent i s \<longleftrightarrow> (\<forall>k l. request_clients_map s k = Some l \<longrightarrow> i \<notin> set l)"

lemma map_at_preserves [keeps]: "preserves (map_at key)"
  by (auto simp: hoare_def wp_def map_at_def server_inv_def requests_ok_def split: option.split)

lemma hasClients_preserves [keeps]: "preserves (get (hasClientsWithRequest key))"
  by (rule get_keeps)

lemma remove_if_client_value:
  "hoare (\<lambda>s. s = s0) (remove_if_client i l) (\<lambda>l' s. s = s0 \<and> l' = filter (\<lambda>j. j \<noteq> i) l) X"
proof (induction l arbitrary: X)
  case (Cons j js)
  have rest: "wp True (remove_if_client i js) (\<lambda>l' s. s = s0 \<and> l' = filter (\<lambda>j. j \<noteq> i) js) (\<lambda>_. X) s0"
    using Cons.IH by (simp add: hoare_def)
  have "wp True (andThen (remove_if_client i js) (\<lambda>rest. ret (if same then rest else j # rest)))
      (\<lambda>l' s. s = s0 \<and> l' = filter (\<lambda>j. j \<noteq> i) (j # js)) (\<lambda>_. X) s0" if "same \<longleftrightarrow> i = j" for same
    unfolding wp_andThen by (rule wp_mono [OF rest]) (use that in \<open>auto simp: wp_simps\<close>)
  then show ?case
    unfolding hoare_def remove_if_client.simps client_eq_def by (cases "j = i") (auto simp: wp_andThen [of _ "getC i f" for i f]
        wp_andThen [of _ "andThen m f" for m f] wp_getC wp_ret split: option.split)
qed (simp add: hoare_def wp_simps)

lemma getC_known: "hoare P (getC i f) (\<lambda>v s. P s \<and> (\<exists>c. heap s i = Some c \<and> f c = v)) X"
  by (rule hoare_getC) auto

lemma map_at_value:
  "hoare P (map_at key) (\<lambda>l s. request_clients_map s key = Some l) X"
  by (auto simp: hoare_def wp_def map_at_def split: option.split)

lemma map_at_keeps_heap:
  "safe s \<Longrightarrow> \<exists>l s1. map_at key s = Done l s1 \<and> safe s1 \<and> request_clients_map s1 key = Some l \<and> heap s1 = heap s"
  by (auto simp: map_at_def server_inv_def requests_ok_def split: option.split)

lemma inv_map_filter:
  assumes "safe s" "request_clients_map s key = Some l"
  shows "safe (s\<lparr>request_clients_map := (request_clients_map s)(key \<mapsto> filter P l)\<rparr>)"
  using assms unfolding server_inv_def requests_ok_def by auto

lemma removed_absent:
  assumes "safe s" "heap s i = Some c" "request_clients_map s (request_str c) = Some l"
  shows "absent i (s\<lparr>request_clients_map := (request_clients_map s)(request_str c \<mapsto> filter (\<lambda>j. j \<noteq> i) l)\<rparr>)"
  using assms by (fastforce simp: absent_def server_inv_def requests_ok_def)

lemma removeFromRequestClients_keeps:
  "hoare safe (removeFromRequestClients i) (\<lambda>_ s. safe s \<and> absent i s) safe"
proof (rule hoareI)
  fix s assume s: "safe s"
  show "wp True (removeFromRequestClients i) (\<lambda>_ s. safe s \<and> absent i s) (\<lambda>_. safe) s"
  proof (cases "heap s i")
    case None
    then show ?thesis by (simp add: removeFromRequestClients_def wp_simps)
  next
    case (Some c)
    obtain l s1 where s1: "map_at (request_str c) s = Done l s1" "safe s1"
      "request_clients_map s1 (request_str c) = Some l" "heap s1 = heap s"
      using map_at_keeps_heap [OF s] by blast
    have "wp True (remove_if_client i l) (\<lambda>l' s. s = s1 \<and> l' = filter (\<lambda>j. j \<noteq> i) l) (\<lambda>_. safe) s1"
      using remove_if_client_value by (rule hoareD) simp
    then have "wp True (andThen (remove_if_client i l) (map_set (request_str c))) (\<lambda>_ s. safe s \<and> absent i s) (\<lambda>_. safe) s1"
      unfolding wp_andThen
      by (rule wp_mono) (use s1 Some inv_map_filter removed_absent [of s1] in \<open>simp_all add: map_set_def wp_modify\<close>)
    moreover have "removeFromRequestClients i s = andThen (remove_if_client i l) (map_set (request_str c)) s1"
      using Some s1(1) by (simp add: removeFromRequestClients_def andThen_def getC_def)
    ultimately show ?thesis by (simp add: wp_def)
  qed
qed

section \<open>Operations that leave the request map alone\<close>

named_theorems frames \<open>what leaves the request map alone\<close>

lemma absent_frame [simp]:
  "absent i (s\<lparr>heap := h\<rparr>) = absent i s" "absent i (s\<lparr>trace := tr\<rparr>) = absent i s"
  "absent i (s\<lparr>the_cache := c\<rparr>) = absent i s"
  by (simp_all add: absent_def)

abbreviation leaves_out :: "client_id \<Rightarrow> 'a server_act \<Rightarrow> bool" where
  "leaves_out i m \<equiv> hoare (absent i) m (\<lambda>_. absent i) (absent i)"

lemma frame_setC [frames]: "leaves_out i (setC j f)"
  by (simp add: hoare_def wp_setC split: option.split)

lemma frame_log [frames]: "leaves_out i (log_event e)"
  by (simp add: hoare_def wp_modify log_event_def)

lemma frame_map_at [frames]: "leaves_out i (map_at key)"
  by (auto simp: hoare_def wp_def map_at_def absent_def split: option.split)

lemma frame_onCache: "(\<And>c. m c \<noteq> Hang) \<Longrightarrow> leaves_out i (onCache m)"
  by (auto simp: hoare_def wp_def onCache_def zoom_def split: outcome.split)

lemma cache_calls_return: "disuseEntry af key c \<noteq> Hang" "useEntry key c \<noteq> Hang"
  by (auto simp: cache_op_defs act_defs split: option.splits outcome.splits key_ref.splits if_splits)

lemmas frame_calls [frames] = frame_onCache [OF cache_calls_return(1)] frame_onCache [OF cache_calls_return(2)]

lemma frame_value [frames]:
  "leaves_out i (getC j g)" "leaves_out i (get g')" "leaves_out i (ret a)" "leaves_out i (raise e)"
  by (auto simp: hoare_def wp_simps split: option.split)

lemmas frame_rules = hoare_andThen [where R = "\<lambda>_. absent i" and X = "absent i" for i] hoare_if hoare_option

lemma find_reading_frame [frames]: "leaves_out i (find_reading l)"
  by (induction l) (auto intro!: frame_rules frames)

lemma destroy_frame [frames]: "leaves_out i (destroy_opt co)"
  by (cases co) (auto simp: destroy_opt_def socket_destroy_def intro!: frame_rules frames)

lemma obtain_frame [frames]: "leaves_out i (obtainServerConnection j k)"
  unfolding obtainServerConnection_def by (intro frame_rules frames)

lemma find_reading_preserves [keeps]: "preserves (find_reading l)"
  by (induction l) (auto intro!: preserves_rules keeps)

section \<open>Discarding a client\<close>

lemma set_open_closes: "set (open_fds (tr @ map Ev_close l)) = set (open_fds tr) - set l"
proof (induction l rule: rev_induct)
  case (snoc x xs)
  have "open_fds (tr @ map Ev_close (xs @ [x])) = removeAll x (open_fds (tr @ map Ev_close xs))"
    using open_fds_snoc [of "tr @ map Ev_close xs" "Ev_close x"] by simp
  then show ?case using snoc.IH by auto
qed simp

lemma owned_remove:
  assumes "fds_ok {} s" "heap s i = Some c"
  shows "owned (s\<lparr>heap := (heap s)(i := None)\<rparr>) = owned s - set (fds_of c)"
proof -
  have "set (fds_of c) \<inter> set (fds_of d) = {}" if "heap s j = Some d" "j \<noteq> i" for j d
    using assms that unfolding fds_ok_def by metis
  then show ?thesis
    using assms(2) unfolding owned_def by auto (metis disjoint_iff option.inject)
qed

definition without_client :: "client_id \<Rightarrow> client \<Rightarrow> server \<Rightarrow> server" where
  "without_client i c s = s\<lparr>slots := (slots s)[nat (client_connection c) := None],
     trace := trace s @ map Ev_close (rev (fds_of c)), heap := (heap s)(i := None)\<rparr>"

lemma without_client_safe:
  assumes "safe s" "heap s i = Some c" "absent i s"
  shows "safe (without_client i c s)"
proof -
  have fds: "fds_ok {} s" and own: "owners_ok s" and req: "requests_ok s" and wf: "cache_ok (the_cache s)"
    using assms(1) by (simp_all add: server_inv_def)
  have sub: "set (fds_of c) \<subseteq> owned s" using assms(2) by (auto simp: owned_def)
  have rest: "owned (without_client i c s) = owned s - set (fds_of c)"
    using owned_remove [OF fds assms(2)] by (simp add: without_client_def owned_def)
  have opens: "set (open_fds (trace (without_client i c s))) = set (open_fds (trace s)) - set (fds_of c)"
    using set_open_closes [of "trace s" "rev (fds_of c)"] by (simp add: without_client_def)
  have L: "listen_fd (server_socket s) \<notin> set (fds_of c)" using fds sub by (auto simp: fds_ok_def)
  have "fds_ok {} (without_client i c s)"
    using fds rest opens L unfolding fds_ok_def by (auto simp: without_client_def split: if_splits)
  moreover have "owners_ok (without_client i c s)"
  proof -
    have c: "0 \<le> client_connection c" "nat (client_connection c) < length (slots s)"
      "slots s ! nat (client_connection c) = Some i"
      using own assms(2) by (auto simp: owners_ok_def)
    have ne: "nat (client_connection d) \<noteq> nat (client_connection c)" if "heap s j = Some d" "j \<noteq> i" for j d
      using own that c unfolding owners_ok_def by (metis option.inject)
    have unique: "slots s ! n = Some i \<Longrightarrow> n < length (slots s) \<Longrightarrow> n = nat (client_connection c)" for n
      using own assms(2) unfolding owners_ok_def by (metis nat_int option.inject)
    have slot: "\<exists>d. heap (without_client i c s) j = Some d \<and> client_connection d = int n"
      if len: "n < length (slots s)" and at: "slots (without_client i c s) ! n = Some j" for n j
    proof -
      have n: "n \<noteq> nat (client_connection c)" "slots s ! n = Some j"
        using at c(2) by (auto simp: without_client_def nth_list_update split: if_splits)
      then have "j \<noteq> i" using unique len by blast
      moreover obtain d where "heap s j = Some d" "client_connection d = int n"
        using own n(2) len unfolding owners_ok_def by blast
      ultimately show ?thesis by (simp add: without_client_def)
    qed
    have live: "0 \<le> client_connection d \<and> nat (client_connection d) < length (slots s) \<and>
        slots (without_client i c s) ! nat (client_connection d) = Some j \<and> j < next_client s"
      if "heap (without_client i c s) j = Some d" for j d
    proof -
      have j: "j \<noteq> i" "heap s j = Some d" using that by (auto simp: without_client_def split: if_splits)
      then have "0 \<le> client_connection d \<and> nat (client_connection d) < length (slots s) \<and>
          slots s ! nat (client_connection d) = Some j \<and> j < next_client s"
        using own unfolding owners_ok_def by blast
      with ne [OF j(2,1)] show ?thesis by (simp add: without_client_def)
    qed
    have "length (slots (without_client i c s)) = length (slots s)" "next_client (without_client i c s) = next_client s"
      by (simp_all add: without_client_def)
    with slot live show ?thesis unfolding owners_ok_def by metis
  qed
  moreover have "requests_ok (without_client i c s)"
    using req assms(3) unfolding requests_ok_def absent_def without_client_def by fastforce
  ultimately show ?thesis
    using wf by (simp add: server_inv_def without_client_def)
qed

lemma clients_discardClient_run:
  assumes "safe s" "heap s i = Some c"
  shows "clients_discardClient i s = Done () (without_client i c s)"
proof -
  have c: "0 \<le> client_connection c" "nat (client_connection c) < length (slots s)"
      "slots s ! nat (client_connection c) = Some i"
    using assms by (auto simp: server_inv_def owners_ok_def)
  have valid: "socket_isValid fd" if "fd \<in> set (fds_of c)" for fd
    using assms that unfolding server_inv_def fds_ok_def socket_isValid_def owned_def by blast
  have v: "socket_isValid (client_connection c)" "\<And>fd. server_connection c = Some fd \<Longrightarrow> socket_isValid fd"
    using valid by (simp_all add: fds_of_def)
  show ?thesis
    using c assms(2) v
    by (cases "server_connection c")
      (simp_all add: clients_discardClient_def assign_slot_def slot_at_def client_destroy_def destroy_opt_def
        socket_destroy_def log_event_def andThen_def getC_def modify_def ret_def without_client_def fds_of_def)
qed

lemma clients_discardClient_keeps:
  "hoare (\<lambda>s. safe s \<and> absent i s) (clients_discardClient i) (\<lambda>_. safe) safe"
proof (rule hoareI)
  fix s assume s: "safe s \<and> absent i s"
  show "wp True (clients_discardClient i) (\<lambda>_. safe) (\<lambda>_. safe) s"
  proof (cases "heap s i")
    case None
    then show ?thesis by (simp add: clients_discardClient_def wp_simps)
  next
    case (Some c)
    then show ?thesis using s clients_discardClient_run without_client_safe by (simp add: wp_def)
  qed
qed

lemma discardClient_preserves:
  assumes "intact (k_freed K)"
  shows "preserves (discardClient K i)"
proof -
  let ?P = "\<lambda>s. safe s \<and> absent i s"
  have both: "hoare ?P m (\<lambda>_. ?P) safe" if "preserves m" "leaves_out i m" for m :: "'a server_act"
    by (rule hoare_conseq [OF hoare_conj [OF that]]) auto
  have tail: "hoare ?P (andThen (onCache (disuseEntry (k_freed K) key)) (\<lambda>_. clients_discardClient i)) (\<lambda>_. safe) safe" for key
    by (intro hoare_andThen [OF both] keeps frames assms clients_discardClient_keeps)
  show ?thesis
    unfolding discardClient_def
    by (intro hoare_andThen [where R = "\<lambda>_. safe", OF getC_keeps]
        hoare_andThen [where R = "\<lambda>_. safe", OF map_at_preserves]
        hoare_andThen [OF removeFromRequestClients_keeps] hoare_andThen [OF both] tail)
      (intro keeps preserves_rules frames frame_rules)+
qed

section \<open>Accepting a client\<close>

lemma socket_accept_keeps:
  assumes "kernel_fresh K"
  shows "hoare safe (socket_accept K ps) (\<lambda>fd. server_inv {fd}) safe"
proof (rule hoareI)
  fix s assume s: "safe s"
  let ?fd = "k_accept K (trace s) (listen_fd ps)"
  have "?fd \<notin> set (open_fds (trace s))" using assms by (simp add: kernel_fresh_def)
  then have "server_inv {?fd} (s\<lparr>trace := trace s @ [Ev_accept (listen_fd ps) ?fd]\<rparr>)" if "socket_isValid ?fd"
    using s that by (intro inv_open) simp_all
  moreover have "safe (s\<lparr>trace := trace s @ [Ev_accept (listen_fd ps) ?fd]\<rparr>)" if "\<not> socket_isValid ?fd"
    using s that by (simp add: server_inv_def fds_ok_def)
  ultimately show "wp True (socket_accept K ps) (\<lambda>fd. server_inv {fd}) (\<lambda>_. safe) s"
    by (simp add: socket_accept_def wp_simps log_event_def socket_isValid_def)
qed

definition with_client :: "fd \<Rightarrow> server \<Rightarrow> server" where
  "with_client fd s = s\<lparr>heap := (heap s)(next_client s \<mapsto> client_create fd), next_client := Suc (next_client s),
     slots := (slots s)[nat fd := Some (next_client s)]\<rparr>"

lemma owned_with_client:
  assumes "heap s (next_client s) = None"
  shows "owned (with_client fd s) = insert fd (owned s)"
proof -
  have "owned (with_client fd s) \<subseteq> insert fd (owned s)"
    unfolding owned_def with_client_def by (auto simp: client_create_def fds_of_def split: if_splits)
  moreover have "owned s \<subseteq> owned (with_client fd s)"
    using assms unfolding owned_def with_client_def by auto (metis option.discI)
  moreover have "fd \<in> owned (with_client fd s)"
    unfolding owned_def with_client_def by (auto simp: client_create_def fds_of_def intro: exI [of _ "next_client s"])
  ultimately show ?thesis by auto
qed

lemma with_client_safe:
  assumes "server_inv {fd} s" "0 \<le> fd" "nat fd < length (slots s)" "slots s ! nat fd = None"
  shows "safe (with_client fd s)"
proof -
  have fds: "fds_ok {fd} s" and own: "owners_ok s" and req: "requests_ok s" and wf: "cache_ok (the_cache s)"
    using assms(1) by (simp_all add: server_inv_def)
  have new: "heap s (next_client s) = None" using own unfolding owners_ok_def by (metis not_Some_eq less_irrefl)
  have live: "(if i = next_client s then d = client_create fd else heap s i = Some d)"
    if "heap (with_client fd s) i = Some d" for i d
    using that by (auto simp: with_client_def split: if_splits)
  have mine: "set (fds_of d) \<subseteq> owned s" if "heap s i = Some d" for i d using that by (auto simp: owned_def)
  have new_fds: "fds_of (client_create fd) = [fd]" by (simp add: fds_of_def client_create_def)
  have free: "fd \<notin> owned s" using fds by (simp add: fds_ok_def)
  have "fds_ok {} (with_client fd s)"
  proof -
    have "distinct (fds_of d)" if "heap (with_client fd s) i = Some d" for i d
      using live [OF that] fds new_fds unfolding fds_ok_def by (metis distinct_singleton)
    moreover have "set (fds_of c) \<inter> set (fds_of d) = {}"
      if "heap (with_client fd s) i = Some c" "heap (with_client fd s) j = Some d" "i \<noteq> j" for i j c d
      using live [OF that(1)] live [OF that(2)] that(3) fds new_fds free mine
      by (auto simp: fds_ok_def split: if_splits)
    moreover have "server_socket (with_client fd s) = server_socket s" "trace (with_client fd s) = trace s"
      by (simp_all add: with_client_def)
    ultimately show ?thesis
      using fds owned_with_client [OF new, of fd] unfolding fds_ok_def by (simp add: Un_commute)
  qed
  moreover have "owners_ok (with_client fd s)"
  proof -
    have "\<exists>d. heap (with_client fd s) j = Some d \<and> client_connection d = int n"
      if len: "n < length (slots s)" and at: "slots (with_client fd s) ! n = Some j" for n j
    proof (cases "n = nat fd")
      case True
      then show ?thesis using at assms(2,3) by (simp add: with_client_def client_create_def)
    next
      case False
      then have j: "slots s ! n = Some j" using at by (simp add: with_client_def)
      then obtain d where "heap s j = Some d" "client_connection d = int n"
        using own len unfolding owners_ok_def by blast
      then show ?thesis using new by (auto simp: with_client_def)
    qed
    moreover have "0 \<le> client_connection d \<and> nat (client_connection d) < length (slots s) \<and>
        slots (with_client fd s) ! nat (client_connection d) = Some j \<and> j < Suc (next_client s)"
      if "heap (with_client fd s) j = Some d" for j d
    proof (cases "j = next_client s")
      case True
      then show ?thesis using live [OF that] assms(2,3) by (simp add: client_create_def with_client_def)
    next
      case False
      then have d: "heap s j = Some d" using live [OF that] by simp
      have "0 \<le> client_connection d" "nat (client_connection d) < length (slots s)"
        "slots s ! nat (client_connection d) = Some j" "j < next_client s"
        using own d unfolding owners_ok_def by blast+
      moreover from this have "nat (client_connection d) \<noteq> nat fd" using assms(4) by auto
      ultimately show ?thesis by (simp add: with_client_def)
    qed
    moreover have "length (slots (with_client fd s)) = length (slots s)"
      "next_client (with_client fd s) = Suc (next_client s)"
      by (simp_all add: with_client_def)
    ultimately show ?thesis unfolding owners_ok_def by metis
  qed
  moreover have "requests_ok (with_client fd s)"
    using req new unfolding requests_ok_def with_client_def by fastforce
  ultimately show ?thesis using wf by (simp add: server_inv_def with_client_def)
qed

lemma clients_acceptClient_run:
  assumes "server_inv {fd} s"
  shows "clients_acceptClient fd s = Done () (with_client fd s) \<and> safe (with_client fd s) \<or> clients_acceptClient fd s = Undef"
proof (cases "0 \<le> fd \<and> nat fd < length (slots s)")
  case False
  then show ?thesis
    by (auto simp: clients_acceptClient_def assign_slot_def slot_at_def andThen_def get_def modify_def)
next
  case True
  have "slots s ! nat fd = None"
  proof (rule ccontr)
    assume "slots s ! nat fd \<noteq> None"
    then obtain i c where "heap s i = Some c" "client_connection c = fd"
      using assms True unfolding server_inv_def owners_ok_def by (metis int_nat_eq not_Some_eq)
    then have "fd \<in> owned s" by (auto simp: owned_def fds_of_def)
    then show False using assms by (simp add: server_inv_def fds_ok_def)
  qed
  then show ?thesis
    using True with_client_safe [OF assms]
    by (simp add: clients_acceptClient_def assign_slot_def slot_at_def andThen_def get_def modify_def ret_def with_client_def)
qed

lemma clients_acceptClient_keeps:
  "hoare (server_inv {fd}) (clients_acceptClient fd) (\<lambda>_. safe) X"
  using clients_acceptClient_run by (fastforce simp: hoare_def wp_def)

lemma acceptClient_preserves:
  "kernel_fresh K \<Longrightarrow> preserves (server_acceptClient K)"
  unfolding server_acceptClient_def
  by (intro hoare_andThen [OF get_keeps] hoare_andThen [OF socket_accept_keeps] clients_acceptClient_keeps)

section \<open>Reading a request\<close>

lemma receive_any:
  assumes "\<And>s fd n res. I s \<Longrightarrow> I (s\<lparr>trace := trace s @ [Ev_recv fd n res]\<rparr>)" "I s"
  shows "wp True (receive K fd n) (\<lambda>_. I) (\<lambda>_. I) s"
  using assms by (auto simp: receive_def wp_simps log_event_def split: option.split)

lemma read_loop_any:
  assumes "\<And>s fd n res. I s \<Longrightarrow> I (s\<lparr>trace := trace s @ [Ev_recv fd n res]\<rparr>)" "I s"
  shows "wp True (read_loop K fd written mem) (\<lambda>_. I) (\<lambda>_. I) s"
  using assms(2)
proof (induction K fd written mem s rule: read_loop.induct)
  case (1 K fd written mem s)
  have recv: "wp True (receive K fd BUFSIZ) (\<lambda>_. I) (\<lambda>_. I) s"
    using receive_any [OF assms(1) "1.prems"] .
  show ?case
  proof (cases "receive K fd BUFSIZ s")
    case (Done buf t)
    then have t: "I t" using recv by (simp add: wp_def)
    show ?thesis
      using Done t "1.IH" [OF Done]
      unfolding wp_def read_loop.simps [of K fd written mem s] by (auto split: option.split)
  next
    case (Raise e t)
    then show ?thesis using recv by (simp add: wp_def read_loop.simps [of K fd written mem s])
  qed (use recv in \<open>simp_all add: wp_def read_loop.simps [of K fd written mem s]\<close>)
qed

lemma http_request_new_keeps: "hoare P (http_request_new str) (\<lambda>_. P) P"
  using http_request_parse_returns [of str HttpRequest]
  by (simp add: hoare_def wp_def http_request_new_def split: outcome.split)

lemma toString_keeps: "hoare P (toString h) (\<lambda>_. P) P"
  unfolding toString_def by (intro hoare_andThen [OF accessor_keeps(3)] ret_keeps)

abbreviation fresh_client :: "client_id \<Rightarrow> server \<Rightarrow> bool" where
  "fresh_client i s \<equiv> safe s \<and> absent i s"

lemma set_request_str_keeps:
  "hoare (fresh_client i) (setC i (\<lambda>c. c\<lparr>request_str := str\<rparr>)) (\<lambda>_. fresh_client i) safe"
proof (rule hoare_setC)
  fix s c assume s: "fresh_client i s" "heap s i = Some c"
  then have "safe (s\<lparr>heap := (heap s)(i \<mapsto> c\<lparr>request_str := str\<rparr>)\<rparr>)"
    by (intro inv_update) (auto simp: absent_def fds_of_def)
  with s show "fresh_client i (s\<lparr>heap := (heap s)(i \<mapsto> c\<lparr>request_str := str\<rparr>)\<rparr>)" by simp
qed

lemma fresh_client_keeps:
  assumes "preserves m" "leaves_out i m"
  shows "hoare (fresh_client i) m (\<lambda>_. fresh_client i) safe"
  by (rule hoare_conseq [OF hoare_conj [OF assms]]) auto

lemma getHttpRequest_keeps:
  "hoare (fresh_client i) (getHttpRequest K i) (\<lambda>_. fresh_client i) safe"
proof -
  have "hoare (fresh_client i) (readHttpRequest K fd) (\<lambda>_. fresh_client i) (fresh_client i)" for fd
    unfolding readHttpRequest_def
    by (rule hoare_andThen [where R = "\<lambda>_. fresh_client i"], rule hoare_get, assumption,
        rule hoareI, rule read_loop_any) (simp_all add: inv_trace)
  then have read: "hoare (fresh_client i) (readHttpRequest K fd) (\<lambda>_. fresh_client i) safe" for fd
    by (rule hoare_conseq) auto
  have new: "hoare (fresh_client i) (http_request_new str) (\<lambda>_. fresh_client i) safe" for str
    by (rule hoare_conseq [OF http_request_new_keeps [where P = "fresh_client i"]]) auto
  have str: "hoare (fresh_client i) (toString h) (\<lambda>_. fresh_client i) safe" for h
    by (rule hoare_conseq [OF toString_keeps [where P = "fresh_client i"]]) auto
  have fd: "hoare (fresh_client i) (getC i client_connection) (\<lambda>_. fresh_client i) safe"
    by (rule hoare_getC)
  have req: "hoare (fresh_client i) (setC i (\<lambda>c. c\<lparr>request := h\<rparr>)) (\<lambda>_. fresh_client i) safe" for h
    by (intro fresh_client_keeps setC_harmless frames) (simp add: harmless_def fds_of_def)
  show ?thesis
    unfolding getHttpRequest_def
    by (intro hoare_andThen [OF fd] hoare_andThen [OF read] hoare_andThen [OF new] hoare_andThen [OF req]
        hoare_andThen [OF str] set_request_str_keeps)
qed

text \<open>Out of \<open>waiting_for_request\<close>, and into the map.\<close>

lemma set_state_busy:
  "st \<noteq> waiting_for_request \<Longrightarrow> hoare (\<lambda>_. True) (setC i (\<lambda>c. c\<lparr>state := st\<rparr>)) (\<lambda>_. busy i) X"
  by (rule hoare_setC) (simp add: busy_def)

lemma set_read_busy: "hoare (busy i) (setC i (\<lambda>c. c\<lparr>should_read_from_cache := b\<rparr>)) (\<lambda>_. busy i) X"
  by (rule hoare_setC) (simp add: busy_def)

lemma useEntry_busy: "hoare (busy i) (onCache (useEntry key)) (\<lambda>_. busy i) (\<lambda>_. True)"
  using cache_calls_return(2)
  by (auto simp: hoare_def wp_def onCache_def zoom_def busy_def split: outcome.split)

lemma setClient_busy: "hoare (\<lambda>_. True) (setClientToGetResponseFromCache i) (\<lambda>_. busy i) (\<lambda>_. True)"
proof -
  have "hoare (busy i) (getC i request_str) (\<lambda>_. busy i) (\<lambda>_. True)" by (rule hoare_getC)
  then show ?thesis
    unfolding setClientToGetResponseFromCache_def
    by (intro hoare_andThen [OF set_state_busy] hoare_andThen [where R = "\<lambda>_. busy i"] useEntry_busy set_read_busy) simp_all
qed

lemma setClient_preserves [keeps]: "preserves (setClientToGetResponseFromCache i)"
  unfolding setClientToGetResponseFromCache_def
  by (intro preserves_rules keeps) (simp_all add: harmless_def fds_of_def)

lemma setClient_frame [frames]: "leaves_out i (setClientToGetResponseFromCache j)"
  unfolding setClientToGetResponseFromCache_def by (intro frame_rules frames)

lemma tcp_socket_frame [frames]: "leaves_out i (tcp_socket K d t p)"
  unfolding tcp_socket_def by (intro frame_rules frames)

lemma connect_frame [frames]: "leaves_out i (socket_connect K fd addr)"
  unfolding socket_connect_def by (intro frame_rules frames)

lemma getaddrinfo_frame [frames]: "leaves_out i (getaddrinfo K host service)"
  unfolding getaddrinfo_def by (intro frame_rules frames)

lemma socket_destroy_frame [frames]: "leaves_out i (socket_destroy fd)"
  unfolding socket_destroy_def by (intro frame_rules frames)

lemma tryCatch_frame:
  "leaves_out i m \<Longrightarrow> (\<And>e. leaves_out i (h e)) \<Longrightarrow> leaves_out i (tryCatch p m h)"
  by (rule hoare_tryCatch)

lemma try_addresses_frame [frames]: "leaves_out i (try_addresses K ps)"
  by (induction ps) (auto simp: active_create_def onException_def intro!: frame_rules frames tryCatch_frame)

lemma connectToHost_frame [frames]: "leaves_out i (connectToHost K host service)"
  unfolding connectToHost_def by (intro frame_rules frames)

lemma prepare_frame [frames]: "leaves_out i (prepareForSendingRequest K j)"
  unfolding prepareForSendingRequest_def
  by (intro hoare_andThen [OF accessor_keeps(1)] hoare_andThen [OF accessor_keeps(2)] frame_rules frames)

end
