(* ===== verification/Server_Handlers.thy ===== *)
theory Server_Handlers
  imports Server_Safety
begin

text \<open>
  The safety invariant through the handlers, the event loop and every state a run of the proxy
  reaches.
\<close>

section \<open>Reading a request\<close>

lemma addToRequestClients_keeps:
  "hoare (\<lambda>s. fresh_client i s \<and> busy i s) (addToRequestClients i) (\<lambda>_. safe) safe"
proof (rule hoareI)
  fix s assume s: "fresh_client i s \<and> busy i s"
  show "wp True (addToRequestClients i) (\<lambda>_. safe) (\<lambda>_. safe) s"
  proof (cases "heap s i")
    case (Some c)
    have "safe (s\<lparr>request_clients_map := (request_clients_map s)(request_str c \<mapsto> l @ [i])\<rparr>)"
      if "case request_clients_map s (request_str c) of None \<Rightarrow> l = [] | Some l' \<Rightarrow> l' = l" for l
      using s Some that unfolding server_inv_def requests_ok_def absent_def busy_def
      by (auto split: option.splits)
    then show ?thesis
      using Some by (auto simp: addToRequestClients_def wp_simps map_set_def split: option.split)
  qed (simp add: addToRequestClients_def wp_simps)
qed

lemma choose_source_keeps:
  assumes "kernel_fresh K"
  shows "hoare (fresh_client i) (if cached then setClientToGetResponseFromCache i
      else if has then setC i (\<lambda>c. c\<lparr>state := waiting_for_response_for_another_client\<rparr>)
      else prepareForSendingRequest K i) (\<lambda>_ s. fresh_client i s \<and> busy i s) safe"
proof -
  have all: "hoare (fresh_client i) m (\<lambda>_ s. fresh_client i s \<and> busy i s) safe"
    if "preserves m" "leaves_out i m" "hoare (\<lambda>_. True) m (\<lambda>_. busy i) (\<lambda>_. True)" for m :: "unit server_act"
    by (rule hoare_conseq [OF hoare_conj [OF hoare_conj [OF that(1,2)] that(3)]]) auto
  have prep: "hoare (fresh_client i) (prepareForSendingRequest K i) (\<lambda>_ s. fresh_client i s \<and> busy i s) safe"
    by (rule hoare_conseq [OF hoare_conj [OF prepareForSendingRequest_busy [OF assms] prepare_frame]]) auto
  show ?thesis
    by (intro hoare_if prep all keeps frames setClient_busy set_state_busy) (simp_all add: harmless_def fds_of_def)
qed

lemma readRequestFromClient_keeps:
  assumes "kernel_safe K"
  shows "hoare (fresh_client i) (readRequestFromClient K i) (\<lambda>_. safe) safe"
proof -
  have K: "kernel_fresh K" "intact (k_freed K)" using assms by (simp_all add: kernel_safe_def)
  have look: "hoare (fresh_client i) (getC i request_str) (\<lambda>_. fresh_client i) safe"
    "hoare (fresh_client i) (get f) (\<lambda>_. fresh_client i) safe" for f :: "server \<Rightarrow> bool"
    by (rule hoare_getC hoare_get, assumption)+
  show ?thesis
    unfolding readRequestFromClient_def
    by (intro hoare_tryCatch [where Y = safe] hoare_andThen [OF getHttpRequest_keeps] hoare_andThen [OF look(1)]
        hoare_andThen [OF look(2)] hoare_andThen [OF choose_source_keeps [OF K(1)]] addToRequestClients_keeps
        discardClient_preserves K)
qed

section \<open>The origin server\<close>

lemma server_conn_preserves [keeps]: "preserves (server_conn i)"
  unfolding server_conn_def by (intro preserves_rules keeps)

lemma readResponseChunk_keeps:
  assumes "kernel_ok K"
  shows "hoare safe (readResponseChunk K i) (\<lambda>chunk s. safe s \<and> length chunk \<le> MAX_CHUNK_SIZE) safe"
  unfolding readResponseChunk_def
  by (intro hoare_andThen [OF server_conn_preserves] receive_keeps assms)

lemma buffer_preserves [keeps]: "preserves (writeResponseChunkToClientBuffer i chunk)"
  unfolding writeResponseChunkToClientBuffer_def by (intro keeps) (simp add: harmless_def fds_of_def)

lemma fallback_one_preserves:
  assumes "intact (k_freed K)"
  shows "preserves (fallback_one K chunk i)"
  unfolding fallback_one_def
  by (intro preserves_rules keeps assms) (simp_all add: harmless_def fds_of_def)

lemma fallback_preserves:
  assumes "intact (k_freed K)"
  shows "preserves (fallbackToClientBuffer K i chunk)"
  unfolding fallbackToClientBuffer_def
  by (intro preserves_rules fallback_one_preserves keeps assms) (simp_all add: harmless_def fds_of_def)

lemma write_preserves:
  assumes "intact (k_freed K)" "length chunk \<le> MAX_CHUNK_SIZE"
  shows "preserves (writeResponseChunkToCache K i chunk)"
  unfolding writeResponseChunkToCache_def
  by (intro preserves_rules fallback_preserves keeps assms) (use assms(2) in \<open>simp_all add: MAX_CHUNK_SIZE_def\<close>)

lemma prepareAll_preserves:
  assumes "kernel_fresh K"
  shows "preserves (prepareAllWaitingClientsForSending K key)"
  unfolding prepareAllWaitingClientsForSending_def
  by (intro preserves_rules prepareForSendingRequest_keeps keeps assms)

lemma sendRequest_preserves:
  assumes "kernel_safe K"
  shows "preserves (sendRequestToServer K i)"
  unfolding sendRequestToServer_def
  by (intro preserves_rules keeps discardClient_preserves)
    (use assms in \<open>simp_all add: harmless_def fds_of_def kernel_safe_def\<close>)

lemma status_code_preserves [keeps]: "preserves (status_code chunk)"
  unfolding status_code_def by (auto intro!: keeps split: sum.split)

lemma client_eq_preserves [keeps]: "preserves (client_eq i j)"
  unfolding client_eq_def by (intro preserves_rules keeps)

lemma readStatus_preserves:
  assumes "kernel_safe K"
  shows "preserves (readResponseStatusCodeFromServer K i)"
proof -
  have K: "kernel_fresh K" "intact (k_freed K)" "kernel_ok K" using assms by (simp_all add: kernel_safe_def)
  show ?thesis
    unfolding readResponseStatusCodeFromServer_def
    by (intro hoare_tryCatch [where Y = safe and X = safe] hoare_andThen [OF readResponseChunk_keeps [OF K(3)]] hoare_pure
        preserves_rules keeps write_preserves prepareAll_preserves discardClient_preserves K)
      (simp_all add: harmless_def fds_of_def)
qed

lemma finish_preserves [keeps]: "preserves (finish_response i)"
  unfolding finish_response_def
  by (intro preserves_rules keeps) (simp_all add: harmless_def fds_of_def)

lemma readResponse_preserves:
  assumes "kernel_safe K"
  shows "preserves (readResponseFromServer K i)"
proof -
  have K: "intact (k_freed K)" "kernel_ok K" using assms by (simp_all add: kernel_safe_def)
  show ?thesis
    unfolding readResponseFromServer_def
    by (intro hoare_tryCatch [where Y = safe and X = safe] hoare_andThen [OF readResponseChunk_keeps [OF K(2)]] hoare_pure
        preserves_rules keeps write_preserves discardClient_preserves K)
qed

section \<open>The client\<close>

lemma sendToClient_preserves [keeps]: "preserves (sendToClient K i chunk)"
  unfolding sendToClient_def by (intro preserves_rules keeps) (simp add: harmless_def fds_of_def)

lemma sendChunks_preserves [keeps]: "preserves (sendToClientFromChunks K i)"
  unfolding sendToClientFromChunks_def
  by (intro hoare_andThen [OF getC_keeps])
    (auto intro!: preserves_rules keeps simp: harmless_def fds_of_def split: list.split)

lemma sendUncached_preserves:
  assumes "intact (k_freed K)"
  shows "preserves (sendUncachedResponseToClient K i)"
  unfolding sendUncachedResponseToClient_def
  by (intro preserves_rules keeps discardClient_preserves assms)

lemma sendCached_preserves:
  assumes "intact (k_freed K)"
  shows "preserves (sendCachedResponseToClient K i)"
  unfolding sendCachedResponseToClient_def
  by (intro preserves_rules keeps discardClient_preserves assms)

lemma sendResponse_preserves:
  assumes "intact (k_freed K)"
  shows "preserves (sendResponseToClient K i)"
  unfolding sendResponseToClient_def
  by (intro preserves_rules keeps sendCached_preserves sendUncached_preserves assms)

section \<open>The event loop\<close>

lemma handle_sending_preserves:
  assumes "intact (k_freed K)"
  shows "preserves (handle_sending K i revents)"
  unfolding handle_sending_def
  by (intro preserves_rules keeps discardClient_preserves sendResponse_preserves assms)

lemma handle_state_keeps:
  assumes "kernel_safe K"
  shows "hoare (\<lambda>s. safe s \<and> (st = waiting_for_request \<longrightarrow> absent i s)) (handle_state K i revents st) (\<lambda>_. safe) safe"
proof -
  have K: "intact (k_freed K)" using assms by (simp add: kernel_safe_def)
  note hs = handle_sending_preserves [OF K] discardClient_preserves [OF K] sendRequest_preserves [OF assms]
    readStatus_preserves [OF assms] readResponse_preserves [OF assms]
  have "preserves (handle_state K i revents st)" if "st \<noteq> waiting_for_request"
    using that by (cases st) (auto simp: handle_state_def intro!: preserves_rules keeps hs)
  moreover have "hoare (fresh_client i) (handle_state K i revents waiting_for_request) (\<lambda>_. safe) safe"
    using readRequestFromClient_keeps [OF assms] by (simp add: handle_state_def)
  ultimately show ?thesis by (auto simp: hoare_def)
qed

lemma handleClient_preserves:
  assumes "kernel_safe K"
  shows "preserves (handleClientSocketEvents K i revents)"
proof -
  have K: "intact (k_freed K)" using assms by (simp add: kernel_safe_def)
  have st: "hoare safe (getC i state) (\<lambda>st s. safe s \<and> (st = waiting_for_request \<longrightarrow> absent i s)) safe"
    by (rule hoare_getC) (fastforce simp: absent_def server_inv_def requests_ok_def)
  show ?thesis
    unfolding handleClientSocketEvents_def
    by (intro hoare_tryCatch [where Y = safe and X = safe] hoare_if hoare_andThen [OF st] handle_state_keeps
        discardClient_preserves keeps assms K)
qed

lemma handleServer_preserves:
  assumes "kernel_safe K"
  shows "preserves (handleServerSocketEvents K events)"
  unfolding handleServerSocketEvents_def
  by (intro preserves_rules keeps acceptClient_preserves) (use assms in \<open>simp add: kernel_safe_def\<close>)

lemma find_client_preserves [keeps]: "preserves (find_client fd l)"
  by (induction fd l rule: find_client.induct) (auto intro!: preserves_rules keeps)

lemma slot_at_preserves [keeps]: "preserves (slot_at fd)"
  by (simp add: hoare_def wp_def slot_at_def)

lemma getClient_preserves [keeps]: "preserves (getClient fd)"
  unfolding getClient_def by (intro preserves_rules keeps)

lemma client_pollfds_preserves [keeps]: "preserves (client_pollfds c)"
  by (cases "state c") (auto simp: client_pollfds_def Let_def intro!: preserves_rules keeps)

lemma collect_preserves [keeps]: "preserves (collect_pollfds l)"
  by (induction l rule: collect_pollfds.induct) (auto intro!: preserves_rules keeps)

lemma poll_preserves [keeps]: "preserves (server_poll K)"
  unfolding server_poll_def server_getPollfds_def clients_getPollfds_def split_def
  by (intro preserves_rules keeps) simp_all

lemma handle_pollfd_preserves:
  assumes "kernel_safe K"
  shows "preserves (handle_pollfd K pfd)"
  unfolding handle_pollfd_def
  by (intro preserves_rules keeps handleServer_preserves handleClient_preserves assms)

lemma server_iteration_preserves:
  assumes "kernel_safe K"
  shows "preserves (server_iteration K)"
  unfolding server_iteration_def
  by (intro hoare_andThen [OF poll_preserves] hoare_forEach handle_pollfd_preserves assms)

section \<open>Runs of the proxy\<close>

text \<open>
  The states a run reaches, with the reported descriptors still to be handled: from the
  constructor and \<open>listen\<close>, by a call of \<open>poll\<close> between turns, and by one event at a time.
\<close>

inductive loop_reach :: "kernel \<Rightarrow> uint16 \<Rightarrow> size_t \<Rightarrow> pollfd list \<Rightarrow> server \<Rightarrow> bool"
  for K port_number max_fds where
  started: "server_new K port_number max_fds \<lparr>trace = []\<rparr> = Done s n \<Longrightarrow>
    socket_listen K (server_socket s) PENDING_CONNECTIONS_QUEUE_LEN s = Done () t \<Longrightarrow>
    loop_reach K port_number max_fds [] (t\<lparr>is_running := True\<rparr>)"
| polled: "loop_reach K port_number max_fds [] s \<Longrightarrow> is_running s \<Longrightarrow> \<not> k_stopped K (trace s) \<Longrightarrow>
    server_poll K s = Done pfds t \<Longrightarrow> loop_reach K port_number max_fds pfds t"
| handled: "loop_reach K port_number max_fds (pfd # pfds) s \<Longrightarrow> handle_pollfd K pfd s = Done () t \<Longrightarrow>
    loop_reach K port_number max_fds pfds t"

inductive_cases loop_reach_cases: "loop_reach K port_number max_fds pfds s"

lemma set_reuse_Done:
  "set_reuse K fd msg s = Done () t \<Longrightarrow> \<exists>ok. t = s\<lparr>trace := trace s @ [Ev_setsockopt fd ok]\<rparr>"
  by (auto simp: set_reuse_def andThen_def get_def log_event_def modify_def ret_def raise_def split: if_splits)

lemma passive_create_Done:
  assumes "passive_create K p \<lparr>trace = []\<rparr> = Done ps n"
  shows "open_fds (trace n) = [listen_fd ps] \<and> socket_isValid (listen_fd ps)"
  using assms
  by (auto simp: passive_create_def tcp_socket_def onException_def tryCatch_def set_reuse_def getaddrinfo_def
      andThen_def get_def log_event_def modify_def ret_def raise_def undefined_behaviour_def open_fds_def
      socket_isValid_def split: if_splits option.splits list.splits outcome.splits)

lemma cache_create_ok: "cache_ok (cache_create MAX_CACHE_SIZE)"
  by (simp add: cache_ok_def cache_create_wf) (simp add: cache_create_def)

lemma server_new_safe:
  assumes "server_new K p m \<lparr>trace = []\<rparr> = Done s n"
  shows "safe s"
proof -
  obtain cl n1 ps where s: "ClientsList m \<lparr>trace = []\<rparr> = Done cl n1" "passive_create K p n1 = Done ps n"
    "s = \<lparr>trace = trace n, slots = cl, heap = Map.empty, next_client = 0, server_socket = ps,
        the_cache = cache_create MAX_CACHE_SIZE, request_clients_map = Map.empty, is_running = False\<rparr>"
    using assms by (auto simp: server_new_def andThen_def get_def split: outcome.splits)
  then have cl: "n1 = \<lparr>trace = []\<rparr>" "set cl \<subseteq> {None}"
    by (auto simp: ClientsList_def ret_def raise_def split: if_splits)
  have fd: "open_fds (trace n) = [listen_fd ps]" "socket_isValid (listen_fd ps)"
    using passive_create_Done s(2) cl(1) by blast+
  have "cl ! k \<noteq> Some i" if "k < length cl" for k i
    using cl(2) nth_mem [OF that] by auto
  then show ?thesis
    using fd s(3) cache_create_ok
    by (simp add: server_inv_def owners_ok_def fds_ok_def requests_ok_def owned_def socket_isValid_def)
qed

lemma loop_reach_safe:
  assumes "loop_reach K p m pfds s" "kernel_safe K"
  shows "safe s"
  using assms(1)
proof induction
  case (started s n t)
  have "preserves (socket_listen K (server_socket s) PENDING_CONNECTIONS_QUEUE_LEN)"
    unfolding socket_listen_def by (intro preserves_rules keeps) simp_all
  then have "safe t"
    using server_new_safe [OF started(1)] started(2) by (simp add: hoare_def wp_def) (metis outcome.case(1))
  then show ?case by (simp add: server_inv_def)
next
  case (polled s pfds t)
  then show ?case using poll_preserves [of K] by (simp add: hoare_def wp_def) (metis outcome.case(1))
next
  case (handled pfd pfds s t)
  then show ?case
    using handle_pollfd_preserves [OF assms(2), of pfd] by (simp add: hoare_def wp_def) (metis outcome.case(1))
qed

text \<open>A turn that returns ends between turns.\<close>

lemma loop_reach_forEach:
  "loop_reach K p m pfds s \<Longrightarrow> forEach pfds (handle_pollfd K) s = Done () t \<Longrightarrow> loop_reach K p m [] t"
proof (induction pfds arbitrary: s)
  case Nil
  then show ?case by (simp add: ret_def)
next
  case (Cons pfd pfds)
  then obtain u where "handle_pollfd K pfd s = Done () u" "forEach pfds (handle_pollfd K) u = Done () t"
    by (auto simp: andThen_def split: outcome.splits)
  with Cons show ?case using loop_reach.handled by blast
qed

lemma loop_reach_iteration:
  assumes "loop_reach K p m [] s" "is_running s" "\<not> k_stopped K (trace s)" "server_iteration K s = Done () t"
  shows "loop_reach K p m [] t"
proof -
  obtain pfds u where "server_poll K s = Done pfds u" "forEach pfds (handle_pollfd K) u = Done () t"
    using assms(4) by (auto simp: server_iteration_def andThen_def split: outcome.splits)
  with assms(1-3) show ?thesis using loop_reach.polled loop_reach_forEach by blast
qed

end
