(* ===== verification/Client_Reading.thy ===== *)
theory Client_Reading
  imports Clients Http_Request_Correct
begin

text \<open>
  What \<open>readHttpRequest\<close> (\<open>clients_list.cpp\<close>) returns. The request arrives in pieces of at
  most \<open>BUFSIZ\<close> bytes; over a zeroed array the loop joins them up to the piece that completes
  the blank line, whatever the pieces are. The result never exceeds \<open>MAX_REQUEST_SIZE\<close> bytes.
\<close>

section \<open>Searching the array\<close>

text \<open>\<open>occurs pat bs\<close>: \<open>pat\<close> is a contiguous part of \<open>bs\<close>.\<close>

fun occurs :: "string \<Rightarrow> string \<Rightarrow> bool" where
  "occurs pat [] \<longleftrightarrow> pat = []"
| "occurs pat (c # cs) \<longleftrightarrow> take (length pat) (c # cs) = pat \<or> occurs pat cs"

definition has_null :: "string \<Rightarrow> bool" where
  "has_null bs \<longleftrightarrow> CHR 0x00 \<in> set bs"

lemma take_no_null:
  assumes "\<not> has_null pat" "length bs < length pat"
  shows "take (length pat) (bs @ CHR 0x00 # zs) \<noteq> pat"
proof
  assume "take (length pat) (bs @ CHR 0x00 # zs) = pat"
  moreover have "CHR 0x00 \<in> set (take (length pat) (bs @ CHR 0x00 # zs))"
    using assms(2) by (simp add: take_Cons' Suc_diff_Suc)
  ultimately show False using assms(1) by (simp add: has_null_def)
qed

text \<open>On a C string the search is \<open>occurs\<close>.\<close>

lemma strstr_c_string:
  assumes "\<not> has_null pat" "pat \<noteq> []" "\<not> has_null bs"
  shows "strstr pat (bs @ CHR 0x00 # zs) = Some (occurs pat bs)"
  using assms(3)
proof (induction bs)
  case Nil
  then show ?case using assms(1,2) take_no_null [of pat "[]" zs] by simp
next
  case (Cons c cs)
  have prefix: "take (length pat) ((c # cs) @ CHR 0x00 # zs) = pat \<longleftrightarrow> take (length pat) (c # cs) = pat"
  proof (cases "length (c # cs) < length pat")
    case True
    then show ?thesis
      using take_no_null [OF assms(1) True, of zs] by (metis length_take min.absorb4 not_less_iff_gr_or_eq take_all_iff le_simps(1))
  next
    case False
    then have "length pat - Suc (length cs) = 0" by simp
    then show ?thesis by (simp add: take_Cons')
  qed
  have "c \<noteq> CHR 0x00" "\<not> has_null cs" using Cons.prems by (auto simp: has_null_def)
  then show ?case
    using Cons.IH prefix by (cases "take (length pat) (c # cs) = pat") simp_all
qed

text \<open>An array without a null byte is searched to its end and beyond.\<close>

lemma strstr_overruns: "\<not> has_null bs \<Longrightarrow> pat \<noteq> [] \<Longrightarrow> \<not> occurs pat bs \<Longrightarrow> strstr pat bs = None"
  by (induction bs) (auto simp: has_null_def)

lemma blank_line: "\<not> has_null (CRLF @ CRLF)" "CRLF @ CRLF \<noteq> []"
  by (simp_all add: has_null_def CRLF_def)

section \<open>The loop\<close>

definition recv_events :: "fd \<Rightarrow> string list \<Rightarrow> history" where
  "recv_events fd ps = map (\<lambda>p. Ev_recv fd BUFSIZ (Some p)) ps"

text \<open>The peer's bytes arrive as the pieces \<open>ps\<close>.\<close>

fun arrives :: "kernel \<Rightarrow> fd \<Rightarrow> history \<Rightarrow> string list \<Rightarrow> bool" where
  "arrives K fd tr [] \<longleftrightarrow> True"
| "arrives K fd tr (p # ps) \<longleftrightarrow> k_recv K tr fd BUFSIZ = Some p \<and> arrives K fd (tr @ recv_events fd [p]) ps"

text \<open>Only the last piece completes the blank line.\<close>

fun completes :: "string \<Rightarrow> string list \<Rightarrow> bool" where
  "completes got [] \<longleftrightarrow> False"
| "completes got [p] \<longleftrightarrow> occurs (CRLF @ CRLF) (got @ p)"
| "completes got (p # ps) \<longleftrightarrow> \<not> occurs (CRLF @ CRLF) (got @ p) \<and> completes (got @ p) ps"

abbreviation zeros :: "nat \<Rightarrow> string" where
  "zeros n \<equiv> replicate n (CHR 0x00)"

lemma c_str_no_null: "\<not> has_null bs \<Longrightarrow> c_str bs = bs"
  by (auto simp: c_str_def has_null_def takeWhile_eq_all_conv)

lemma strncpy_no_null: "\<not> has_null bs \<Longrightarrow> strncpy bs = bs"
  by (simp add: strncpy_def c_str_no_null)

lemma overwrite_zeros:
  "length p \<le> n \<Longrightarrow> overwrite (length got) p (got @ zeros n) = (got @ p) @ zeros (n - length p)"
  by (simp add: overwrite_def drop_append)

lemma receive_piece:
  "k_recv K (trace s) fd n = Some p \<Longrightarrow> p \<noteq> [] \<Longrightarrow>
   receive K fd n s = Done p (s\<lparr>trace := trace s @ [Ev_recv fd n (Some p)]\<rparr>)"
  by (simp add: receive_def andThen_def get_def log_event_def modify_def ret_def)

lemma strstr_zeros:
  "\<not> has_null bs \<Longrightarrow> 0 < n \<Longrightarrow> strstr (CRLF @ CRLF) (bs @ zeros n) = Some (occurs (CRLF @ CRLF) bs)"
  using strstr_c_string [OF blank_line, of bs] by (cases n) simp_all

lemma read_loop_pieces:
  assumes "arrives K fd (trace s) ps" "completes got ps" "\<forall>p \<in> set ps. p \<noteq> [] \<and> \<not> has_null p" "\<not> has_null got"
    "length got + length (concat ps) < MAX_REQUEST_SIZE"
  shows "read_loop K fd (length got) (got @ zeros (MAX_REQUEST_SIZE - length got)) s =
    Done (got @ concat ps) (s\<lparr>trace := trace s @ recv_events fd ps\<rparr>)"
  using assms
proof (induction ps arbitrary: got s)
  case (Cons p ps)
  let ?t = "s\<lparr>trace := trace s @ [Ev_recv fd BUFSIZ (Some p)]\<rparr>"
  let ?mem = "(got @ p) @ zeros (MAX_REQUEST_SIZE - length (got @ p))"
  have p: "p \<noteq> []" "\<not> has_null p" using Cons.prems(3) by simp_all
  have got: "\<not> has_null (got @ p)" using Cons.prems(4) p(2) by (auto simp: has_null_def)
  have fits: "length got + length p < MAX_REQUEST_SIZE" using Cons.prems(5) by simp
  have recv: "receive K fd BUFSIZ s = Done p ?t" using receive_piece Cons.prems(1) p(1) by auto
  have mem: "overwrite (length got) (strncpy p) (got @ zeros (MAX_REQUEST_SIZE - length got)) = ?mem"
    using overwrite_zeros [of p "MAX_REQUEST_SIZE - length got" got] fits by (simp add: strncpy_no_null p(2) diff_diff_add)
  have search: "strstr (CRLF @ CRLF) ?mem = Some (occurs (CRLF @ CRLF) (got @ p))"
    using fits by (intro strstr_zeros got) simp
  show ?case
  proof (cases "ps = []")
    case True
    then have "occurs (CRLF @ CRLF) (got @ p)" using Cons.prems(2) by simp
    with True show ?thesis
      using recv mem search p(1) fits
      by (simp add: read_loop.simps [of K fd "length got"] recv_events_def)
  next
    case False
    then have rest: "\<not> occurs (CRLF @ CRLF) (got @ p)" "completes (got @ p) ps"
      using Cons.prems(2) by (cases ps; simp)+
    have "read_loop K fd (length (got @ p)) ?mem ?t = Done ((got @ p) @ concat ps) (?t\<lparr>trace := trace ?t @ recv_events fd ps\<rparr>)"
      using Cons.prems(1,3,5) rest(2) got by (intro Cons.IH) (simp_all add: recv_events_def)
    then show ?thesis
      using recv mem search p(1) fits rest(1)
      by (simp add: read_loop.simps [of K fd "length got"] recv_events_def)
  qed
qed simp

text \<open>A request that arrives whole, in pieces without null bytes, over a zeroed array.\<close>

definition delivers :: "kernel \<Rightarrow> fd \<Rightarrow> history \<Rightarrow> string list \<Rightarrow> bool" where
  "delivers K fd tr ps \<longleftrightarrow> k_stack K tr = zeros MAX_REQUEST_SIZE \<and> arrives K fd tr ps \<and> completes [] ps \<and>
     list_all (\<lambda>p. p \<noteq> [] \<and> \<not> has_null p) ps \<and> length (concat ps) < MAX_REQUEST_SIZE"

lemma read_pieces:
  assumes "delivers K fd (trace s) ps"
  shows "readHttpRequest K fd s = Done (concat ps) (s\<lparr>trace := trace s @ recv_events fd ps\<rparr>)"
  using read_loop_pieces [of K fd s ps "[]"] assms
  by (simp add: delivers_def list_all_iff readHttpRequest_def andThen_def get_def has_null_def)

text \<open>From the bytes on the wire to the request the client object holds.\<close>

lemma getHttpRequest_url:
  assumes "heap s i = Some c" "delivers K (client_connection c) (trace s) ps"
    and raw: "concat ps = render_request m (render_url sch host po pa qu fr) ma mi hs @ rest"
    and ok: "url_parts_ok sch host po pa qu" "request_parts_ok m (render_url sch host po pa qu fr) ma mi hs"
      "\<not> takes_body m \<or> list_all no_body_header hs"
  shows "\<exists>h. getHttpRequest K i s = Done () (s\<lparr>trace := trace s @ recv_events (client_connection c) ps,
    heap := (heap s)(i \<mapsto> c\<lparr>request := h,
      request_str := render_request m (CHR ''/'' # pa) ma mi (map header_of (keep_headers hs [])) @ CRLF\<rparr>)\<rparr>) \<and>
    isValid (rq_url h) \<and> the_url (rq_url h) = url_of sch host po pa qu fr"
proof -
  let ?t = "s\<lparr>trace := trace s @ recv_events (client_connection c) ps\<rparr>"
  let ?u = "\<lambda>h. ?t\<lparr>heap := (heap s)(i \<mapsto> c\<lparr>request := h\<rparr>)\<rparr>"
  obtain h where h: "http_request_new (concat ps) ?t = Done h ?t" "isValid (rq_url h)" "rq_method h = m"
    "versionMajor h = int ma" "versionMinor h = int mi" "the_url (rq_url h) = url_of sch host po pa qu fr"
    "rq_headers h = keep_headers hs []"
    unfolding raw using forward_request [OF ok, where rest = rest and s = ?t] by (elim exE conjE)
  have str: "toString h (?u h) =
      Done (render_request m (CHR ''/'' # pa) ma mi (map header_of (keep_headers hs [])) @ CRLF) (?u h)"
    using toString_valid [OF http_request_new_forwardable [OF h(1)] h(2), of "?u h"] h(3-7) by (simp add: url_of_def)
  have "readHttpRequest K (client_connection c) s = Done (concat ps) ?t" by (rule read_pieces [OF assms(2)])
  with assms(1) h(1,2,6) str show ?thesis
    by (intro exI [of _ h]) (simp add: getHttpRequest_def andThen_def getC_def setC_def)
qed

lemma getHttpRequest_run:
  assumes "heap s i = Some c" "delivers K (client_connection c) (trace s) ps"
    "concat ps = render_request m (render_url sch host po pa qu fr) ma mi hs @ rest"
    "url_parts_ok sch host po pa qu" "request_parts_ok m (render_url sch host po pa qu fr) ma mi hs"
    "\<not> takes_body m \<or> list_all no_body_header hs"
  shows "\<exists>h. getHttpRequest K i s = Done () (s\<lparr>trace := trace s @ recv_events (client_connection c) ps,
    heap := (heap s)(i \<mapsto> c\<lparr>request := h,
      request_str := render_request m (CHR ''/'' # pa) ma mi (map header_of (keep_headers hs [])) @ CRLF\<rparr>)\<rparr>)"
  using getHttpRequest_url [OF assms] by blast

text \<open>The bound holds whatever the array held before.\<close>

lemma read_loop_bound:
  assumes "read_loop K fd written mem s = Done str t" "written \<le> MAX_REQUEST_SIZE"
  shows "length str \<le> MAX_REQUEST_SIZE"
  using assms
proof (induction K fd written mem s rule: read_loop.induct)
  case (1 K fd written mem s)
  show ?case
    using "1.prems" "1.IH"
    by (simp add: read_loop.simps [of K fd written mem s] split: outcome.splits if_splits option.splits) auto
qed

end
