(* ===== verification/Cache_Room.thy ===== *)
theory Cache_Room
  imports Server_Invariant
begin

text \<open>
  What the cache can still take for the entries in use: its free bytes and those of the entries
  that may be evicted. A write that fits in this room succeeds and uses it up by its length;
  reading and using entries leave it as it is.
\<close>

definition used_bytes :: "store \<Rightarrow> nat" where
  "used_bytes l = store_bytes (filter (\<lambda>p. entry_inUse (snd p)) l)"

definition cache_room :: "cache \<Rightarrow> nat" where
  "cache_room c = unat (max_size c) + unused_bytes (abs_cache c) - unat (current_size c)"

lemma used_bytes_simps [store_simps]:
  "used_bytes [] = 0"
  "used_bytes (p # l) = (if entry_inUse (snd p) then entry_size (snd p) else 0) + used_bytes l"
  "used_bytes (l @ l') = used_bytes l + used_bytes l'"
  by (simp_all add: used_bytes_def store_simps)

lemma used_plus_unused: "used_bytes l + unused_bytes l = store_bytes l"
  by (induction l) (simp_all add: store_simps)

lemma used_bytes_evict: "used_bytes (evict need l) = used_bytes l"
  by (induction need l rule: evict.induct) (simp_all add: store_simps)

lemma used_bytes_remove:
  "distinct (map fst l) \<Longrightarrow> map_of l k = Some e \<Longrightarrow> entry_inUse e \<Longrightarrow>
   used_bytes (remove_key k l) + entry_size e = used_bytes l"
  by (induction l) (auto simp: store_simps remove_key_simps remove_key_absent image_image split: if_splits)

lemma used_bytes_put:
  assumes "distinct (map fst l)" "map_of l k = Some e" "entry_inUse e" "entry_inUse e'"
  shows "used_bytes (put_last k e' l) + entry_size e = used_bytes l + entry_size e'"
  using used_bytes_remove [OF assms(1-3)] assms(4) by (simp add: put_last_def store_simps)

lemma wf_room:
  assumes "cache_wf c"
  shows "cache_room c + used_bytes (abs_cache c) + unat (current_size c) = unat (max_size c) + store_bytes (abs_cache c)"
    "distinct (map fst (abs_cache c))"
  using assms used_plus_unused [of "abs_cache c"] wf_distinct_keys [OF assms]
  by (simp_all add: cache_room_def cache_wf_def word_le_nat_alt)

text \<open>A write into an entry in use that fits: whatever else is evicted, the entry grows by the bytes.\<close>

lemma cache_write_room:
  assumes ok: "cache_ok c" and af: "intact af" and e: "lookup c k = Some e" "entry_inUse e"
    and fits: "length buf \<le> cache_room c"
  shows "\<exists>c'. cache_write af k buf c = Done () c' \<and> cache_ok c' \<and> lookup c' k = Some (entry_append buf e) \<and>
    cache_room c' + length buf = cache_room c"
proof -
  have wf: "cache_wf c" using ok by (simp add: cache_ok_def)
  let ?need = "unat (current_size c) + length buf - unat (max_size c)"
  have cur: "unat (current_size c) \<le> unat (max_size c)" using wf by (simp add: cache_wf_def word_le_nat_alt)
  have len: "length buf < 2 ^ 64" and need: "?need \<le> unused_bytes (abs_cache c)"
  proof -
    have "store_bytes (abs_cache c) \<le> unat (current_size c)"
      using wf by (simp add: cache_wf_def total_bytes_abs abs_cache_def)
    then have "cache_room c \<le> unat (max_size c)"
      using wf_room(1) [OF wf] used_plus_unused [of "abs_cache c"] by simp
    then show "length buf < 2 ^ 64" using fits unat_less_size_t [of "max_size c"] by simp
    show "?need \<le> unused_bytes (abs_cache c)" using fits cur by (simp add: cache_room_def)
  qed
  obtain c' where c': "cache_write af k buf c = Done () c'" "cache_wf c'"
    "abs_cache c' = put_last k (entry_append buf e) (evict ?need (abs_cache c))" "max_size c' = max_size c"
    "unat (current_size c') + store_bytes (abs_cache c) = unat (current_size c) + store_bytes (abs_cache c')"
    using cache_write_correct [OF wf af e len refl] need by auto
  have "map_of (evict ?need (abs_cache c)) k = Some e"
    using evict_map_of [OF wf_room(2) [OF wf] _ e(2)] e(1) by (simp add: lookup_def)
  then have "used_bytes (abs_cache c') + entry_size e = used_bytes (abs_cache c) + entry_size (entry_append buf e)"
    using used_bytes_put [OF evict_distinct [OF wf_room(2) [OF wf]] _ e(2)] e(2) c'(3)
    by (simp add: used_bytes_evict entry_append_def entry_inUse_def)
  then have "cache_room c' + length buf = cache_room c"
    using wf_room(1) [OF wf] wf_room(1) [OF c'(2)] c'(4,5) by (simp add: entry_append_def entry_size_def)
  moreover have "lookup c' k = Some (entry_append buf e)"
    using c'(3) by (simp add: lookup_def map_of_put_last)
  ultimately show ?thesis using c'(1,2,4) ok by (auto simp: cache_ok_def)
qed

text \<open>Using an entry takes no room.\<close>

lemma useEntry_room:
  assumes ok: "cache_ok c" and e: "\<And>e. lookup c k = Some e \<Longrightarrow> entry_inUse e \<and> 0 \<le> in_use e"
  shows "\<exists>c'. useEntry k c = Done () c' \<and> cache_ok c' \<and> cache_room c' = cache_room c \<and>
    lookup c' k = Some (case lookup c k of None \<Rightarrow> new_entry | Some e \<Rightarrow> entry_incrementUse e)"
proof -
  have wf: "cache_wf c" using ok by (simp add: cache_ok_def)
  obtain c' where c': "useEntry k c = Done () c'" "cache_wf c'" "abs_cache c' = store_use k (abs_cache c)"
    "max_size c' = max_size c" "current_size c' = current_size c"
    using useEntry_correct [OF wf] by blast
  have "unused_bytes (store_use k (abs_cache c)) = unused_bytes (abs_cache c)"
  proof (cases "lookup c k")
    case None
    then show ?thesis by (simp add: lookup_def store_simps new_entry_def entry_inUse_def)
  next
    case (Some e0)
    have use: "entry_inUse e0" "entry_inUse (entry_incrementUse e0)"
      using e [OF Some] by (simp_all add: entry_inUse_def entry_incrementUse_def)
    then have "used_bytes (put_last k (entry_incrementUse e0) (abs_cache c)) = used_bytes (abs_cache c)"
      using used_bytes_put [OF wf_room(2) [OF wf], of k e0 "entry_incrementUse e0"] Some
      by (simp add: lookup_def entry_incrementUse_def entry_size_def)
    moreover have "store_bytes (put_last k (entry_incrementUse e0) (abs_cache c)) = store_bytes (abs_cache c)"
      using store_bytes_put_last [OF wf_room(2) [OF wf], of k e0 "entry_incrementUse e0"] Some
      by (simp add: lookup_def entry_incrementUse_def entry_size_def)
    ultimately show ?thesis
      using Some used_plus_unused [of "put_last k (entry_incrementUse e0) (abs_cache c)"] used_plus_unused [of "abs_cache c"]
      by (simp add: lookup_def)
  qed
  then have "cache_room c' = cache_room c" using c'(3-5) by (simp add: cache_room_def del: store_use.simps)
  then show ?thesis
    using c' ok by (auto simp: cache_ok_def lookup_def map_of_store_use simp del: store_use.simps)
qed

text \<open>Moving an entry to the most recent end, as every access does, takes no room either.\<close>

lemma unused_bytes_remove:
  "distinct (map fst l) \<Longrightarrow> map_of l k = Some e \<Longrightarrow>
   unused_bytes (remove_key k l) + (if entry_inUse e then 0 else entry_size e) = unused_bytes l"
  by (induction l) (auto simp: store_simps remove_key_simps remove_key_absent image_image split: if_splits)

lemma moved_room:
  assumes "cache_wf c" "lookup c k = Some e" "abs_cache c' = put_last k e (abs_cache c)"
    "max_size c' = max_size c" "current_size c' = current_size c"
  shows "cache_room c' = cache_room c" "lookup c' = lookup c"
proof -
  have "unused_bytes (put_last k e (abs_cache c)) = unused_bytes (abs_cache c)"
    using unused_bytes_remove [OF wf_room(2) [OF assms(1)], of k e] assms(2)
    by (auto simp: lookup_def put_last_def store_simps split: if_splits)
  then show "cache_room c' = cache_room c" using assms(3-5) by (simp add: cache_room_def)
  show "lookup c' = lookup c" using assms(2,3) by (simp add: lookup_def fun_upd_idem)
qed

end
