(* ===== verification/Server_Requests.thy ===== *)
theory Server_Requests
  imports Server_Handlers Client_Reading Cache_Room
begin

text \<open>
  What the handlers do with one request: where its response comes from, how a client of the
  cache is served to the end, and how a client leaves.
\<close>

section \<open>Where the response comes from\<close>

lemma contains_ok: "cache_ok c \<Longrightarrow> contains k c \<longleftrightarrow> lookup c k \<noteq> None"
  by (simp add: cache_ok_def contains_lookup)

definition listed :: "client_id \<Rightarrow> string \<Rightarrow> server \<Rightarrow> client_id list" where
  "listed i key s = (case request_clients_map s key of None \<Rightarrow> [i] | Some l \<Rightarrow> l @ [i])"

lemma addToRequestClients_run:
  assumes "heap s i = Some c"
  shows "addToRequestClients i s =
    Done () (s\<lparr>request_clients_map := (request_clients_map s)(request_str c \<mapsto> listed i (request_str c) s)\<rparr>)"
  using assms
  by (simp add: addToRequestClients_def andThen_def getC_def get_def map_set_def modify_def listed_def split: option.split)

text \<open>A response in the cache: no system call follows the reading of the request.\<close>

lemma request_hit:
  assumes "getHttpRequest K i s = Done () t" "heap t i = Some c" "cache_ok (the_cache t)"
    "lookup (the_cache t) (request_str c) = Some e"
  shows "\<exists>u. readRequestFromClient K i s = Done () u \<and> trace u = trace t \<and>
    heap u = (heap t)(i \<mapsto> c\<lparr>state := got_response, should_read_from_cache := True\<rparr>) \<and>
    request_clients_map u = (request_clients_map t)(request_str c \<mapsto> listed i (request_str c) t) \<and>
    lookup (the_cache u) (request_str c) = Some (entry_incrementUse e)"
proof -
  have wf: "cache_wf (the_cache t)" using assms(3) by (simp add: cache_ok_def)
  obtain c' where c': "useEntry (request_str c) (the_cache t) = Done () c'"
    "abs_cache c' = store_use (request_str c) (abs_cache (the_cache t))"
    using useEntry_correct [OF wf] by blast
  have "lookup c' (request_str c) = Some (entry_incrementUse e)"
    using c'(2) assms(4) by (simp add: lookup_def map_of_store_use)
  moreover have "contains (request_str c) (the_cache t)"
    using assms(4) contains_ok [OF assms(3)] by simp
  ultimately show ?thesis
    using assms(1,2) c'(1)
    by (simp add: readRequestFromClient_def tryCatch_def andThen_def getC_def get_def setC_def onCache_def zoom_def
        setClientToGetResponseFromCache_def addToRequestClients_run listed_def)
qed

text \<open>A request another client has made: the client waits, and nothing is sent for it.\<close>

lemma request_waits:
  assumes "getHttpRequest K i s = Done () t" "heap t i = Some c" "cache_ok (the_cache t)"
    "lookup (the_cache t) (request_str c) = None" "hasClientsWithRequest (request_str c) t"
  shows "\<exists>u. readRequestFromClient K i s = Done () u \<and> trace u = trace t \<and> the_cache u = the_cache t \<and>
    heap u = (heap t)(i \<mapsto> c\<lparr>state := waiting_for_response_for_another_client\<rparr>) \<and>
    request_clients_map u = (request_clients_map t)(request_str c \<mapsto> listed i (request_str c) t)"
  using assms contains_ok [OF assms(3)]
  by (simp add: readRequestFromClient_def tryCatch_def andThen_def getC_def get_def setC_def
      addToRequestClients_run listed_def)

text \<open>The same from the event on a client's descriptor, for a request that arrives whole.\<close>

lemma readable_run:
  assumes "heap s i = Some c" "state c = waiting_for_request" "readRequestFromClient K i s = Done () t"
  shows "handleClientSocketEvents K i POLLIN s = Done () t"
  using assms
  by (simp add: handleClientSocketEvents_def handle_state_def tryCatch_def andThen_def getC_def poll_defs)

section \<open>What safe states have room for\<close>

lemma safe_bounds:
  assumes "safe s"
  shows "store_bytes (abs_cache (the_cache s)) \<le> unat (current_size (the_cache s)) \<and>
    unat (current_size (the_cache s)) \<le> 16 * 1024 * 1024 \<and>
    finite (dom (heap s)) \<and> card (dom (heap s)) \<le> length (slots s)"
proof (intro conjI)
  have c: "cache_ok (the_cache s)" using assms by (simp add: server_inv_def)
  then show "store_bytes (abs_cache (the_cache s)) \<le> unat (current_size (the_cache s))"
    by (simp add: cache_ok_def cache_wf_def total_bytes_abs abs_cache_def)
  have "current_size (the_cache s) \<le> MAX_CACHE_SIZE" using c by (auto simp: cache_ok_def cache_wf_def)
  then show "unat (current_size (the_cache s)) \<le> 16 * 1024 * 1024"
    by (simp add: word_le_nat_alt MAX_CACHE_SIZE_def)
  have sub: "Some ` dom (heap s) \<subseteq> set (slots s)"
  proof
    fix x assume "x \<in> Some ` dom (heap s)"
    then obtain i c where "x = Some i" "heap s i = Some c" by auto
    then show "x \<in> set (slots s)"
      using assms unfolding server_inv_def owners_ok_def by (metis nth_mem)
  qed
  then show "finite (dom (heap s))" by (metis finite_imageD finite_subset inj_Some List.finite_set)
  have "card (dom (heap s)) = card (Some ` dom (heap s))" by (simp add: card_image)
  also have "\<dots> \<le> card (set (slots s))" using sub by (simp add: card_mono)
  also have "\<dots> \<le> length (slots s)" by (rule card_length)
  finally show "card (dom (heap s)) \<le> length (slots s)" .
qed

section \<open>Discarding\<close>

lemma remove_if_client_run:
  assumes "heap s i \<noteq> None" "\<forall>j \<in> set l. heap s j \<noteq> None"
  shows "remove_if_client i l s = Done (filter (\<lambda>j. j \<noteq> i) l) s"
  using assms
proof (induction l)
  case (Cons j js)
  then have "\<exists>c d. heap s i = Some c \<and> heap s j = Some d" by auto
  with Cons show ?case by (auto simp: client_eq_def andThen_def getC_def ret_def)
qed (simp add: ret_def)

text \<open>A client whose response no other client could take over is simply removed.\<close>

lemma discardClient_run:
  assumes safe: "safe s" and c: "heap s i = Some c" and l: "request_clients_map s (request_str c) = Some l"
    and alone: "state c \<noteq> waiting_response \<or> filter (\<lambda>j. j \<noteq> i) l = []"
  shows "\<exists>u. discardClient K i s = Done () u \<and> heap u = (heap s)(i := None) \<and>
    trace u = trace s @ map Ev_close (rev (fds_of c)) \<and> slots u = (slots s)[nat (client_connection c) := None] \<and>
    request_clients_map u = (request_clients_map s)(request_str c \<mapsto> filter (\<lambda>j. j \<noteq> i) l) \<and>
    server_socket u = server_socket s \<and> abs_cache (the_cache u) = store_disuse (request_str c) (abs_cache (the_cache s))"
proof -
  let ?s1 = "s\<lparr>request_clients_map := (request_clients_map s)(request_str c \<mapsto> filter (\<lambda>j. j \<noteq> i) l)\<rparr>"
  have live: "\<forall>j \<in> set l. heap s j \<noteq> None"
    using safe l unfolding server_inv_def requests_ok_def by (metis option.distinct(1))
  have remove: "removeFromRequestClients i s = Done () ?s1"
    using c l remove_if_client_run [OF _ live, of i]
    by (simp add: removeFromRequestClients_def andThen_def getC_def map_at_def map_set_def modify_def)
  have s1: "safe ?s1" using inv_map_filter [OF safe l] .
  obtain c' where c': "disuseEntry (k_freed K) (request_str c) (the_cache s) = Done () c'" "cache_ok c'"
    "abs_cache c' = store_disuse (request_str c) (abs_cache (the_cache s))"
    using disuseEntry_correct [of "the_cache s" "k_freed K" "request_str c"] safe
    by (auto simp: server_inv_def cache_ok_def)
  let ?s2 = "?s1\<lparr>the_cache := c'\<rparr>"
  have "safe ?s2" using s1 c'(2) by (simp add: server_inv_def)
  moreover have "heap ?s2 i = Some c" using c by simp
  ultimately have "clients_discardClient i ?s2 = Done () (without_client i c ?s2)"
    by (rule clients_discardClient_run)
  then have "discardClient K i s = Done () (without_client i c ?s2)"
    using c l remove c'(1) alone
    by (auto simp: discardClient_def andThen_def getC_def get_def map_at_def onCache_def zoom_def ret_def
        hasClientsWithRequest_def)
  then show ?thesis
    using c'(3) by (simp add: without_client_def)
qed

section \<open>Serving a client from the cache\<close>

text \<open>The bytes that a peer has been sent.\<close>

fun sent_on :: "fd \<Rightarrow> event \<Rightarrow> string" where
  "sent_on fd (Ev_send fd' bs (Some n)) = (if fd' = fd then take n bs else [])"
| "sent_on fd _ = []"

definition delivered :: "fd \<Rightarrow> history \<Rightarrow> string" where
  "delivered fd tr = concat (map (sent_on fd) tr)"

lemma delivered_append [simp]: "delivered fd (tr @ tr') = delivered fd tr @ delivered fd tr'"
  by (simp add: delivered_def)

lemma getEntry_lookup:
  assumes "cache_ok c" "lookup c k = Some e"
  shows "\<exists>ref c'. getEntry k c = Done ref c' \<and> deref ref c' = Done e c' \<and> cache_ok c' \<and> lookup c' = lookup c \<and>
    cache_room c' = cache_room c"
proof -
  have wf: "cache_wf c" using assms(1) by (simp add: cache_ok_def)
  obtain n c' where c': "getEntry k c = Done (it n) c'" "moved_to_back k n c c'" "node_entry n = e"
    using getEntry_present [OF wf assms(2)] by metis
  then have m: "cache_wf c'" "lru_list c' \<noteq> []" "n \<in> set (lru_list c')" "max_size c' = max_size c"
    "abs_cache c' = put_last k e (abs_cache c)" "current_size c' = current_size c"
    by (auto simp: moved_to_back_def)
  moreover from this have "find_node (it n) (lru_list c') = Some n" using wf_node by blast
  ultimately show ?thesis
    using c'(1,3) assms(1) moved_room [OF wf assms(2) m(5,4,6)] by (auto simp: deref_def cache_ok_def)
qed

lemma cache_read_lookup:
  assumes "cache_ok c" "lookup c k = Some e" "offset + len \<le> entry_size e"
  shows "\<exists>c'. cache_read k offset len c = Done (take len (drop offset (buffer e))) c' \<and> cache_ok c' \<and> lookup c' = lookup c \<and>
    cache_room c' = cache_room c"
proof -
  have wf: "cache_wf c" using assms(1) by (simp add: cache_ok_def)
  from cache_read_correct [OF wf assms(2,3)] obtain c' where
    "cache_read k offset len c = Done (take len (drop offset (buffer e))) c'" "cache_wf c'"
    "abs_cache c' = put_last k e (abs_cache c)" "max_size c' = max_size c" "current_size c' = current_size c"
    by blast
  with moved_room [OF wf assms(2), of c'] assms(1) show ?thesis by (auto simp: cache_ok_def)
qed

definition next_chunk :: "client \<Rightarrow> entry \<Rightarrow> string" where
  "next_chunk c e = take (min (entry_size e - sent_bytes c) MAX_CHUNK_SIZE) (drop (sent_bytes c) (buffer e))"

text \<open>New data: the next bytes of the entry, at most a chunk, and the socket takes some of them.\<close>

lemma sendCached_new_data:
  assumes ok: "cache_ok (the_cache s)" and c: "heap s i = Some c"
    and look: "lookup (the_cache s) (request_str c) = Some e" and more: "sent_bytes c < entry_size e"
    and K: "k_send K (trace s) (client_connection c) (next_chunk c e) = Some n"
  shows "\<exists>c'. sendCachedResponseToClient K i s = Done () (s\<lparr>the_cache := c',
      trace := trace s @ [Ev_send (client_connection c) (next_chunk c e) (Some n)],
      heap := (heap s)(i \<mapsto> c\<lparr>sent_bytes := sent_bytes c + n\<rparr>)\<rparr>) \<and>
    cache_ok c' \<and> lookup c' = lookup (the_cache s) \<and> cache_room c' = cache_room (the_cache s)"
proof -
  obtain ref c1 where c1: "getEntry (request_str c) (the_cache s) = Done ref c1" "deref ref c1 = Done e c1"
    "cache_ok c1" "lookup c1 = lookup (the_cache s)" "cache_room c1 = cache_room (the_cache s)"
    using getEntry_lookup [OF ok look] by blast
  have "sent_bytes c + min (entry_size e - sent_bytes c) MAX_CHUNK_SIZE \<le> entry_size e" using more by simp
  from cache_read_lookup [OF c1(3) _ this, of "request_str c"] c1(4) look obtain c2 where
    c2: "cache_read (request_str c) (sent_bytes c) (min (entry_size e - sent_bytes c) MAX_CHUNK_SIZE) c1 =
      Done (next_chunk c e) c2" "cache_ok c2" "lookup c2 = lookup c1" "cache_room c2 = cache_room c1"
    by (auto simp: next_chunk_def)
  with c1 c K more show ?thesis
    by (intro exI [of _ c2]) (simp add: sendCachedResponseToClient_def tryCatch_def andThen_def getC_def setC_def onCache_def zoom_def
        sendToClient_def send_bytes_def get_def log_event_def modify_def ret_def)
qed

text \<open>Everything sent: wait for more, or leave once the entry is complete.\<close>

lemma sendCached_all_sent:
  assumes ok: "cache_ok (the_cache s)" and c: "heap s i = Some c"
    and look: "lookup (the_cache s) (request_str c) = Some e" and all: "\<not> sent_bytes c < entry_size e"
  shows "\<exists>c'. sendCachedResponseToClient K i s = tryCatch is_spx_exception
      (if entry_isCompleted e then discardClient K i else ret ())
      (\<lambda>x. if x = KeyNotFoundException then ret () else discardClient K i) (s\<lparr>the_cache := c'\<rparr>) \<and>
    cache_ok c' \<and> lookup c' = lookup (the_cache s) \<and> cache_room c' = cache_room (the_cache s)"
proof -
  obtain ref c1 where c1: "getEntry (request_str c) (the_cache s) = Done ref c1" "deref ref c1 = Done e c1"
    "cache_ok c1" "lookup c1 = lookup (the_cache s)" "cache_room c1 = cache_room (the_cache s)"
    using getEntry_lookup [OF ok look] by blast
  with c all show ?thesis
    by (auto simp: sendCachedResponseToClient_def tryCatch_def andThen_def getC_def onCache_def zoom_def)
qed

definition reads_from_cache :: "client \<Rightarrow> bool" where
  "reads_from_cache c \<longleftrightarrow> state c = got_response \<and> should_read_from_cache c"

lemma writable_run:
  assumes "heap s i = Some c" "reads_from_cache c"
  shows "handleClientSocketEvents K i POLLOUT s =
    tryCatch is_spx_exception (sendCachedResponseToClient K i) (\<lambda>_. ret ()) s"
  using assms
  by (simp add: handleClientSocketEvents_def handle_state_def handle_sending_def sendResponseToClient_def
      reads_from_cache_def tryCatch_def andThen_def getC_def poll_defs)

text \<open>
  A socket that always takes something. Under that assumption each event of a readable client
  makes progress, so that \<open>entry_size\<close> minus \<open>sent_bytes\<close> events deliver the rest of the entry.
\<close>

definition accepts_data :: "kernel \<Rightarrow> fd \<Rightarrow> bool" where
  "accepts_data K fd \<longleftrightarrow> (\<forall>tr bs. bs \<noteq> [] \<longrightarrow> (\<exists>n. k_send K tr fd bs = Some n \<and> 0 < n \<and> n \<le> length bs))"

lemma next_chunk_take:
  assumes "sent_bytes c < entry_size e"
  shows "next_chunk c e \<noteq> []"
    "n \<le> length (next_chunk c e) \<Longrightarrow> take n (next_chunk c e) = take n (drop (sent_bytes c) (buffer e))"
    "n \<le> length (next_chunk c e) \<Longrightarrow> sent_bytes c + n \<le> entry_size e"
  using assms by (auto simp: next_chunk_def entry_size_def MAX_CHUNK_SIZE_def)

lemma serve_from_cache:
  assumes "cache_ok (the_cache s)" "heap s i = Some c" "reads_from_cache c"
    "lookup (the_cache s) (request_str c) = Some e" "sent_bytes c \<le> entry_size e"
    "accepts_data K (client_connection c)"
  shows "\<exists>n c' tr. n \<le> entry_size e - sent_bytes c \<and>
    forEach (replicate n POLLOUT) (handleClientSocketEvents K i) s = Done () (s\<lparr>the_cache := c', trace := tr,
      heap := (heap s)(i \<mapsto> c\<lparr>sent_bytes := entry_size e\<rparr>)\<rparr>) \<and>
    cache_ok c' \<and> lookup c' = lookup (the_cache s) \<and>
    delivered (client_connection c) tr = delivered (client_connection c) (trace s) @ drop (sent_bytes c) (buffer e) \<and>
    open_fds tr = open_fds (trace s) \<and>
    (\<forall>fd. fd \<noteq> client_connection c \<longrightarrow> delivered fd tr = delivered fd (trace s))"
  using assms
proof (induction "entry_size e - sent_bytes c" arbitrary: s c rule: less_induct)
  case less
  show ?case
  proof (cases "sent_bytes c < entry_size e")
    case False
    then have all: "sent_bytes c = entry_size e" using less.prems(5) by simp
    then have "c\<lparr>sent_bytes := entry_size e\<rparr> = c" by (metis (full_types) client.surjective client.update_convs(6))
    with less.prems all show ?thesis
      by (intro exI [of _ "0::nat"] exI [of _ "the_cache s"] exI [of _ "trace s"])
        (simp add: ret_def entry_size_def fun_upd_idem)
  next
    case True
    obtain n where n: "k_send K (trace s) (client_connection c) (next_chunk c e) = Some n" "0 < n" "n \<le> length (next_chunk c e)"
      using less.prems(6) next_chunk_take(1) [OF True] by (auto simp: accepts_data_def)
    obtain k1 where k1: "sendCachedResponseToClient K i s = Done () (s\<lparr>the_cache := k1,
        trace := trace s @ [Ev_send (client_connection c) (next_chunk c e) (Some n)],
        heap := (heap s)(i \<mapsto> c\<lparr>sent_bytes := sent_bytes c + n\<rparr>)\<rparr>)" "cache_ok k1" "lookup k1 = lookup (the_cache s)"
      using sendCached_new_data [OF less.prems(1,2,4) True n(1)] by blast
    let ?c = "c\<lparr>sent_bytes := sent_bytes c + n\<rparr>"
    let ?s = "s\<lparr>the_cache := k1, trace := trace s @ [Ev_send (client_connection c) (next_chunk c e) (Some n)],
        heap := (heap s)(i \<mapsto> ?c)\<rparr>"
    have step: "handleClientSocketEvents K i POLLOUT s = Done () ?s"
      using writable_run [OF less.prems(2,3)] k1(1) by (simp add: tryCatch_def)
    have fits: "sent_bytes c + n \<le> entry_size e" using next_chunk_take(3) [OF True n(3)] .
    have "entry_size e - sent_bytes ?c < entry_size e - sent_bytes c" using True n(2) by simp
    then obtain m k2 tr where k2: "m \<le> entry_size e - sent_bytes ?c"
      "forEach (replicate m POLLOUT) (handleClientSocketEvents K i) ?s = Done () (?s\<lparr>the_cache := k2, trace := tr,
        heap := (heap ?s)(i \<mapsto> ?c\<lparr>sent_bytes := entry_size e\<rparr>)\<rparr>)"
      "cache_ok k2" "lookup k2 = lookup (the_cache ?s)"
      "delivered (client_connection ?c) tr = delivered (client_connection ?c) (trace ?s) @ drop (sent_bytes ?c) (buffer e)"
      "open_fds tr = open_fds (trace ?s)"
      "\<forall>fd. fd \<noteq> client_connection ?c \<longrightarrow> delivered fd tr = delivered fd (trace ?s)"
      using less.hyps [of ?c ?s] k1(2,3) less.prems fits by (auto simp: reads_from_cache_def)
    have "forEach (replicate (Suc m) POLLOUT) (handleClientSocketEvents K i) s = Done () (s\<lparr>the_cache := k2, trace := tr,
        heap := (heap s)(i \<mapsto> c\<lparr>sent_bytes := entry_size e\<rparr>)\<rparr>)"
      using step k2(2) by (simp add: andThen_def)
    moreover have "delivered (client_connection c) tr =
        delivered (client_connection c) (trace s) @ drop (sent_bytes c) (buffer e)"
    proof -
      have "take n (next_chunk c e) @ drop (sent_bytes c + n) (buffer e) = drop (sent_bytes c) (buffer e)"
        using next_chunk_take(2) [OF True n(3)] append_take_drop_id [of n "drop (sent_bytes c) (buffer e)"]
        by (simp add: add.commute)
      with k2(5) show ?thesis by (simp add: delivered_def)
    qed
    moreover have "\<forall>fd. fd \<noteq> client_connection c \<longrightarrow> delivered fd tr = delivered fd (trace s)"
      using k2(7) by (simp add: delivered_def)
    moreover have "Suc m \<le> entry_size e - sent_bytes c" using k2(1) n(2) True fits by simp
    ultimately show ?thesis
      using k2(3,4,6) k1(3)
      by (intro exI [of _ "Suc m"] exI [of _ k2] exI [of _ tr]) simp
  qed
qed

lemma forEach_append:
  "forEach (xs @ ys) f s = andThen (forEach xs f) (\<lambda>_. forEach ys f) s"
  by (induction xs arbitrary: s) (simp_all add: andThen_def ret_def split: outcome.split)

lemma forEach_handlers_safe:
  assumes "kernel_safe K" "safe s" "forEach xs (handleClientSocketEvents K i) s = Done () t"
  shows "safe t"
proof -
  have "preserves (forEach xs (handleClientSocketEvents K i))"
    by (intro hoare_forEach handleClient_preserves assms(1))
  from hoareD [OF this assms(2)] assms(3) show ?thesis by (simp add: wp_def)
qed

lemma safe_cache: "safe s \<Longrightarrow> cache_ok k \<Longrightarrow> safe (s\<lparr>the_cache := k\<rparr>)"
  by (simp add: server_inv_def owners_ok_def fds_ok_def requests_ok_def owned_def)

lemma delivered_closes [simp]: "delivered fd (map Ev_close l) = []"
  by (simp add: delivered_def)

text \<open>A complete entry is delivered to the end, and then the client is closed.\<close>

lemma serve_complete:
  assumes K: "kernel_safe K" and safe: "safe s" and c: "heap s i = Some c" "reads_from_cache c"
    and l: "request_clients_map s (request_str c) = Some l"
    and e: "lookup (the_cache s) (request_str c) = Some e" "entry_isCompleted e" "sent_bytes c \<le> entry_size e"
    and send: "accepts_data K (client_connection c)"
  shows "\<exists>n u. n \<le> Suc (entry_size e - sent_bytes c) \<and>
    forEach (replicate n POLLOUT) (handleClientSocketEvents K i) s = Done () u \<and> heap u = (heap s)(i := None) \<and>
    delivered (client_connection c) (trace u) = delivered (client_connection c) (trace s) @ drop (sent_bytes c) (buffer e) \<and>
    client_connection c \<notin> set (open_fds (trace u)) \<and>
    (\<forall>fd. fd \<noteq> client_connection c \<longrightarrow> delivered fd (trace u) = delivered fd (trace s)) \<and>
    (\<forall>k. lookup (the_cache u) k = (if k = request_str c then
       (if disposable (entry_decrementUse e) then None else Some (entry_decrementUse e)) else lookup (the_cache s) k))"
proof -
  have ok: "cache_ok (the_cache s)" using safe by (simp add: server_inv_def)
  let ?c = "c\<lparr>sent_bytes := entry_size e\<rparr>"
  obtain n k tr where run: "n \<le> entry_size e - sent_bytes c"
    "forEach (replicate n POLLOUT) (handleClientSocketEvents K i) s =
      Done () (s\<lparr>the_cache := k, trace := tr, heap := (heap s)(i \<mapsto> ?c)\<rparr>)"
    "cache_ok k" "lookup k = lookup (the_cache s)"
    "delivered (client_connection c) tr = delivered (client_connection c) (trace s) @ drop (sent_bytes c) (buffer e)"
    "\<forall>fd. fd \<noteq> client_connection c \<longrightarrow> delivered fd tr = delivered fd (trace s)"
    using serve_from_cache [OF ok c e(1,3) send] by blast
  let ?t = "s\<lparr>the_cache := k, trace := tr, heap := (heap s)(i \<mapsto> ?c)\<rparr>"
  have t: "safe ?t" by (rule forEach_handlers_safe [OF K safe run(2)])
  obtain k1 where k1: "sendCachedResponseToClient K i ?t = tryCatch is_spx_exception (discardClient K i)
      (\<lambda>x. if x = KeyNotFoundException then ret () else discardClient K i) (?t\<lparr>the_cache := k1\<rparr>)" "cache_ok k1"
    "lookup k1 = lookup (the_cache s)"
    using sendCached_all_sent [of ?t i ?c e K] run(3,4) e(1,2) by auto
  let ?u = "?t\<lparr>the_cache := k1\<rparr>"
  have "safe ?u" by (rule safe_cache [OF t k1(2)])
  moreover have "heap ?u i = Some ?c" "request_clients_map ?u (request_str ?c) = Some l" "state ?c \<noteq> waiting_response"
    using l c(2) by (simp_all add: reads_from_cache_def)
  ultimately obtain v where v: "discardClient K i ?u = Done () v" "heap v = (heap ?u)(i := None)"
    "trace v = trace ?u @ map Ev_close (rev (fds_of ?c))"
    "abs_cache (the_cache v) = store_disuse (request_str ?c) (abs_cache (the_cache ?u))"
    using discardClient_run [of ?u i ?c l K] by blast
  have last: "handleClientSocketEvents K i POLLOUT ?t = Done () v"
    using writable_run [of ?t i ?c K] c(2) k1(1) v(1) by (simp add: reads_from_cache_def tryCatch_def)
  have "forEach (replicate n POLLOUT @ [POLLOUT]) (handleClientSocketEvents K i) s = Done () v"
    unfolding forEach_append using run(2) last by (simp add: andThen_def ret_def)
  then have all: "forEach (replicate (Suc n) POLLOUT) (handleClientSocketEvents K i) s = Done () v"
    by (simp add: replicate_append_same)
  have "client_connection c \<notin> set (open_fds (trace v))"
    using v(3) set_open_closes [of tr "rev (fds_of ?c)"] by (simp add: fds_of_def)
  moreover have "lookup (the_cache v) k = (if k = request_str c then
       (if disposable (entry_decrementUse e) then None else Some (entry_decrementUse e)) else lookup (the_cache s) k)" for k
  proof -
    have "map_of (abs_cache (the_cache s)) = map_of (abs_cache k1)" using k1(3) by (simp add: lookup_def fun_eq_iff)
    moreover have "distinct (map fst (abs_cache k1))" using k1(2) wf_distinct_keys by (simp add: cache_ok_def)
    ultimately show ?thesis
      using v(4) e(1) by (simp add: lookup_def map_of_put_last map_of_remove_key)
  qed
  ultimately show ?thesis
    using all v(2,3) run(1,5,6) by (intro exI [of _ "Suc n"] exI [of _ v]) (simp add: rev_map)
qed

end
