(* ===== verification/Server_Fetch.thy ===== *)
theory Server_Fetch
  imports Server_Requests
begin

text \<open>
  A response fetched from the origin server: the status event that opens the cache entry and
  turns the waiting clients to it, the chunks that extend it, and the end that completes it.
\<close>

section \<open>The status event\<close>

definition to_cache :: "client \<Rightarrow> client" where
  "to_cache d = d\<lparr>state := got_response, should_read_from_cache := True\<rparr>"

definition use_others :: "client_id \<Rightarrow> client_id \<Rightarrow> unit server_act" where
  "use_others i j = andThen (client_eq i j) (\<lambda>same. if \<not> same then setClientToGetResponseFromCache j else ret ())"

lemma use_one:
  assumes "cache_ok (the_cache s)" "heap s j = Some d" "lookup (the_cache s) (request_str d) = Some e" "0 < in_use e"
  shows "\<exists>k. setClientToGetResponseFromCache j s = Done () (s\<lparr>heap := (heap s)(j \<mapsto> to_cache d), the_cache := k\<rparr>) \<and>
    cache_ok k \<and> cache_room k = cache_room (the_cache s) \<and> lookup k (request_str d) = Some (e\<lparr>in_use := in_use e + 1\<rparr>)"
proof -
  obtain k where k: "useEntry (request_str d) (the_cache s) = Done () k" "cache_ok k" "cache_room k = cache_room (the_cache s)"
    "lookup k (request_str d) = Some (e\<lparr>in_use := in_use e + 1\<rparr>)"
    using useEntry_room [OF assms(1), of "request_str d"] assms(3,4)
    by (auto simp: entry_inUse_def entry_incrementUse_def)
  then show ?thesis
    using assms(2)
    by (intro exI [of _ k]) (simp add: setClientToGetResponseFromCache_def andThen_def getC_def setC_def onCache_def zoom_def
        to_cache_def)
qed

text \<open>All the other clients of the request are turned to the cache, each counted as a user.\<close>

lemma use_all:
  assumes "cache_ok (the_cache s)" "heap s i \<noteq> None" "distinct l"
    "\<forall>j \<in> set l. \<exists>d. heap s j = Some d \<and> request_str d = key" "lookup (the_cache s) key = Some e" "0 < in_use e"
  shows "\<exists>h k. forEach l (use_others i) s = Done () (s\<lparr>heap := h, the_cache := k\<rparr>) \<and> cache_ok k \<and>
    cache_room k = cache_room (the_cache s) \<and>
    lookup k key = Some (e\<lparr>in_use := in_use e + int (length (filter (\<lambda>j. j \<noteq> i) l))\<rparr>) \<and>
    h = (\<lambda>j. if j \<in> set l \<and> j \<noteq> i then map_option to_cache (heap s j) else heap s j)"
  using assms
proof (induction l arbitrary: s e)
  case Nil
  then show ?case by (intro exI [of _ "heap s"] exI [of _ "the_cache s"]) (simp add: ret_def)
next
  case (Cons j l)
  obtain d where d: "heap s j = Some d" "request_str d = key" using Cons.prems(4) by auto
  show ?case
  proof (cases "j = i")
    case True
    have "use_others i j s = Done () s"
      using True d(1) by (simp add: use_others_def client_eq_def andThen_def getC_def ret_def)
    moreover obtain h k where "forEach l (use_others i) s = Done () (s\<lparr>heap := h, the_cache := k\<rparr>)" "cache_ok k"
      "cache_room k = cache_room (the_cache s)"
      "lookup k key = Some (e\<lparr>in_use := in_use e + int (length (filter (\<lambda>j. j \<noteq> i) l))\<rparr>)"
      "h = (\<lambda>j. if j \<in> set l \<and> j \<noteq> i then map_option to_cache (heap s j) else heap s j)"
      using Cons.IH [of s e] Cons.prems by auto
    ultimately show ?thesis
      using True by (intro exI [of _ h] exI [of _ k]) (auto simp: andThen_def fun_eq_iff)
  next
    case False
    obtain k1 where k1: "setClientToGetResponseFromCache j s = Done () (s\<lparr>heap := (heap s)(j \<mapsto> to_cache d), the_cache := k1\<rparr>)"
      "cache_ok k1" "cache_room k1 = cache_room (the_cache s)" "lookup k1 key = Some (e\<lparr>in_use := in_use e + 1\<rparr>)"
      using use_one [OF Cons.prems(1) d(1), of e] Cons.prems(5,6) d(2) by auto
    let ?t = "s\<lparr>heap := (heap s)(j \<mapsto> to_cache d), the_cache := k1\<rparr>"
    have "use_others i j s = Done () ?t"
      using False d(1) Cons.prems(2) k1(1) by (auto simp: use_others_def client_eq_def andThen_def getC_def ret_def)
    moreover have "\<exists>h k. forEach l (use_others i) ?t = Done () (?t\<lparr>heap := h, the_cache := k\<rparr>) \<and> cache_ok k \<and>
      cache_room k = cache_room (the_cache ?t) \<and>
      lookup k key = Some ((e\<lparr>in_use := in_use e + 1\<rparr>)\<lparr>in_use := in_use (e\<lparr>in_use := in_use e + 1\<rparr>) + int (length (filter (\<lambda>j. j \<noteq> i) l))\<rparr>) \<and>
      h = (\<lambda>j. if j \<in> set l \<and> j \<noteq> i then map_option to_cache (heap ?t j) else heap ?t j)"
      using Cons.prems k1 False by (intro Cons.IH) auto
    then obtain h k where "forEach l (use_others i) ?t = Done () (?t\<lparr>heap := h, the_cache := k\<rparr>)" "cache_ok k"
      "cache_room k = cache_room (the_cache s)"
      "lookup k key = Some (e\<lparr>in_use := in_use e + 1 + int (length (filter (\<lambda>j. j \<noteq> i) l))\<rparr>)"
      "h = (\<lambda>j. if j \<in> set l \<and> j \<noteq> i then map_option to_cache (heap ?t j) else heap ?t j)"
      using k1(3) by auto
    ultimately show ?thesis
      using False d(1) Cons.prems(3) by (intro exI [of _ h] exI [of _ k]) (auto simp: andThen_def fun_eq_iff algebra_simps)
  qed
qed

definition status_200 :: "string \<Rightarrow> bool" where
  "status_200 bs \<longleftrightarrow> STATUS_CODE_OFFSET + STATUS_CODE_LEN \<le> length bs \<and>
     stoi (take STATUS_CODE_LEN (drop STATUS_CODE_OFFSET bs)) = Inr OK_STATUS_CODE"

text \<open>The client that fetches, once its response has begun.\<close>

definition fetching :: "client \<Rightarrow> client" where
  "fetching c = c\<lparr>should_write_to_cache := True, should_read_from_cache := True, state := waiting_response\<rparr>"

lemma write_chunk:
  assumes "cache_ok (the_cache s)" "intact (k_freed K)" "heap s i = Some c" "lookup (the_cache s) (request_str c) = Some e"
    "entry_inUse e" "length bs \<le> cache_room (the_cache s)"
  shows "\<exists>k. writeResponseChunkToCache K i bs s = Done () (s\<lparr>the_cache := k\<rparr>) \<and> cache_ok k \<and>
    cache_room k + length bs = cache_room (the_cache s) \<and> lookup k (request_str c) = Some (entry_append bs e)"
proof -
  obtain k where "cache_write (k_freed K) (request_str c) bs (the_cache s) = Done () k" "cache_ok k"
    "lookup k (request_str c) = Some (entry_append bs e)" "cache_room k + length bs = cache_room (the_cache s)"
    using cache_write_room [OF assms(1,2,4-6)] by blast
  then show ?thesis
    using assms(3)
    by (intro exI [of _ k]) (simp add: writeResponseChunkToCache_def tryCatch_def andThen_def getC_def onCache_def zoom_def)
qed

lemma read_status_unfold:
  "readResponseStatusCodeFromServer K i = tryCatch is_spx_exception
     (andThen (readResponseChunk K i) (\<lambda>chunk.
      andThen (status_code chunk) (\<lambda>code.
      andThen (getC i request_str) (\<lambda>key.
      andThen (if code = OK_STATUS_CODE then
          andThen (setC i (\<lambda>c. c\<lparr>should_write_to_cache := True, should_read_from_cache := True\<rparr>)) (\<lambda>_.
          andThen (onCache (useEntry key)) (\<lambda>_.
          andThen (writeResponseChunkToCache K i chunk) (\<lambda>_.
          andThen (map_at key) (\<lambda>l. forEach l (use_others i)))))
        else
          andThen (writeResponseChunkToClientBuffer i chunk) (\<lambda>_.
          prepareAllWaitingClientsForSending K key)) (\<lambda>_.
      setC i (\<lambda>c. c\<lparr>state := waiting_response\<rparr>))))))
     (\<lambda>_. andThen (getC i request_str) (\<lambda>key.
      andThen (prepareAllWaitingClientsForSending K key) (\<lambda>_. discardClient K i)))"
  unfolding readResponseStatusCodeFromServer_def use_others_def [abs_def] ..

lemma status_event_200:
  assumes safe: "safe s" and K: "intact (k_freed K)"
    and c: "heap s i = Some c" "state c = waiting_response_status_code" "server_connection c = Some fd"
    and l: "request_clients_map s (request_str c) = Some l" "i \<in> set l" and new: "lookup (the_cache s) (request_str c) = None"
    and bs: "k_recv K (trace s) fd MAX_CHUNK_SIZE = Some bs" "bs \<noteq> []" "status_200 bs" "length bs \<le> cache_room (the_cache s)"
  shows "\<exists>k. handleClientSocketEvents K i POLLIN s = Done () (s\<lparr>
      trace := trace s @ [Ev_recv fd MAX_CHUNK_SIZE (Some bs)], the_cache := k,
      heap := (\<lambda>j. if j = i then Some (fetching c) else if j \<in> set l then map_option to_cache (heap s j) else heap s j)\<rparr>) \<and>
    cache_ok k \<and> cache_room k + length bs = cache_room (the_cache s) \<and>
    lookup k (request_str c) = Some \<lparr>buffer = bs, completed = False, in_use = int (length l)\<rparr>"
proof -
  let ?key = "request_str c" let ?c = "c\<lparr>should_write_to_cache := True, should_read_from_cache := True\<rparr>"
  let ?t = "s\<lparr>trace := trace s @ [Ev_recv fd MAX_CHUNK_SIZE (Some bs)], heap := (heap s)(i \<mapsto> ?c)\<rparr>"
  have ok: "cache_ok (the_cache s)" using safe by (simp add: server_inv_def)
  have dist: "distinct l" and live: "\<forall>j \<in> set l. \<exists>d. heap s j = Some d \<and> request_str d = ?key"
    using safe l(1) unfolding server_inv_def requests_ok_def by blast+
  obtain k1 where k1: "useEntry ?key (the_cache s) = Done () k1" "cache_ok k1" "cache_room k1 = cache_room (the_cache s)"
    "lookup k1 ?key = Some new_entry"
    using useEntry_room [OF ok, of ?key] new by auto
  obtain k2 where k2: "writeResponseChunkToCache K i bs (?t\<lparr>the_cache := k1\<rparr>) = Done () (?t\<lparr>the_cache := k2\<rparr>)" "cache_ok k2"
    "cache_room k2 + length bs = cache_room k1" "lookup k2 ?key = Some (entry_append bs new_entry)"
    using write_chunk [of "?t\<lparr>the_cache := k1\<rparr>" K i ?c new_entry bs] k1 K bs(4) by (auto simp: entry_inUse_def new_entry_def)
  let ?s2 = "?t\<lparr>the_cache := k2\<rparr>"
  have pre: "cache_ok (the_cache ?s2)" "heap ?s2 i \<noteq> None" "lookup (the_cache ?s2) ?key = Some (entry_append bs new_entry)"
    "0 < in_use (entry_append bs new_entry)" "\<forall>j \<in> set l. \<exists>d. heap ?s2 j = Some d \<and> request_str d = ?key"
    using k2(2,4) live by (auto simp: entry_append_def new_entry_def)
  obtain h k3 where k3: "forEach l (use_others i) ?s2 = Done () (?s2\<lparr>heap := h, the_cache := k3\<rparr>)" "cache_ok k3"
    "cache_room k3 = cache_room (the_cache ?s2)"
    "lookup k3 ?key = Some ((entry_append bs new_entry)\<lparr>in_use := in_use (entry_append bs new_entry) +
      int (length (filter (\<lambda>j. j \<noteq> i) l))\<rparr>)"
    "h = (\<lambda>j. if j \<in> set l \<and> j \<noteq> i then map_option to_cache (heap ?s2 j) else heap ?s2 j)"
    using use_all [OF pre(1,2) dist pre(5,3,4)] by (elim exE conjE)
  have others: "1 + int (length (filter (\<lambda>j. j \<noteq> i) l)) = int (length l)"
  proof -
    have "length (filter (\<lambda>j. j \<noteq> i) l) + length (filter (\<lambda>j. \<not> j \<noteq> i) l) = length l"
      by (rule sum_length_filter_compl)
    moreover have "filter (\<lambda>j. \<not> j \<noteq> i) l = [i]" using dist l(2)
      by (induction l) (auto simp: filter_empty_conv)
    ultimately show ?thesis by simp
  qed
  have hi: "h i = Some ?c" by (simp add: k3(5))
  have heap: "h(i \<mapsto> ?c\<lparr>state := waiting_response\<rparr>) =
      (\<lambda>j. if j = i then Some (fetching c) else if j \<in> set l then map_option to_cache (heap s j) else heap s j)"
    by (auto simp: k3(5) fetching_def fun_eq_iff)
  have "handleClientSocketEvents K i POLLIN s = Done () (s\<lparr>trace := trace s @ [Ev_recv fd MAX_CHUNK_SIZE (Some bs)],
      the_cache := k3, heap := h(i \<mapsto> ?c\<lparr>state := waiting_response\<rparr>)\<rparr>)"
    using c bs(1-3) k1(1) k2(1) k3(1) l(1) hi
    by (simp add: handleClientSocketEvents_def handle_state_def read_status_unfold tryCatch_def
        readResponseChunk_def server_conn_def receive_def status_code_def status_200_def andThen_def getC_def setC_def get_def
        log_event_def modify_def ret_def onCache_def zoom_def map_at_def poll_defs)
  then show ?thesis
    unfolding heap using k2(3) k3(2-4) k1(3) others
    by (intro exI [of _ k3]) (simp add: entry_append_def new_entry_def)
qed

section \<open>The chunks and the end\<close>

lemma data_event:
  assumes "cache_ok (the_cache s)" "intact (k_freed K)" "heap s i = Some c" "state c = waiting_response"
    "should_write_to_cache c" "server_connection c = Some fd" "lookup (the_cache s) (request_str c) = Some e" "entry_inUse e"
    "k_recv K (trace s) fd MAX_CHUNK_SIZE = Some bs" "bs \<noteq> []" "length bs \<le> cache_room (the_cache s)"
  shows "\<exists>k. handleClientSocketEvents K i POLLIN s =
      Done () (s\<lparr>trace := trace s @ [Ev_recv fd MAX_CHUNK_SIZE (Some bs)], the_cache := k\<rparr>) \<and>
    cache_ok k \<and> cache_room k + length bs = cache_room (the_cache s) \<and> lookup k (request_str c) = Some (entry_append bs e)"
proof -
  let ?t = "s\<lparr>trace := trace s @ [Ev_recv fd MAX_CHUNK_SIZE (Some bs)]\<rparr>"
  obtain k where k: "writeResponseChunkToCache K i bs ?t = Done () (?t\<lparr>the_cache := k\<rparr>)" "cache_ok k"
    "cache_room k + length bs = cache_room (the_cache s)" "lookup k (request_str c) = Some (entry_append bs e)"
    using write_chunk [of ?t K i c e bs] assms by auto
  with assms show ?thesis
    by (intro exI [of _ k]) (simp add: handleClientSocketEvents_def handle_state_def handle_sending_def readResponseFromServer_def
        tryCatch_def readResponseChunk_def server_conn_def receive_def andThen_def getC_def get_def log_event_def modify_def
        ret_def poll_defs)
qed

lemma end_event:
  assumes "cache_ok (the_cache s)" "heap s i = Some c" "state c = waiting_response" "should_write_to_cache c"
    "server_connection c = Some fd" "lookup (the_cache s) (request_str c) = Some e"
    "k_recv K (trace s) fd MAX_CHUNK_SIZE = Some []"
  shows "\<exists>k. handleClientSocketEvents K i POLLIN s =
      Done () (s\<lparr>trace := trace s @ [Ev_recv fd MAX_CHUNK_SIZE (Some [])], the_cache := k,
        heap := (heap s)(i \<mapsto> c\<lparr>state := got_response\<rparr>)\<rparr>) \<and>
    cache_ok k \<and> lookup k (request_str c) = Some (entry_complete e)"
proof -
  have "cache_wf (the_cache s)" using assms(1) by (simp add: cache_ok_def)
  from completeEntry_correct [OF this assms(6)] assms(1) obtain k where
    k: "completeEntry (request_str c) (the_cache s) = Done () k" "cache_ok k" "lookup k (request_str c) = Some (entry_complete e)"
    by (auto simp: cache_ok_def lookup_def map_of_put_last)
  with assms show ?thesis
    by (intro exI [of _ k]) (simp add: handleClientSocketEvents_def handle_state_def handle_sending_def readResponseFromServer_def
        finish_response_def tryCatch_def readResponseChunk_def server_conn_def receive_def andThen_def getC_def setC_def get_def
        log_event_def modify_def ret_def raise_def onCache_def zoom_def poll_defs)
qed

text \<open>The origin's bytes arrive as the chunks \<open>qs\<close>, then the connection is closed.\<close>

fun streams :: "kernel \<Rightarrow> fd \<Rightarrow> history \<Rightarrow> string list \<Rightarrow> bool" where
  "streams K fd tr [] \<longleftrightarrow> k_recv K tr fd MAX_CHUNK_SIZE = Some []"
| "streams K fd tr (q # qs) \<longleftrightarrow> k_recv K tr fd MAX_CHUNK_SIZE = Some q \<and> q \<noteq> [] \<and>
     streams K fd (tr @ [Ev_recv fd MAX_CHUNK_SIZE (Some q)]) qs"

definition chunk_events :: "fd \<Rightarrow> string list \<Rightarrow> history" where
  "chunk_events fd qs = map (\<lambda>q. Ev_recv fd MAX_CHUNK_SIZE (Some q)) qs"

lemma fetch_rest:
  assumes "cache_ok (the_cache s)" "intact (k_freed K)" "heap s i = Some c" "state c = waiting_response"
    "should_write_to_cache c" "server_connection c = Some fd" "lookup (the_cache s) (request_str c) = Some e" "entry_inUse e"
    "streams K fd (trace s) qs" "length (concat qs) \<le> cache_room (the_cache s)"
  shows "\<exists>k. forEach (replicate (Suc (length qs)) POLLIN) (handleClientSocketEvents K i) s =
      Done () (s\<lparr>trace := trace s @ chunk_events fd (qs @ [[]]), the_cache := k, heap := (heap s)(i \<mapsto> c\<lparr>state := got_response\<rparr>)\<rparr>) \<and>
    cache_ok k \<and> lookup k (request_str c) = Some (e\<lparr>buffer := buffer e @ concat qs, completed := True\<rparr>)"
  using assms
proof (induction qs arbitrary: s e)
  case Nil
  then obtain k where "handleClientSocketEvents K i POLLIN s =
      Done () (s\<lparr>trace := trace s @ [Ev_recv fd MAX_CHUNK_SIZE (Some [])], the_cache := k,
        heap := (heap s)(i \<mapsto> c\<lparr>state := got_response\<rparr>)\<rparr>)" "cache_ok k" "lookup k (request_str c) = Some (entry_complete e)"
    using end_event [of s i c fd e K] by auto
  then show ?case
    by (intro exI [of _ k]) (simp add: andThen_def ret_def chunk_events_def entry_complete_def fun_upd_def)
next
  case (Cons q qs)
  then obtain k1 where k1: "handleClientSocketEvents K i POLLIN s =
      Done () (s\<lparr>trace := trace s @ [Ev_recv fd MAX_CHUNK_SIZE (Some q)], the_cache := k1\<rparr>)"
    "cache_ok k1" "cache_room k1 + length q = cache_room (the_cache s)" "lookup k1 (request_str c) = Some (entry_append q e)"
    using data_event [of s K i c fd e q] by auto
  let ?t = "s\<lparr>trace := trace s @ [Ev_recv fd MAX_CHUNK_SIZE (Some q)], the_cache := k1\<rparr>"
  have "\<exists>k. forEach (replicate (Suc (length qs)) POLLIN) (handleClientSocketEvents K i) ?t =
      Done () (?t\<lparr>trace := trace ?t @ chunk_events fd (qs @ [[]]), the_cache := k, heap := (heap ?t)(i \<mapsto> c\<lparr>state := got_response\<rparr>)\<rparr>) \<and>
    cache_ok k \<and> lookup k (request_str c) =
      Some ((entry_append q e)\<lparr>buffer := buffer (entry_append q e) @ concat qs, completed := True\<rparr>)"
    using Cons.prems k1(2-4) by (intro Cons.IH) (auto simp: entry_append_def entry_inUse_def)
  then obtain k where k: "forEach (replicate (Suc (length qs)) POLLIN) (handleClientSocketEvents K i) ?t =
      Done () (?t\<lparr>trace := trace ?t @ chunk_events fd (qs @ [[]]), the_cache := k, heap := (heap ?t)(i \<mapsto> c\<lparr>state := got_response\<rparr>)\<rparr>)"
    "cache_ok k" "lookup k (request_str c) =
      Some ((entry_append q e)\<lparr>buffer := buffer (entry_append q e) @ concat qs, completed := True\<rparr>)"
    by (elim exE conjE)
  have "forEach (replicate (Suc (length (q # qs))) POLLIN) (handleClientSocketEvents K i) s =
      forEach (replicate (Suc (length qs)) POLLIN) (handleClientSocketEvents K i) ?t"
    by (simp add: andThen_def k1(1))
  with k show ?case
    by (intro exI [of _ k]) (simp add: chunk_events_def entry_append_def fun_upd_def)
qed

text \<open>
  From the status line to the end of the response: the entry holds exactly the bytes the origin
  sent and is complete, and every client of the request reads from it, from where it was.
\<close>

lemma fetch_complete:
  assumes safe: "safe s" and K: "intact (k_freed K)"
    and c: "heap s i = Some c" "state c = waiting_response_status_code" "server_connection c = Some fd"
    and l: "request_clients_map s (request_str c) = Some l" "i \<in> set l" and new: "lookup (the_cache s) (request_str c) = None"
    and qs: "streams K fd (trace s) (q # qs)" "status_200 q" "length (concat (q # qs)) \<le> cache_room (the_cache s)"
  shows "\<exists>t. forEach (replicate (length qs + 2) POLLIN) (handleClientSocketEvents K i) s = Done () t \<and>
    trace t = trace s @ chunk_events fd (q # qs @ [[]]) \<and> cache_ok (the_cache t) \<and>
    lookup (the_cache t) (request_str c) = Some \<lparr>buffer = concat (q # qs), completed = True, in_use = int (length l)\<rparr> \<and>
    request_clients_map t = request_clients_map s \<and> (\<forall>j. j \<notin> set l \<longrightarrow> heap t j = heap s j) \<and>
    (\<forall>j \<in> set l. \<exists>d d'. heap s j = Some d \<and> heap t j = Some d' \<and> reads_from_cache d' \<and>
      request_str d' = request_str c \<and> sent_bytes d' = sent_bytes d \<and> client_connection d' = client_connection d)"
proof -
  let ?h = "\<lambda>j. if j = i then Some (fetching c) else if j \<in> set l then map_option to_cache (heap s j) else heap s j"
  let ?e = "\<lparr>buffer = q, completed = False, in_use = int (length l)\<rparr>"
  obtain k1 where k1: "handleClientSocketEvents K i POLLIN s = Done () (s\<lparr>
      trace := trace s @ [Ev_recv fd MAX_CHUNK_SIZE (Some q)], the_cache := k1, heap := ?h\<rparr>)" (is "_ = Done () ?t")
    "cache_ok k1" "cache_room k1 + length q = cache_room (the_cache s)" "lookup k1 (request_str c) = Some ?e"
    using status_event_200 [OF safe K c l new] qs by auto
  have "\<exists>k. forEach (replicate (Suc (length qs)) POLLIN) (handleClientSocketEvents K i) ?t =
      Done () (?t\<lparr>trace := trace ?t @ chunk_events fd (qs @ [[]]), the_cache := k,
        heap := (heap ?t)(i \<mapsto> (fetching c)\<lparr>state := got_response\<rparr>)\<rparr>) \<and>
    cache_ok k \<and> lookup k (request_str (fetching c)) = Some (?e\<lparr>buffer := buffer ?e @ concat qs, completed := True\<rparr>)"
    using k1(2-4) K c(3) qs l(2) by (intro fetch_rest) (auto simp: fetching_def entry_inUse_def)
  then obtain k where k: "forEach (replicate (Suc (length qs)) POLLIN) (handleClientSocketEvents K i) ?t =
      Done () (?t\<lparr>trace := trace ?t @ chunk_events fd (qs @ [[]]), the_cache := k,
        heap := (heap ?t)(i \<mapsto> (fetching c)\<lparr>state := got_response\<rparr>)\<rparr>)" (is "_ = Done () ?u")
    "cache_ok k" "lookup k (request_str c) = Some (?e\<lparr>buffer := buffer ?e @ concat qs, completed := True\<rparr>)"
    by (elim exE conjE) (simp add: fetching_def)
  have "replicate (length qs + 2) POLLIN = POLLIN # replicate (Suc (length qs)) POLLIN" by simp
  then have "forEach (replicate (length qs + 2) POLLIN) (handleClientSocketEvents K i) s = Done () ?u"
    using k(1) by (simp only: forEach.simps(2) andThen_def k1(1) outcome.case)
  moreover have "\<exists>d d'. heap s j = Some d \<and> heap ?u j = Some d' \<and> reads_from_cache d' \<and> request_str d' = request_str c \<and>
      sent_bytes d' = sent_bytes d \<and> client_connection d' = client_connection d" if j: "j \<in> set l" for j
  proof -
    obtain d where d: "heap s j = Some d" "request_str d = request_str c"
      using safe l(1) j unfolding server_inv_def requests_ok_def by blast
    show ?thesis
      using d c(1) j by (cases "j = i") (auto simp: fetching_def to_cache_def reads_from_cache_def)
  qed
  moreover have "\<forall>j. j \<notin> set l \<longrightarrow> heap ?u j = heap s j" using l(2) by auto
  ultimately show ?thesis
    using k(2,3) by (intro exI [of _ ?u]) (auto simp: chunk_events_def)
qed

end
