(* ===== verification/Schedule.thy ===== *)
theory Schedule
  imports Server_Fetch
begin

text \<open>
  Schedules of the events that concern one response: the origin's connection and those of the
  clients that share it, in any order. The locale is what the event loop relies on in the
  handlers: each returns and keeps an invariant that counts the origin's events; once the response
  is complete, each event of a client brings that client closer to its end.
\<close>

section \<open>Schedules\<close>

text \<open>
  One event is either the origin's connection becoming readable, or a client's becoming
  writable. \<open>poll\<close> reports no event for a client that is gone, and none on the origin's
  connection once the response is complete.
\<close>

datatype stream_event = From_origin | To_client client_id

definition stream_step :: "kernel \<Rightarrow> client_id \<Rightarrow> stream_event \<Rightarrow> unit server_act" where
  "stream_step K i ev = (\<lambda>s. case ev of
       From_origin \<Rightarrow> (case heap s i of
           None \<Rightarrow> Done () s
         | Some c \<Rightarrow> if state c = waiting_response then handleClientSocketEvents K i POLLIN s else Done () s)
     | To_client j \<Rightarrow> if heap s j = None then Done () s else handleClientSocketEvents K j POLLOUT s)"

text \<open>How often \<open>recv\<close> was called on a descriptor, and an origin that sends \<open>qs\<close> whatever else happens.\<close>

fun is_receipt :: "fd \<Rightarrow> event \<Rightarrow> bool" where
  "is_receipt fd (Ev_recv fd' _ _) = (fd' = fd)"
| "is_receipt fd _ = False"

definition receipts :: "fd \<Rightarrow> history \<Rightarrow> nat" where
  "receipts fd tr = length (filter (is_receipt fd) tr)"

definition sends :: "kernel \<Rightarrow> fd \<Rightarrow> history \<Rightarrow> string list \<Rightarrow> bool" where
  "sends K fd tr0 qs \<longleftrightarrow> [] \<notin> set qs \<and> (\<forall>tr. k_recv K (tr0 @ tr) fd MAX_CHUNK_SIZE =
     Some (if receipts fd tr < length qs then qs ! receipts fd tr else []))"

lemma receipts_simps [simp]:
  "receipts fd [] = 0" "receipts fd (tr @ tr') = receipts fd tr + receipts fd tr'"
  "receipts fd (e # tr) = (if is_receipt fd e then 1 else 0) + receipts fd tr"
  by (simp_all add: receipts_def)

lemma receipts_closes [simp]: "receipts fd (map Ev_close l) = 0"
  by (simp add: receipts_def)

lemma sends_next:
  "sends K fd tr (q # qs) \<Longrightarrow> receipts fd tr' = 0 \<Longrightarrow> k_recv K (tr @ tr') fd MAX_CHUNK_SIZE = Some q \<and> q \<noteq> [] \<and>
    sends K fd ((tr @ tr') @ [Ev_recv fd n r]) qs"
  by (auto simp: sends_def)

lemma sends_later: "sends K fd tr qs \<Longrightarrow> receipts fd tr' = 0 \<Longrightarrow> sends K fd (tr @ tr') qs"
  by (simp add: sends_def)

text \<open>What a schedule relies on outside the program: an origin that sends \<open>qs\<close>, clients that take data.\<close>

definition stream_world :: "kernel \<Rightarrow> client_id \<Rightarrow> fd \<Rightarrow> string list \<Rightarrow> client_id set \<Rightarrow> server \<Rightarrow> bool" where
  "stream_world K i fd qs L s0 \<longleftrightarrow> kernel_safe K \<and> safe s0 \<and> sends K fd (trace s0) qs \<and> i \<in> L \<and>
     (\<forall>j \<in> L. \<forall>d0. heap s0 j = Some d0 \<longrightarrow> accepts_data K (client_connection d0))"

definition sched_ok :: "client_id set \<Rightarrow> stream_event list \<Rightarrow> bool" where
  "sched_ok L es \<longleftrightarrow> (\<forall>j. To_client j \<in> set es \<longrightarrow> j \<in> L)"

lemma sched_ok_simps [simp]:
  "sched_ok L []" "sched_ok L (e # es) \<longleftrightarrow> (\<forall>j. e = To_client j \<longrightarrow> j \<in> L) \<and> sched_ok L es"
  "sched_ok L (es @ es') \<longleftrightarrow> sched_ok L es \<and> sched_ok L es'"
  by (auto simp: sched_ok_def)

section \<open>The contract of the handlers\<close>

locale scheduled =
  fixes step :: "stream_event \<Rightarrow> unit server_act"
    and inv :: "nat \<Rightarrow> server \<Rightarrow> bool"
    and finish :: nat
    and L :: "client_id set"
    and left :: "client_id \<Rightarrow> server \<Rightarrow> nat"
  assumes origin_law: "inv k s \<Longrightarrow> k \<le> finish \<Longrightarrow> \<exists>t. step From_origin s = Done () t \<and> inv (min (Suc k) finish) t"
    and idle_law: "inv finish s \<Longrightarrow> step From_origin s = Done () s"
    and client_law: "inv k s \<Longrightarrow> j \<in> L \<Longrightarrow> \<exists>t. step (To_client j) s = Done () t \<and> inv k t \<and>
      (\<forall>j'. j' \<noteq> j \<longrightarrow> left j' t = left j' s) \<and> (k = finish \<longrightarrow> left j t \<le> left j s - 1)"
begin

text \<open>
  Whatever the order, every handler returns; the origin's events are counted until the response
  is complete, and from then on each of its own events brings a client closer to the end.
\<close>

lemma run_schedule:
  assumes "sched_ok L es" "inv k s" "k \<le> finish"
  shows "\<exists>t. forEach es step s = Done () t \<and> inv (min (k + count_list es From_origin) finish) t \<and>
    (k = finish \<longrightarrow> (\<forall>j. left j t \<le> left j s - count_list es (To_client j)))"
  using assms
proof (induction es arbitrary: k s)
  case Nil
  then show ?case by (intro exI [of _ s]) (simp add: ret_def min_absorb1)
next
  case (Cons ev es)
  show ?case
  proof (cases ev)
    case From_origin
    obtain u where u: "step ev s = Done () u" "inv (min (Suc k) finish) u"
      using origin_law [OF Cons.prems(2,3)] From_origin by auto
    have same: "u = s" if "k = finish" using idle_law Cons.prems(2) that u(1) From_origin by auto
    obtain t where t: "forEach es step u = Done () t" "inv (min (min (Suc k) finish + count_list es From_origin) finish) t"
      "min (Suc k) finish = finish \<longrightarrow> (\<forall>j. left j t \<le> left j u - count_list es (To_client j))"
      using Cons.IH [OF _ u(2)] Cons.prems(1) by auto
    have "min (min (Suc k) finish + count_list es From_origin) finish = min (k + count_list (ev # es) From_origin) finish"
      using From_origin by simp
    with t u(1) same show ?thesis
      using From_origin by (intro exI [of _ t]) (auto simp: andThen_def)
  next
    case (To_client j)
    obtain u where u: "step ev s = Done () u" "inv k u" "\<forall>j'. j' \<noteq> j \<longrightarrow> left j' u = left j' s"
      "k = finish \<longrightarrow> left j u \<le> left j s - 1"
      using client_law [OF Cons.prems(2), of j] To_client Cons.prems(1) by auto
    obtain t where t: "forEach es step u = Done () t" "inv (min (k + count_list es From_origin) finish) t"
      "k = finish \<longrightarrow> (\<forall>j. left j t \<le> left j u - count_list es (To_client j))"
      using Cons.IH [OF _ u(2) Cons.prems(3)] Cons.prems(1) by auto
    have "left j' t \<le> left j' s - count_list (ev # es) (To_client j')" if "k = finish" for j'
    proof -
      have "left j' t \<le> left j' u - count_list es (To_client j')" using t(3) that by blast
      then show ?thesis
        using u(3,4) that To_client by (cases "j' = j") auto
    qed
    then show ?thesis
      using t(1,2) u(1) To_client by (intro exI [of _ t]) (simp add: andThen_def)
  qed
qed

end

end
