(* ===== verification/Server_Stream.thy ===== *)
theory Server_Stream
  imports Schedule
begin

text \<open>
  A response on its way through the cache while its clients are already being served: the chunks
  of the origin and the writable events of the clients in any order. Each client has at any
  time been sent a prefix of what has arrived, and one that is gone has been sent all of it.
\<close>

section \<open>What holds between events\<close>

text \<open>A reader: \<open>tr\<close> is what happened since it was \<open>d0\<close>.\<close>

definition progress :: "history \<Rightarrow> entry \<Rightarrow> client \<Rightarrow> client \<Rightarrow> bool" where
  "progress tr e d0 d \<longleftrightarrow> should_read_from_cache d \<and> chunks d = [] \<and> request_str d = request_str d0 \<and>
     client_connection d = client_connection d0 \<and> sent_bytes d0 \<le> sent_bytes d \<and> sent_bytes d \<le> entry_size e \<and>
     delivered (client_connection d0) tr @ drop (sent_bytes d) (buffer e) = drop (sent_bytes d0) (buffer e)"

definition reader_ok :: "client_id \<Rightarrow> bool \<Rightarrow> history \<Rightarrow> entry \<Rightarrow> client_id \<Rightarrow> client \<Rightarrow> client option \<Rightarrow> bool" where
  "reader_ok i whole tr e j d0 now \<longleftrightarrow> (case now of
       None \<Rightarrow> whole \<and> delivered (client_connection d0) tr = drop (sent_bytes d0) (buffer e)
     | Some d \<Rightarrow> progress tr e d0 d \<and>
         (state d = got_response \<or> j = i \<and> \<not> whole \<and> state d = waiting_response))"

text \<open>
  \<open>L\<close> are the clients of the request when \<open>s0\<close> was reached and \<open>b0\<close> had been stored; \<open>k\<close> counts the
  receipts since, and what they brought has taken its room in the cache.
\<close>

definition flow :: "client_id \<Rightarrow> fd \<Rightarrow> string \<Rightarrow> string list \<Rightarrow> client_id set \<Rightarrow> server \<Rightarrow> string \<Rightarrow> nat \<Rightarrow> server \<Rightarrow> bool" where
  "flow i fd key qs L s0 b0 k s \<longleftrightarrow> safe s \<and> (\<exists>tr e l.
     trace s = trace s0 @ tr \<and> receipts fd tr = k \<and> lookup (the_cache s) key = Some e \<and>
     buffer e = b0 @ concat (take k qs) \<and> (completed e \<longleftrightarrow> length qs < k) \<and> in_use e = int (length l) \<and>
     request_clients_map s key = Some l \<and> set l = {j \<in> L. heap s j \<noteq> None} \<and>
     length (concat (take k qs)) \<le> cache_room (the_cache s0) \<and>
     (k \<le> length qs \<longrightarrow> cache_room (the_cache s) + length (concat (take k qs)) = cache_room (the_cache s0) \<and>
       (\<exists>c. heap s i = Some c \<and> state c = waiting_response \<and> should_write_to_cache c \<and> server_connection c = Some fd)) \<and>
     (\<forall>j \<in> L. \<exists>d0. heap s0 j = Some d0 \<and> request_str d0 = key \<and> reader_ok i (length qs < k) tr e j d0 (heap s j)))"

text \<open>A client that reads from the cache is offered data in either of its two states.\<close>

lemma reader_run:
  assumes "heap s j = Some d" "should_read_from_cache d" "state d = got_response \<or> state d = waiting_response"
  shows "handleClientSocketEvents K j POLLOUT s = tryCatch is_spx_exception (sendCachedResponseToClient K j) (\<lambda>_. ret ()) s"
  using assms
  by (auto simp: handleClientSocketEvents_def handle_state_def handle_sending_def sendResponseToClient_def
      tryCatch_def andThen_def getC_def ret_def poll_defs)

lemma chunk_then_rest:
  assumes "sent_bytes d < entry_size e" "n \<le> length (next_chunk d e)"
  shows "take n (next_chunk d e) @ drop (sent_bytes d + n) (buffer e) = drop (sent_bytes d) (buffer e)"
  using next_chunk_take(2) [OF assms] append_take_drop_id [of n "drop (sent_bytes d) (buffer e)"]
  by (simp add: add.commute)

lemma delivered_other: "fd \<noteq> fd' \<Longrightarrow> delivered fd [Ev_send fd' bs res] = []"
  by (cases res) (simp_all add: delivered_def)

lemma connections_differ:
  "safe s \<Longrightarrow> heap s i = Some c \<Longrightarrow> heap s j = Some d \<Longrightarrow> i \<noteq> j \<Longrightarrow> client_connection c \<noteq> client_connection d"
  unfolding server_inv_def owners_ok_def by (metis option.inject)

lemma progress_grows: "progress tr e d0 d \<Longrightarrow> progress tr (entry_append q e) d0 d"
  by (auto simp: progress_def entry_append_def entry_size_def)

lemma progress_entry: "progress tr e d0 d \<Longrightarrow> buffer e' = buffer e \<Longrightarrow> progress tr e' d0 d"
  by (simp add: progress_def entry_size_def)

lemma progress_trace:
  "progress tr e d0 d \<Longrightarrow> delivered (client_connection d0) tr' = [] \<Longrightarrow> progress (tr @ tr') e d0 d"
  by (simp add: progress_def)

lemma handler_safe:
  "kernel_safe K \<Longrightarrow> safe s \<Longrightarrow> handleClientSocketEvents K i ev s = Done () t \<Longrightarrow> safe t"
  using hoareD [OF handleClient_preserves, of K s i ev] by (simp add: wp_def)

section \<open>One event\<close>

text \<open>What an event on the origin's connection leaves: the same clients and the same listening socket.\<close>

definition same_clients :: "server \<Rightarrow> server \<Rightarrow> bool" where
  "same_clients s t \<longleftrightarrow> (\<forall>j. heap t j = None \<longleftrightarrow> heap s j = None) \<and> server_socket t = server_socket s"

lemma delivered_recv [simp]: "delivered fd [Ev_recv fd' n res] = []"
  by (simp add: delivered_def)

text \<open>The origin's connection: a chunk, the end, or nothing any more.\<close>

lemma origin_chunk:
  assumes K: "kernel_safe K" and recv: "sends K fd (trace s0) qs" and flow: "flow i fd key qs L s0 b0 k s" and k: "k < length qs"
    and i: "i \<in> L" and room: "length (qs ! k) \<le> cache_room (the_cache s)"
  shows "\<exists>t. stream_step K i From_origin s = Done () t \<and> flow i fd key qs L s0 b0 (Suc k) t \<and> same_clients s t"
proof -
  obtain tr e l c where f: "safe s" "trace s = trace s0 @ tr" "receipts fd tr = k" "lookup (the_cache s) key = Some e"
    "buffer e = b0 @ concat (take k qs)" "\<not> completed e" "in_use e = int (length l)" "request_clients_map s key = Some l"
    "set l = {j \<in> L. heap s j \<noteq> None}"
    "cache_room (the_cache s) + length (concat (take k qs)) = cache_room (the_cache s0)"
    "heap s i = Some c" "state c = waiting_response" "should_write_to_cache c" "server_connection c = Some fd"
    and r: "\<forall>j \<in> L. \<exists>d0. heap s0 j = Some d0 \<and> request_str d0 = key \<and> reader_ok i False tr e j d0 (heap s j)"
    using flow k unfolding flow_def by auto
  have key: "request_str c = key" using r i f(11) by (fastforce simp: reader_ok_def progress_def)
  have "i \<in> set l" using f(9,11) i by simp
  then have use: "entry_inUse e" using f(7) by (cases l) (auto simp: entry_inUse_def)
  let ?q = "qs ! k"
  have q: "k_recv K (trace s) fd MAX_CHUNK_SIZE = Some ?q" "?q \<noteq> []"
    using recv f(2,3) k nth_mem [OF k] unfolding sends_def by (simp, metis)
  have split: "take (Suc k) qs = take k qs @ [?q]" using k by (simp add: take_Suc_conv_app_nth)
  have "cache_ok (the_cache s)" "intact (k_freed K)" using f(1) K by (simp_all add: server_inv_def kernel_safe_def)
  then obtain m where m: "handleClientSocketEvents K i POLLIN s =
      Done () (s\<lparr>trace := trace s @ [Ev_recv fd MAX_CHUNK_SIZE (Some ?q)], the_cache := m\<rparr>)" (is "_ = Done () ?t")
    "cache_room m + length ?q = cache_room (the_cache s)" "lookup m key = Some (entry_append ?q e)"
    using data_event [of s K i c fd e ?q] f(4,11-14) key use q room by auto
  have "reader_ok i False (tr @ [Ev_recv fd MAX_CHUNK_SIZE (Some ?q)]) (entry_append ?q e) j d0 (heap s j)"
    if "reader_ok i False tr e j d0 (heap s j)" for j d0
    using that by (auto simp: reader_ok_def intro: progress_grows progress_trace split: option.splits)
  moreover have "safe ?t" by (rule handler_safe [OF K f(1) m(1)])
  ultimately have "flow i fd key qs L s0 b0 (Suc k) ?t"
    unfolding flow_def using f m(2,3) r room k split
    by (intro conjI exI [of _ "tr @ [Ev_recv fd MAX_CHUNK_SIZE (Some ?q)]"] exI [of _ "entry_append ?q e"] exI [of _ l])
      (auto simp: entry_append_def dest!: bspec)
  then show ?thesis
    using m(1) f(11,12) by (intro exI [of _ ?t]) (simp add: stream_step_def same_clients_def)
qed

lemma origin_end:
  assumes K: "kernel_safe K" and recv: "sends K fd (trace s0) qs" and flow: "flow i fd key qs L s0 b0 (length qs) s"
    and i: "i \<in> L"
  shows "\<exists>t. stream_step K i From_origin s = Done () t \<and> flow i fd key qs L s0 b0 (Suc (length qs)) t \<and> same_clients s t"
proof -
  obtain tr e l c where f: "safe s" "trace s = trace s0 @ tr" "receipts fd tr = length qs" "lookup (the_cache s) key = Some e"
    "buffer e = b0 @ concat qs" "in_use e = int (length l)" "request_clients_map s key = Some l"
    "set l = {j \<in> L. heap s j \<noteq> None}" "length (concat qs) \<le> cache_room (the_cache s0)"
    "heap s i = Some c" "state c = waiting_response" "should_write_to_cache c" "server_connection c = Some fd"
    and r: "\<forall>j \<in> L. \<exists>d0. heap s0 j = Some d0 \<and> request_str d0 = key \<and> reader_ok i False tr e j d0 (heap s j)"
    using flow unfolding flow_def by auto
  have key: "request_str c = key" using r i f(10) by (fastforce simp: reader_ok_def progress_def)
  have q: "k_recv K (trace s) fd MAX_CHUNK_SIZE = Some []" using recv f(2,3) by (simp add: sends_def)
  have "cache_ok (the_cache s)" using f(1) by (simp add: server_inv_def)
  then obtain m where m: "handleClientSocketEvents K i POLLIN s =
      Done () (s\<lparr>trace := trace s @ [Ev_recv fd MAX_CHUNK_SIZE (Some [])], the_cache := m,
        heap := (heap s)(i \<mapsto> c\<lparr>state := got_response\<rparr>)\<rparr>)" (is "_ = Done () ?t")
    "lookup m key = Some (entry_complete e)"
    using end_event [of s i c fd e K] f(4,10-13) key q by auto
  have ready: "reader_ok i True (tr @ [Ev_recv fd MAX_CHUNK_SIZE (Some [])]) (entry_complete e) j d0 (heap ?t j)"
    if j: "reader_ok i False tr e j d0 (heap s j)" for j d0
  proof (cases "heap s j")
    case None
    then show ?thesis using j by (simp add: reader_ok_def)
  next
    case (Some d)
    then have "progress (tr @ [Ev_recv fd MAX_CHUNK_SIZE (Some [])]) (entry_complete e) d0 d"
      using j by (auto simp: reader_ok_def entry_complete_def intro!: progress_trace elim: progress_entry)
    then show ?thesis
      using j Some f(10) by (cases "j = i") (auto simp: reader_ok_def progress_def)
  qed
  have "safe ?t" by (rule handler_safe [OF K f(1) m(1)])
  moreover have "set l = {j \<in> L. heap ?t j \<noteq> None}" using f(8,10) by auto
  moreover have "\<forall>j \<in> L. \<exists>d0. heap s0 j = Some d0 \<and> request_str d0 = key \<and>
      reader_ok i True (tr @ [Ev_recv fd MAX_CHUNK_SIZE (Some [])]) (entry_complete e) j d0 (heap ?t j)"
    using r ready by blast
  ultimately have "flow i fd key qs L s0 b0 (Suc (length qs)) ?t"
    unfolding flow_def using f(2-7,9) m(2)
    by (intro conjI exI [of _ "tr @ [Ev_recv fd MAX_CHUNK_SIZE (Some [])]"] exI [of _ "entry_complete e"] exI [of _ l])
      (simp_all add: entry_complete_def)
  then show ?thesis
    using m(1) f(10,11) by (intro exI [of _ ?t]) (simp add: stream_step_def same_clients_def)
qed

lemma origin_done:
  assumes "flow i fd key qs L s0 b0 k s" "length qs < k" "i \<in> L"
  shows "stream_step K i From_origin s = Done () s"
proof -
  have "state c = got_response" if "heap s i = Some c" for c
    using assms that unfolding flow_def by (fastforce simp: reader_ok_def)
  then show ?thesis by (simp add: stream_step_def split: option.split)
qed

text \<open>
  A writable client: more data is sent, or it waits, or it has all and leaves. How far it is from
  its end is measured by what is left of \<open>n\<close> bytes in the cache, or by what is in its queue.
\<close>

definition remaining :: "nat \<Rightarrow> client_id \<Rightarrow> server \<Rightarrow> nat" where
  "remaining n j s = (case heap s j of None \<Rightarrow> 0
     | Some d \<Rightarrow> Suc (if should_read_from_cache d then n - sent_bytes d else length (concat (chunks d))))"

lemma client_step:
  assumes K: "kernel_safe K" and s0: "safe s0" and flow: "flow i fd key qs L s0 b0 k s" and j: "j \<in> L"
    and send: "\<And>d0. heap s0 j = Some d0 \<Longrightarrow> accepts_data K (client_connection d0)"
  shows "\<exists>t. stream_step K i (To_client j) s = Done () t \<and> flow i fd key qs L s0 b0 k t \<and>
    (\<forall>j'. j' \<noteq> j \<longrightarrow> heap t j' = heap s j') \<and> server_socket t = server_socket s \<and>
    (length qs < k \<longrightarrow> remaining (length (b0 @ concat qs)) j t \<le> remaining (length (b0 @ concat qs)) j s - 1)"
proof (cases "heap s j")
  case None
  then show ?thesis using flow by (intro exI [of _ s]) (simp add: stream_step_def remaining_def)
next
  case (Some d)
  obtain tr e l where f: "safe s" "trace s = trace s0 @ tr" "receipts fd tr = k" "lookup (the_cache s) key = Some e"
    "buffer e = b0 @ concat (take k qs)" "completed e \<longleftrightarrow> length qs < k" "in_use e = int (length l)"
    "request_clients_map s key = Some l" "set l = {j \<in> L. heap s j \<noteq> None}"
    "length (concat (take k qs)) \<le> cache_room (the_cache s0)"
    "k \<le> length qs \<longrightarrow> cache_room (the_cache s) + length (concat (take k qs)) = cache_room (the_cache s0) \<and>
       (\<exists>c. heap s i = Some c \<and> state c = waiting_response \<and> should_write_to_cache c \<and> server_connection c = Some fd)"
    and r: "\<forall>j \<in> L. \<exists>d0. heap s0 j = Some d0 \<and> request_str d0 = key \<and> reader_ok i (length qs < k) tr e j d0 (heap s j)"
    using flow unfolding flow_def by (elim exE conjE)
  obtain d0 where d0: "heap s0 j = Some d0" "request_str d0 = key" "progress tr e d0 d"
    "state d = got_response \<or> j = i \<and> \<not> length qs < k \<and> state d = waiting_response"
    using r j Some by (fastforce simp: reader_ok_def)
  have d: "should_read_from_cache d" "request_str d = key" "client_connection d = client_connection d0"
    "sent_bytes d0 \<le> sent_bytes d" "sent_bytes d \<le> entry_size e"
    "delivered (client_connection d0) tr @ drop (sent_bytes d) (buffer e) = drop (sent_bytes d0) (buffer e)" "chunks d = []"
    using d0(2,3) by (simp_all add: progress_def)
  have run: "stream_step K i (To_client j) s = tryCatch is_spx_exception (sendCachedResponseToClient K j) (\<lambda>_. ret ()) s"
    using reader_run [OF Some d(1)] d0(4) Some by (auto simp: stream_step_def)
  have total: "length qs < k \<Longrightarrow> length (b0 @ concat qs) = entry_size e" using f(5) by (simp add: entry_size_def)
  have others: "j' \<noteq> j \<Longrightarrow> heap s0 j' = Some d1 \<Longrightarrow> client_connection d1 \<noteq> client_connection d" for j' d1
    using connections_differ [OF s0 _ d0(1)] d(3) by auto
  have ok: "cache_ok (the_cache s)" using f(1) by (simp add: server_inv_def)
  have look: "lookup (the_cache s) (request_str d) = Some e" using f(4) d(2) by simp
  show ?thesis
  proof (cases "sent_bytes d < entry_size e")
    case True
    obtain n where n: "k_send K (trace s) (client_connection d) (next_chunk d e) = Some n" "0 < n" "n \<le> length (next_chunk d e)"
      using send [OF d0(1)] next_chunk_take(1) [OF True] d(3) by (auto simp: accepts_data_def)
    let ?ev = "Ev_send (client_connection d) (next_chunk d e) (Some n)" let ?d = "d\<lparr>sent_bytes := sent_bytes d + n\<rparr>"
    obtain m where m: "sendCachedResponseToClient K j s = Done () (s\<lparr>the_cache := m, trace := trace s @ [?ev],
        heap := (heap s)(j \<mapsto> ?d)\<rparr>)" (is "_ = Done () ?t") "lookup m = lookup (the_cache s)"
      "cache_room m = cache_room (the_cache s)"
      using sendCached_new_data [OF ok Some look True n(1)] by blast
    have step: "stream_step K i (To_client j) s = Done () ?t" using run m(1) by (simp add: tryCatch_def)
    have fits: "sent_bytes d + n \<le> entry_size e" using next_chunk_take(3) [OF True n(3)] .
    have "delivered (client_connection d0) [?ev] = take n (next_chunk d e)" using d(3) by (simp add: delivered_def)
    then have mine: "progress (tr @ [?ev]) e d0 ?d"
      using d d0(2) fits chunk_then_rest [OF True n(3)] by (simp add: progress_def)
    have "\<exists>d1. heap s0 j' = Some d1 \<and> request_str d1 = key \<and>
        reader_ok i (length qs < k) (tr @ [?ev]) e j' d1 (heap ?t j')" if j': "j' \<in> L" for j'
    proof -
      obtain d1 where d1: "heap s0 j' = Some d1" "request_str d1 = key" "reader_ok i (length qs < k) tr e j' d1 (heap s j')"
        using r j' by blast
      show ?thesis
      proof (cases "j' = j")
        case True
        then show ?thesis using d0 mine by (auto simp: reader_ok_def)
      next
        case False
        with d1 others [OF False d1(1)] show ?thesis
          by (auto simp: reader_ok_def delivered_other intro!: progress_trace split: option.split)
      qed
    qed
    moreover have "safe ?t"
      using step Some by (auto simp: stream_step_def intro: handler_safe [OF K f(1)])
    moreover have "set l = {j \<in> L. heap ?t j \<noteq> None}" using f(9) j Some by auto
    moreover have "k \<le> length qs \<longrightarrow> cache_room (the_cache ?t) + length (concat (take k qs)) = cache_room (the_cache s0) \<and>
       (\<exists>c. heap ?t i = Some c \<and> state c = waiting_response \<and> should_write_to_cache c \<and> server_connection c = Some fd)"
      using f(11) m(3) Some by (cases "j = i") auto
    ultimately have "flow i fd key qs L s0 b0 k ?t"
      unfolding flow_def using f(2-8,10) m(2)
      by (intro conjI exI [of _ "tr @ [?ev]"] exI [of _ e] exI [of _ l]) simp_all
    then show ?thesis
      using step n(2) fits total Some d(1) by (intro exI [of _ ?t]) (auto simp: remaining_def)
  next
    case False
    then have all: "sent_bytes d = entry_size e" using d(5) by simp
    obtain m where m: "sendCachedResponseToClient K j s = tryCatch is_spx_exception
        (if entry_isCompleted e then discardClient K j else ret ())
        (\<lambda>x. if x = KeyNotFoundException then ret () else discardClient K j) (s\<lparr>the_cache := m\<rparr>)"
      "cache_ok m" "lookup m = lookup (the_cache s)" "cache_room m = cache_room (the_cache s)"
      using sendCached_all_sent [OF ok Some look False] by blast
    let ?u = "s\<lparr>the_cache := m\<rparr>"
    have su: "safe ?u" by (rule safe_cache [OF f(1) m(2)])
    have fu: "flow i fd key qs L s0 b0 k ?u"
      unfolding flow_def using su f(2-11) m(3,4) r by (intro conjI exI [of _ tr] exI [of _ e] exI [of _ l]) simp_all
    show ?thesis
    proof (cases "length qs < k")
      case False
      then have "stream_step K i (To_client j) s = Done () ?u"
        using run m(1) f(6) by (simp add: tryCatch_def ret_def entry_isCompleted_def)
      then show ?thesis using fu False by (intro exI [of _ ?u]) simp
    next
      case whole: True
      then have st: "state d = got_response" using d0(4) by simp
      obtain v where v: "discardClient K j ?u = Done () v" "heap v = (heap s)(j := None)"
        "trace v = trace s @ map Ev_close (rev (fds_of d))"
        "request_clients_map v = (request_clients_map s)(key \<mapsto> filter (\<lambda>j'. j' \<noteq> j) l)"
        "abs_cache (the_cache v) = store_disuse key (abs_cache m)" "server_socket v = server_socket s"
        using discardClient_run [OF su, of j d l K] Some f(8) st d(2) by auto
      have step: "stream_step K i (To_client j) s = Done () v"
        using run m(1) f(6) whole v(1) by (simp add: tryCatch_def entry_isCompleted_def)
      let ?e = "entry_decrementUse e"
      have "map_of (abs_cache m) key = Some e" using m(3) f(4) by (simp add: lookup_def)
      moreover have "\<not> disposable ?e"
        using f(6) whole by (simp add: disposable_def entry_isCompleted_def entry_decrementUse_def)
      ultimately have lv: "lookup (the_cache v) key = Some ?e" using v(5) by (simp add: lookup_def)
      have gone: "reader_ok i True (tr @ map Ev_close (rev (fds_of d))) ?e j d0 None"
        using d(6) all by (simp add: reader_ok_def entry_decrementUse_def entry_size_def)
      have "\<exists>d1. heap s0 j' = Some d1 \<and> request_str d1 = key \<and>
          reader_ok i True (tr @ map Ev_close (rev (fds_of d))) ?e j' d1 (heap v j')" if j': "j' \<in> L" for j'
      proof -
        obtain d1 where "heap s0 j' = Some d1" "request_str d1 = key" "reader_ok i True tr e j' d1 (heap s j')"
          using r j' whole by auto
        then show ?thesis
          using gone d0(1,2) v(2)
          by (cases "j' = j") (auto simp: reader_ok_def entry_decrementUse_def intro!: progress_trace elim: progress_entry
              split: option.splits)
      qed
      moreover have "in_use ?e = int (length (filter (\<lambda>j'. j' \<noteq> j) l))"
      proof -
        have "distinct l" using f(1,8) unfolding server_inv_def requests_ok_def by blast
        moreover have "j \<in> set l" using f(9) j Some by simp
        moreover from \<open>distinct l\<close> have "filter (\<lambda>j'. j' \<noteq> j) l = remove1 j l"
          by (induction l) (auto simp: filter_id_conv)
        ultimately have "length l = Suc (length (filter (\<lambda>j'. j' \<noteq> j) l))"
          using length_pos_if_in_set [of j l] by (simp add: length_remove1)
        then show ?thesis using f(7) by (simp add: entry_decrementUse_def)
      qed
      moreover have "safe v"
        using step Some by (auto simp: stream_step_def intro: handler_safe [OF K f(1)])
      moreover have "set (filter (\<lambda>j'. j' \<noteq> j) l) = {j \<in> L. heap v j \<noteq> None}" using f(9) v(2) by auto
      ultimately have "flow i fd key qs L s0 b0 k v"
        unfolding flow_def using f(2-8,10) v(3,4) lv whole
        by (intro conjI exI [of _ "tr @ map Ev_close (rev (fds_of d))"] exI [of _ ?e] exI [of _ "filter (\<lambda>j'. j' \<noteq> j) l"])
          (simp_all add: entry_decrementUse_def)
      then show ?thesis
        using step v(2,6) Some by (intro exI [of _ v]) (simp add: remaining_def)
    qed
  qed
qed

section \<open>The beginning and the end\<close>

text \<open>The beginning: the state after the status event.\<close>

lemma flow_start:
  assumes K: "kernel_safe K" and safe: "safe s"
    and c: "heap s i = Some c" "state c = waiting_response_status_code" "server_connection c = Some fd"
    and l: "request_clients_map s (request_str c) = Some l" "i \<in> set l" and new: "lookup (the_cache s) (request_str c) = None"
    and recv: "k_recv K (trace s) fd MAX_CHUNK_SIZE = Some q" "q \<noteq> []" "status_200 q"
    and room: "length q \<le> cache_room (the_cache s)"
    and fresh: "\<forall>j \<in> set l. \<forall>d. heap s j = Some d \<longrightarrow> sent_bytes d = 0 \<and> chunks d = []"
  shows "\<exists>t. handleClientSocketEvents K i POLLIN s = Done () t \<and> safe t \<and>
    trace t = trace s @ [Ev_recv fd MAX_CHUNK_SIZE (Some q)] \<and> flow i fd (request_str c) qs (set l) t q 0 t \<and>
    (\<forall>j. map_option client_connection (heap t j) = map_option client_connection (heap s j)) \<and>
    (\<forall>j \<in> set l. \<exists>d. heap t j = Some d \<and> sent_bytes d = 0) \<and> same_clients s t \<and>
    cache_room (the_cache t) + length q = cache_room (the_cache s)"
proof -
  let ?key = "request_str c"
  have fr: "intact (k_freed K)" using K by (simp add: kernel_safe_def)
  let ?h = "\<lambda>j. if j = i then Some (fetching c) else if j \<in> set l then map_option to_cache (heap s j) else heap s j"
  obtain m where m: "handleClientSocketEvents K i POLLIN s = Done () (s\<lparr>
      trace := trace s @ [Ev_recv fd MAX_CHUNK_SIZE (Some q)], the_cache := m, heap := ?h\<rparr>)" (is "_ = Done () ?t")
    "cache_room m + length q = cache_room (the_cache s)"
    "lookup m ?key = Some \<lparr>buffer = q, completed = False, in_use = int (length l)\<rparr>" (is "_ = Some ?e")
    using status_event_200 [OF safe fr c l new recv] room by auto
  have st: "safe ?t" by (rule handler_safe [OF K safe m(1)])
  have live: "\<exists>d. heap s j = Some d \<and> request_str d = ?key \<and> sent_bytes d = 0 \<and> chunks d = []" if "j \<in> set l" for j
    using safe l(1) fresh that unfolding server_inv_def requests_ok_def by blast
  have reader: "\<exists>d. ?h j = Some d \<and> request_str d = ?key \<and> sent_bytes d = 0 \<and> reader_ok i False [] ?e j d (?h j)"
    if j: "j \<in> set l" for j
    using live [OF j] c(1) j
    by (cases "j = i") (auto simp: reader_ok_def progress_def fetching_def to_cache_def delivered_def entry_size_def)
  have "flow i fd ?key qs (set l) ?t q 0 ?t"
    unfolding flow_def using st m(3) l(1) reader c(3) live
    by (intro conjI exI [of _ "[]"] exI [of _ ?e] exI [of _ l]) (fastforce simp: fetching_def)+
  moreover have same: "same_clients s ?t" using c(1) by (simp add: same_clients_def)
  moreover have "map_option client_connection (?h j) = map_option client_connection (heap s j)" for j
    using c(1) by (cases "heap s j") (auto simp: fetching_def to_cache_def)
  ultimately show ?thesis
    using m(1,2) st reader same by (intro exI [of _ ?t]) fastforce
qed

text \<open>The end: a client that is gone has had everything.\<close>

lemma flow_gone:
  assumes "flow i fd key qs L s0 b0 k s" "j \<in> L" "heap s j = None" "heap s0 j = Some d0" "sent_bytes d0 = 0"
  shows "delivered (client_connection d0) (trace s) = delivered (client_connection d0) (trace s0) @ b0 @ concat qs"
proof -
  obtain tr e where f: "trace s = trace s0 @ tr" "buffer e = b0 @ concat (take k qs)" "reader_ok i (length qs < k) tr e j d0 None"
    using assms(1-4) unfolding flow_def by fastforce
  then have "length qs < k" "delivered (client_connection d0) tr = buffer e" using assms(5) by (auto simp: reader_ok_def)
  with f show ?thesis by simp
qed

lemma flow_all_gone:
  assumes "flow i fd key qs L s0 b0 (Suc (length qs)) s" "\<forall>j \<in> L. heap s j = None"
  shows "lookup (the_cache s) key = Some \<lparr>buffer = b0 @ concat qs, completed = True, in_use = 0\<rparr>"
proof -
  obtain e l where "lookup (the_cache s) key = Some e" "buffer e = b0 @ concat qs" "completed e" "in_use e = int (length l)"
    "set l = {j \<in> L. heap s j \<noteq> None}"
    using assms(1) unfolding flow_def by auto
  moreover from this(5) assms(2) have "set l = {}" by auto
  then have "l = []" by simp
  ultimately show ?thesis by (cases e) simp
qed

text \<open>In between, it has had a beginning of what has arrived.\<close>

lemma flow_prefix:
  assumes "flow i fd key qs L s0 b0 k s" "j \<in> L" "heap s0 j = Some d0" "sent_bytes d0 = 0"
  shows "\<exists>n. delivered (client_connection d0) (trace s) =
    delivered (client_connection d0) (trace s0) @ take n (b0 @ concat (take k qs))"
proof -
  obtain tr e where f: "trace s = trace s0 @ tr" "buffer e = b0 @ concat (take k qs)"
    "reader_ok i (length qs < k) tr e j d0 (heap s j)"
    using assms(1-3) unfolding flow_def by fastforce
  have "\<exists>rest. delivered (client_connection d0) tr @ rest = buffer e"
    using f(3) assms(4) by (auto simp: reader_ok_def progress_def split: option.splits)
  then obtain rest where "delivered (client_connection d0) tr @ rest = buffer e" ..
  then have "delivered (client_connection d0) tr = take (length (delivered (client_connection d0) tr)) (buffer e)"
    by (metis append_eq_conv_conj)
  with f(1,2) show ?thesis by (intro exI [of _ "length (delivered (client_connection d0) tr)"]) simp
qed

end
