(* ===== verification/Server_Overflow.thy ===== *)
theory Server_Overflow
  imports Server_Stream
begin

text \<open>
  A response that outgrows the cache: when a chunk does not fit beside the entries in use, the
  server takes what each client still lacks out of the entry, gives the entry up, and from then on
  passes every chunk to the queue of every client of the request. Nobody misses or repeats a byte.
\<close>

section \<open>Giving the entry up\<close>

lemma cache_write_refused:
  assumes ok: "cache_ok c" and af: "intact af" and e: "lookup c k = Some e" "entry_inUse e"
    and big: "cache_room c < length buf" "length buf < 2 ^ 64"
  shows "\<exists>c'. cache_write af k buf c = Raise AllInUseException c' \<and> cache_ok c' \<and> lookup c' k = Some e"
proof -
  have wf: "cache_wf c" using ok by (simp add: cache_ok_def)
  let ?need = "unat (current_size c) + length buf - unat (max_size c)"
  have "unat (current_size c) \<le> unat (max_size c)" using wf by (simp add: cache_wf_def word_le_nat_alt)
  then have "\<not> ?need \<le> unused_bytes (abs_cache c)" using big(1) by (simp add: cache_room_def)
  then obtain c' where "cache_write af k buf c = Raise AllInUseException c'" "cache_wf c'"
    "abs_cache c' = evict ?need (abs_cache c)" "max_size c' = max_size c"
    using cache_write_correct [OF wf af e big(2) refl] by auto
  moreover from this have "lookup c' k = Some e"
    using evict_map_of [OF wf_room(2) [OF wf], of k e] e by (simp add: lookup_def)
  ultimately show ?thesis using ok by (auto simp: cache_ok_def)
qed

lemma disuse_ok:
  assumes "cache_ok c"
  shows "\<exists>c'. disuseEntry af k c = Done () c' \<and> cache_ok c' \<and> lookup c' k = (case lookup c k of None \<Rightarrow> None
     | Some e \<Rightarrow> if disposable (entry_decrementUse e) then None else Some (entry_decrementUse e))"
proof -
  have "cache_wf c" using assms by (simp add: cache_ok_def)
  from disuseEntry_correct [OF this, of af k] show ?thesis
    using assms by (auto simp: cache_ok_def lookup_def split: option.split)
qed

text \<open>What the client gets in its queue: the b0 of the entry it has not been sent, and the chunk.\<close>

definition to_buffer :: "entry \<Rightarrow> string \<Rightarrow> client \<Rightarrow> client" where
  "to_buffer e chunk d = d\<lparr>should_read_from_cache := False, state := getting_response_from_another_client,
     chunks := chunks d @ (if sent_bytes d < entry_size e then [drop (sent_bytes d) (buffer e)] else []) @ [chunk]\<rparr>"

lemma fallback_one_run:
  assumes ok: "cache_ok (the_cache s)" and d: "heap s j = Some d" "request_str d = key"
    and e: "lookup (the_cache s) key = Some e"
  shows "\<exists>m. fallback_one K chunk j s = Done () (s\<lparr>heap := (heap s)(j \<mapsto> to_buffer e chunk d), the_cache := m\<rparr>) \<and>
    cache_ok m \<and> lookup m key = (if disposable (entry_decrementUse e) then None else Some (entry_decrementUse e))"
proof -
  obtain ref m1 where m1: "getEntry key (the_cache s) = Done ref m1" "deref ref m1 = Done e m1" "cache_ok m1"
    "lookup m1 = lookup (the_cache s)"
    using getEntry_lookup [OF ok e] by blast
  obtain m2 where m2: "disuseEntry (k_freed K) key m1 = Done () m2" "cache_ok m2"
    "lookup m2 key = (if disposable (entry_decrementUse e) then None else Some (entry_decrementUse e))"
    using disuse_ok [OF m1(3), of "k_freed K" key] m1(4) e by auto
  show ?thesis
    using d m1(1,2) m2
    by (intro exI [of _ m2]) (simp add: fallback_one_def writeResponseChunkToClientBuffer_def andThen_def getC_def setC_def
        onCache_def zoom_def ret_def to_buffer_def)
qed

text \<open>The loop: the entry lives until its last client has been served from it.\<close>

lemma fallback_all:
  assumes "cache_ok (the_cache s)" "distinct l" "l \<noteq> []" "\<forall>j \<in> set l. \<exists>d. heap s j = Some d \<and> request_str d = key"
    "lookup (the_cache s) key = Some e" "\<not> completed e" "in_use e = int (length l)"
  shows "\<exists>m. forEach l (fallback_one K chunk) s = Done () (s\<lparr>the_cache := m,
      heap := (\<lambda>j. if j \<in> set l then map_option (to_buffer e chunk) (heap s j) else heap s j)\<rparr>) \<and>
    cache_ok m \<and> lookup m key = None"
  using assms
proof (induction l arbitrary: s e)
  case (Cons j l)
  obtain d where d: "heap s j = Some d" "request_str d = key" using Cons.prems(4) by auto
  obtain m where m: "fallback_one K chunk j s = Done () (s\<lparr>heap := (heap s)(j \<mapsto> to_buffer e chunk d), the_cache := m\<rparr>)"
    (is "_ = Done () ?t") "cache_ok m"
    "lookup m key = (if disposable (entry_decrementUse e) then None else Some (entry_decrementUse e))"
    using fallback_one_run [OF Cons.prems(1) d Cons.prems(5)] by blast
  let ?e = "entry_decrementUse e"
  have use: "in_use ?e = int (length l)" "buffer ?e = buffer e" "completed ?e = completed e"
    using Cons.prems(7) by (simp_all add: entry_decrementUse_def)
  have same: "to_buffer ?e = to_buffer e" using use(2) by (simp add: to_buffer_def fun_eq_iff entry_size_def)
  show ?case
  proof (cases "l = []")
    case True
    then have "lookup m key = None"
      using m(3) use Cons.prems(6) by (simp add: disposable_def entry_inUse_def entry_isCompleted_def)
    then show ?thesis
      using True m(1,2) d(1) by (intro exI [of _ m]) (auto simp: andThen_def ret_def fun_eq_iff)
  next
    case False
    have "cache_ok (the_cache ?t)" "\<forall>k \<in> set l. \<exists>d. heap ?t k = Some d \<and> request_str d = key"
      "lookup (the_cache ?t) key = Some ?e"
      using m(2,3) Cons.prems(2,4) use(1) False by (auto simp: disposable_def entry_inUse_def)
    then obtain m' where "forEach l (fallback_one K chunk) ?t = Done () (?t\<lparr>the_cache := m',
        heap := (\<lambda>j. if j \<in> set l then map_option (to_buffer ?e chunk) (heap ?t j) else heap ?t j)\<rparr>)"
      "cache_ok m'" "lookup m' key = None"
      using Cons.IH [of ?t ?e] Cons.prems(2,6) use False by auto
    then show ?thesis
      using m(1) d(1) Cons.prems(2) by (intro exI [of _ m']) (auto simp: andThen_def same fun_eq_iff)
  qed
qed simp

text \<open>The event: a chunk arrives that does not fit.\<close>

definition overflowed :: "client_id \<Rightarrow> entry \<Rightarrow> string \<Rightarrow> client_id \<Rightarrow> client \<Rightarrow> client" where
  "overflowed i e chunk j d = (let d' = to_buffer e chunk d in
     if j = i then d'\<lparr>should_write_to_cache := False, should_write_to_all := True, state := waiting_response\<rparr> else d')"

lemma overflowed_other: "j \<noteq> i \<Longrightarrow> overflowed i e chunk j = to_buffer e chunk"
  by (simp add: overflowed_def fun_eq_iff)

lemma overflowed_own: "overflowed i e chunk i d =
  (to_buffer e chunk d)\<lparr>should_write_to_cache := False, should_write_to_all := True, state := waiting_response\<rparr>"
  by (simp add: overflowed_def)

definition overflow_heap :: "client_id \<Rightarrow> entry \<Rightarrow> string \<Rightarrow> client_id list \<Rightarrow> (client_id \<rightharpoonup> client) \<Rightarrow> client_id \<rightharpoonup> client" where
  "overflow_heap i e chunk l h = (\<lambda>j. if j \<in> set l then map_option (overflowed i e chunk j) (h j) else h j)"

lemma write_refused:
  assumes ok: "cache_ok (the_cache s)" and fr: "intact (k_freed K)" and c: "heap s i = Some c"
    and l: "request_clients_map s (request_str c) = Some l" "i \<in> set l" "distinct l"
      "\<forall>j \<in> set l. \<exists>d. heap s j = Some d \<and> request_str d = request_str c"
    and e: "lookup (the_cache s) (request_str c) = Some e" "\<not> completed e" "in_use e = int (length l)"
    and q: "cache_room (the_cache s) < length q" "length q \<le> MAX_CHUNK_SIZE"
  shows "\<exists>m. writeResponseChunkToCache K i q s = Done () (s\<lparr>the_cache := m, heap := overflow_heap i e q l (heap s)\<rparr>) \<and>
    lookup m (request_str c) = None"
proof -
  let ?key = "request_str c"
  have use: "entry_inUse e" using e(3) l(2) by (cases l) (auto simp: entry_inUse_def)
  have len: "length q < 2 ^ 64" using q(2) by (simp add: MAX_CHUNK_SIZE_def)
  obtain m1 where m1: "cache_write (k_freed K) ?key q (the_cache s) = Raise AllInUseException m1" "cache_ok m1"
    "lookup m1 ?key = Some e"
    using cache_write_refused [OF ok fr e(1) use q(1) len] by blast
  let ?u = "s\<lparr>the_cache := m1\<rparr>"
  obtain m2 where m2: "forEach l (fallback_one K q) ?u = Done () (?u\<lparr>the_cache := m2,
      heap := (\<lambda>j. if j \<in> set l then map_option (to_buffer e q) (heap ?u j) else heap ?u j)\<rparr>)" "lookup m2 ?key = None"
    using fallback_all [of ?u l ?key e K q] m1(2,3) l(3,4) e(2,3) length_pos_if_in_set [OF l(2)] by auto
  let ?c = "(to_buffer e q c)\<lparr>should_write_to_cache := False, should_write_to_all := True, state := waiting_response\<rparr>"
  let ?h = "overflow_heap i e q l (heap s)"
  have h: "(\<lambda>j. if j \<in> set l then map_option (to_buffer e q) (heap ?u j) else heap ?u j)(i \<mapsto> ?c) = ?h"
    using c l(2) by (auto simp: overflow_heap_def fun_eq_iff overflowed_other overflowed_own)
  have "fallbackToClientBuffer K i q ?u = Done () (?u\<lparr>the_cache := m2, heap := ?h\<rparr>)"
    using c l(1,2) m2(1) h by (simp add: fallbackToClientBuffer_def andThen_def getC_def setC_def map_at_def)
  then show ?thesis
    using c m1(1) m2(2)
    by (intro exI [of _ m2]) (simp add: writeResponseChunkToCache_def andThen_def getC_def tryCatch_def onCache_def zoom_def)
qed

lemma chunk_bound: "kernel_safe K \<Longrightarrow> k_recv K tr fd MAX_CHUNK_SIZE = Some q \<Longrightarrow> length q \<le> MAX_CHUNK_SIZE"
  unfolding kernel_safe_def kernel_ok_def by blast

lemma overflow_event:
  assumes safe: "safe s" and K: "kernel_safe K"
    and c: "heap s i = Some c" "state c = waiting_response" "should_write_to_cache c" "server_connection c = Some fd"
    and l: "request_clients_map s (request_str c) = Some l" "i \<in> set l"
    and e: "lookup (the_cache s) (request_str c) = Some e" "\<not> completed e" "in_use e = int (length l)"
    and q: "k_recv K (trace s) fd MAX_CHUNK_SIZE = Some q" "q \<noteq> []" "cache_room (the_cache s) < length q"
  shows "\<exists>m. handleClientSocketEvents K i POLLIN s = Done () (s\<lparr>trace := trace s @ [Ev_recv fd MAX_CHUNK_SIZE (Some q)],
      the_cache := m, heap := (\<lambda>j. if j \<in> set l then map_option (overflowed i e q j) (heap s j) else heap s j)\<rparr>) \<and>
    lookup m (request_str c) = None"
proof -
  let ?t = "s\<lparr>trace := trace s @ [Ev_recv fd MAX_CHUNK_SIZE (Some q)]\<rparr>"
  have "cache_ok (the_cache ?t)" "intact (k_freed K)" using safe K by (simp_all add: server_inv_def kernel_safe_def)
  moreover have "distinct l" "\<forall>j \<in> set l. \<exists>d. heap s j = Some d \<and> request_str d = request_str c"
    using safe l(1) unfolding server_inv_def requests_ok_def by blast+
  ultimately obtain m where "writeResponseChunkToCache K i q ?t = Done () (?t\<lparr>the_cache := m,
      heap := overflow_heap i e q l (heap s)\<rparr>)"
    "lookup m (request_str c) = None"
    using write_refused [of ?t K i c l e q] c(1) l e q(3) chunk_bound [OF K q(1)] by auto
  with c q show ?thesis
    unfolding overflow_heap_def [symmetric]
    by (intro exI [of _ m]) (simp add: handleClientSocketEvents_def handle_state_def handle_sending_def readResponseFromServer_def
        tryCatch_def readResponseChunk_def server_conn_def receive_def andThen_def getC_def get_def log_event_def modify_def
        ret_def poll_defs)
qed

section \<open>Passing chunks to all\<close>

text \<open>
  What holds from then on: what a client has been sent since \<open>s0\<close> and what is in its queue is
  what was there at \<open>s0\<close> and the chunks that have come. A response that was never cached has one
  client; it need not pass the chunks on.
\<close>

definition queue_ok :: "client_id \<Rightarrow> bool \<Rightarrow> history \<Rightarrow> string \<Rightarrow> client_id \<Rightarrow> client \<Rightarrow> client option \<Rightarrow> bool" where
  "queue_ok i whole tr due j d0 now \<longleftrightarrow> (case now of
       None \<Rightarrow> whole \<and> delivered (client_connection d0) tr = due
     | Some d \<Rightarrow> \<not> should_read_from_cache d \<and> request_str d = request_str d0 \<and> client_connection d = client_connection d0 \<and>
         [] \<notin> set (chunks d) \<and> delivered (client_connection d0) tr @ concat (chunks d) = due \<and>
         state d = (if whole then got_response else if j = i then waiting_response
                    else getting_response_from_another_client))"

definition broadcast :: "client_id \<Rightarrow> fd \<Rightarrow> string \<Rightarrow> string list \<Rightarrow> client_id set \<Rightarrow> server \<Rightarrow> string \<Rightarrow> nat \<Rightarrow> server \<Rightarrow> bool" where
  "broadcast i fd key qs L s0 b0 k s \<longleftrightarrow> safe s \<and> (\<exists>tr l.
     trace s = trace s0 @ tr \<and> receipts fd tr = k \<and> lookup (the_cache s) key = None \<and>
     request_clients_map s key = Some l \<and> set l = {j \<in> L. heap s j \<noteq> None} \<and>
     (k \<le> length qs \<longrightarrow> (\<exists>c. heap s i = Some c \<and> \<not> should_write_to_cache c \<and> (should_write_to_all c \<or> L = {i}) \<and>
       server_connection c = Some fd)) \<and>
     (\<forall>j \<in> L. \<exists>d0. heap s0 j = Some d0 \<and> request_str d0 = key \<and>
       queue_ok i (length qs < k) tr (b0 @ concat (take k qs)) j d0 (heap s j)))"

lemma queue_trace:
  "queue_ok i whole tr due j d0 now \<Longrightarrow> delivered (client_connection d0) tr' = [] \<Longrightarrow> queue_ok i whole (tr @ tr') due j d0 now"
  by (auto simp: queue_ok_def split: option.splits)

lemma forEach_setC:
  "distinct l \<Longrightarrow> \<forall>j \<in> set l. heap s j \<noteq> None \<Longrightarrow>
   forEach l (\<lambda>j. setC j f) s = Done () (s\<lparr>heap := (\<lambda>j. if j \<in> set l then map_option f (heap s j) else heap s j)\<rparr>)"
proof (induction l arbitrary: s)
  case (Cons j l)
  then obtain d where d: "heap s j = Some d" by auto
  let ?t = "s\<lparr>heap := (heap s)(j \<mapsto> f d)\<rparr>"
  have "setC j f s = Done () ?t" using d by (simp add: setC_def)
  moreover have "forEach l (\<lambda>j. setC j f) ?t =
      Done () (?t\<lparr>heap := (\<lambda>j. if j \<in> set l then map_option f (heap ?t j) else heap ?t j)\<rparr>)"
    using Cons.prems by (intro Cons.IH) auto
  moreover have "(\<lambda>k. if k \<in> set l then map_option f (heap ?t k) else heap ?t k) =
      (\<lambda>k. if k \<in> set (j # l) then map_option f (heap s k) else heap s k)"
    using d Cons.prems(1) by (auto simp: fun_eq_iff)
  ultimately show ?case by (simp add: andThen_def)
qed (simp add: ret_def)

lemma take_Suc_concat: "k < length qs \<Longrightarrow> concat (take (Suc k) qs) = concat (take k qs) @ qs ! k"
  by (simp add: take_Suc_conv_app_nth)

lemma only_client: "distinct l \<Longrightarrow> set l = {j \<in> L. heap s j \<noteq> None} \<Longrightarrow> L = {i} \<Longrightarrow> heap s i = Some c \<Longrightarrow> l = [i]"
  by (cases l; cases "tl l") (auto simp: set_eq_iff)

lemma broadcast_chunk:
  assumes K: "kernel_safe K" and recv: "sends K fd (trace s0) qs" and b: "broadcast i fd key qs L s0 b0 k s" and k: "k < length qs"
    and i: "i \<in> L"
  shows "\<exists>t. stream_step K i From_origin s = Done () t \<and> broadcast i fd key qs L s0 b0 (Suc k) t \<and> same_clients s t"
proof -
  obtain tr l c where f: "safe s" "trace s = trace s0 @ tr" "receipts fd tr = k" "lookup (the_cache s) key = None"
    "request_clients_map s key = Some l" "set l = {j \<in> L. heap s j \<noteq> None}" "heap s i = Some c"
    "\<not> should_write_to_cache c" "should_write_to_all c \<or> L = {i}" "server_connection c = Some fd"
    and r: "\<forall>j \<in> L. \<exists>d0. heap s0 j = Some d0 \<and> request_str d0 = key \<and>
      queue_ok i False tr (b0 @ concat (take k qs)) j d0 (heap s j)"
    using b k unfolding broadcast_def by auto
  have c: "request_str c = key" "state c = waiting_response" using r i f(7) by (fastforce simp: queue_ok_def)+
  let ?q = "qs ! k" let ?ev = "Ev_recv fd MAX_CHUNK_SIZE (Some ?q)"
  have q: "k_recv K (trace s) fd MAX_CHUNK_SIZE = Some ?q" "?q \<noteq> []"
    using recv f(2,3) k nth_mem [OF k] unfolding sends_def by (simp, metis)
  have dist: "distinct l" using f(1,5) unfolding server_inv_def requests_ok_def by blast
  let ?f = "\<lambda>d. d\<lparr>chunks := chunks d @ [?q]\<rparr>"
  let ?t = "s\<lparr>trace := trace s @ [?ev], heap := (\<lambda>j. if j \<in> set l then map_option ?f (heap s j) else heap s j)\<rparr>"
  let ?u = "s\<lparr>trace := trace s @ [?ev]\<rparr>"
  have "forEach l (\<lambda>j. setC j ?f) ?u =
      Done () (?u\<lparr>heap := (\<lambda>j. if j \<in> set l then map_option ?f (heap ?u j) else heap ?u j)\<rparr>)"
    using dist f(6) by (intro forEach_setC) auto
  moreover have "(\<lambda>j. if j \<in> set l then map_option ?f (heap ?u j) else heap ?u j) =
      (\<lambda>j. if j \<in> set l then map_option ?f (heap s j) else heap s j)"
    by (simp add: fun_eq_iff)
  ultimately have all: "forEach l (\<lambda>j. writeResponseChunkToClientBuffer j ?q) ?u = Done () ?t"
    by (simp add: writeResponseChunkToClientBuffer_def)
  have alone: "writeResponseChunkToClientBuffer i ?q ?u = Done () ?t" if "\<not> should_write_to_all c"
    using all only_client [OF dist f(6) _ f(7)] f(9) that by (simp add: andThen_def ret_def split: outcome.splits)
  then have run: "handleClientSocketEvents K i POLLIN s = Done () ?t"
    using c f(5,7,8,10) q all alone by (simp add: handleClientSocketEvents_def handle_state_def handle_sending_def readResponseFromServer_def
        tryCatch_def readResponseChunk_def server_conn_def receive_def andThen_def getC_def get_def log_event_def modify_def
        ret_def map_at_def poll_defs)
  have "queue_ok i False (tr @ [?ev]) (b0 @ concat (take (Suc k) qs)) j d0 (heap ?t j)"
    if "j \<in> L" "queue_ok i False tr (b0 @ concat (take k qs)) j d0 (heap s j)" for j d0
    using that f(6) q(2) k by (auto simp: queue_ok_def take_Suc_concat split: option.splits)
  then have "\<forall>j \<in> L. \<exists>d0. heap s0 j = Some d0 \<and> request_str d0 = key \<and>
      queue_ok i False (tr @ [?ev]) (b0 @ concat (take (Suc k) qs)) j d0 (heap ?t j)"
    using r by blast
  moreover have "set l = {j \<in> L. heap ?t j \<noteq> None}" "\<exists>c. heap ?t i = Some c \<and> \<not> should_write_to_cache c \<and>
      (should_write_to_all c \<or> L = {i}) \<and> server_connection c = Some fd"
    using f(6-10) by auto
  moreover have "safe ?t" by (rule handler_safe [OF K f(1) run])
  ultimately have "broadcast i fd key qs L s0 b0 (Suc k) ?t"
    unfolding broadcast_def using f(2-5) k by (intro conjI exI [of _ "tr @ [?ev]"] exI [of _ l]) (simp_all add: take_Suc_concat)
  then show ?thesis using run f(7) c(2) by (intro exI [of _ ?t]) (simp add: stream_step_def same_clients_def)
qed

lemma broadcast_end:
  assumes K: "kernel_safe K" and recv: "sends K fd (trace s0) qs" and b: "broadcast i fd key qs L s0 b0 (length qs) s"
    and i: "i \<in> L"
  shows "\<exists>t. stream_step K i From_origin s = Done () t \<and> broadcast i fd key qs L s0 b0 (Suc (length qs)) t \<and> same_clients s t"
proof -
  obtain tr l c where f: "safe s" "trace s = trace s0 @ tr" "receipts fd tr = length qs" "lookup (the_cache s) key = None"
    "request_clients_map s key = Some l" "set l = {j \<in> L. heap s j \<noteq> None}" "heap s i = Some c"
    "\<not> should_write_to_cache c" "should_write_to_all c \<or> L = {i}" "server_connection c = Some fd"
    and r: "\<forall>j \<in> L. \<exists>d0. heap s0 j = Some d0 \<and> request_str d0 = key \<and>
      queue_ok i False tr (b0 @ concat qs) j d0 (heap s j)"
    using b unfolding broadcast_def by auto
  have c: "request_str c = key" "state c = waiting_response" using r i f(7) by (fastforce simp: queue_ok_def)+
  let ?ev = "Ev_recv fd MAX_CHUNK_SIZE (Some [])"
  have q: "k_recv K (trace s) fd MAX_CHUNK_SIZE = Some []" using recv f(2,3) by (simp add: sends_def)
  have dist: "distinct l" using f(1,5) unfolding server_inv_def requests_ok_def by blast
  let ?f = "\<lambda>d. d\<lparr>state := got_response\<rparr>"
  let ?u = "s\<lparr>trace := trace s @ [?ev], heap := (heap s)(i \<mapsto> ?f c)\<rparr>"
  let ?t = "s\<lparr>trace := trace s @ [?ev], heap := (\<lambda>j. if j \<in> set l then map_option ?f (heap s j) else heap s j)\<rparr>"
  have il: "i \<in> set l" using f(6,7) i by simp
  have "forEach l (\<lambda>j. setC j ?f) ?u =
      Done () (?u\<lparr>heap := (\<lambda>j. if j \<in> set l then map_option ?f (heap ?u j) else heap ?u j)\<rparr>)"
    using dist f(6) by (intro forEach_setC) auto
  moreover have "(\<lambda>j. if j \<in> set l then map_option ?f (heap ?u j) else heap ?u j) =
      (\<lambda>j. if j \<in> set l then map_option ?f (heap s j) else heap s j)"
    using f(7) il by (auto simp: fun_eq_iff)
  ultimately have all: "forEach l (\<lambda>j. setC j ?f) ?u = Done () ?t" by simp
  have alone: "?u = ?t" if "\<not> should_write_to_all c"
    using only_client [OF dist f(6) _ f(7)] f(7,9) that by (simp add: fun_eq_iff)
  then have run: "handleClientSocketEvents K i POLLIN s = Done () ?t"
    using c f(5,7,8,10) q all alone by (simp add: handleClientSocketEvents_def handle_state_def handle_sending_def readResponseFromServer_def
        finish_response_def tryCatch_def readResponseChunk_def server_conn_def receive_def andThen_def getC_def setC_def get_def
        log_event_def modify_def ret_def raise_def map_at_def poll_defs)
  have "queue_ok i True (tr @ [?ev]) (b0 @ concat qs) j d0 (heap ?t j)"
    if "j \<in> L" "queue_ok i False tr (b0 @ concat qs) j d0 (heap s j)" for j d0
    using that f(6) by (auto simp: queue_ok_def split: option.splits)
  then have "\<forall>j \<in> L. \<exists>d0. heap s0 j = Some d0 \<and> request_str d0 = key \<and>
      queue_ok i True (tr @ [?ev]) (b0 @ concat qs) j d0 (heap ?t j)"
    using r by blast
  moreover have "set l = {j \<in> L. heap ?t j \<noteq> None}" using f(6) by auto
  moreover have "safe ?t" by (rule handler_safe [OF K f(1) run])
  ultimately have "broadcast i fd key qs L s0 b0 (Suc (length qs)) ?t"
    unfolding broadcast_def using f(2-5) by (intro conjI exI [of _ "tr @ [?ev]"] exI [of _ l]) simp_all
  then show ?thesis using run f(7) c(2) by (intro exI [of _ ?t]) (simp add: stream_step_def same_clients_def)
qed

lemma broadcast_done:
  assumes "broadcast i fd key qs L s0 b0 k s" "length qs < k" "i \<in> L"
  shows "stream_step K i From_origin s = Done () s"
proof -
  have "state c = got_response" if "heap s i = Some c" for c
    using assms that unfolding broadcast_def by (fastforce simp: queue_ok_def)
  then show ?thesis by (simp add: stream_step_def split: option.split)
qed

section \<open>Emptying the queues\<close>

lemma queue_run:
  assumes "heap s j = Some d" "\<not> should_read_from_cache d"
    "state d = waiting_response \<or> state d = getting_response_from_another_client \<or> state d = got_response"
  shows "handleClientSocketEvents K j POLLOUT s = tryCatch is_spx_exception (sendUncachedResponseToClient K j) (\<lambda>_. ret ()) s"
  using assms
  by (auto simp: handleClientSocketEvents_def handle_state_def handle_sending_def sendResponseToClient_def
      tryCatch_def andThen_def getC_def ret_def poll_defs)

text \<open>What a socket that takes \<open>n\<close> bytes leaves of the queue.\<close>

definition after_send :: "nat \<Rightarrow> string list \<Rightarrow> string list" where
  "after_send n cs = (case cs of [] \<Rightarrow> [] | b # bs \<Rightarrow> if n = length b then bs else drop n b # bs)"

lemma after_send_concat:
  "cs = b # bs \<Longrightarrow> n \<le> length b \<Longrightarrow> take n b @ concat (after_send n cs) = concat cs"
  by (auto simp: after_send_def)

lemma after_send_nonempty: "[] \<notin> set cs \<Longrightarrow> cs = b # bs \<Longrightarrow> n \<le> length b \<Longrightarrow> [] \<notin> set (after_send n cs)"
  by (auto simp: after_send_def)

lemma send_queued:
  assumes "heap s j = Some d" "chunks d = b # bs" "k_send K (trace s) (client_connection d) b = Some n"
  shows "sendUncachedResponseToClient K j s = Done () (s\<lparr>trace := trace s @ [Ev_send (client_connection d) b (Some n)],
    heap := (heap s)(j \<mapsto> d\<lparr>chunks := after_send n (chunks d), sent_bytes := sent_bytes d + n\<rparr>)\<rparr>)"
proof -
  have order: "d\<lparr>sent_bytes := m, chunks := l\<rparr> = d\<lparr>chunks := l, sent_bytes := m\<rparr>" for m l
    by (cases d) simp
  show ?thesis
    using assms by (simp add: sendUncachedResponseToClient_def sendToClientFromChunks_def sendToClient_def send_bytes_def
        tryCatch_def andThen_def getC_def setC_def get_def log_event_def modify_def ret_def after_send_def order)
qed

lemma broadcast_client:
  assumes K: "kernel_safe K" and s0: "safe s0" and b: "broadcast i fd key qs L s0 b0 k s" and j: "j \<in> L"
    and send: "\<And>d0. heap s0 j = Some d0 \<Longrightarrow> accepts_data K (client_connection d0)"
  shows "\<exists>t. stream_step K i (To_client j) s = Done () t \<and> broadcast i fd key qs L s0 b0 k t \<and>
    (\<forall>j'. j' \<noteq> j \<longrightarrow> heap t j' = heap s j') \<and> server_socket t = server_socket s \<and> (length qs < k \<longrightarrow> remaining n j t \<le> remaining n j s - 1)"
proof (cases "heap s j")
  case None
  then show ?thesis using b by (intro exI [of _ s]) (simp add: stream_step_def remaining_def)
next
  case (Some d)
  obtain tr l where f: "safe s" "trace s = trace s0 @ tr" "receipts fd tr = k" "lookup (the_cache s) key = None"
    "request_clients_map s key = Some l" "set l = {j \<in> L. heap s j \<noteq> None}"
    "k \<le> length qs \<longrightarrow> (\<exists>c. heap s i = Some c \<and> \<not> should_write_to_cache c \<and> (should_write_to_all c \<or> L = {i}) \<and>
       server_connection c = Some fd)"
    and r: "\<forall>j \<in> L. \<exists>d0. heap s0 j = Some d0 \<and> request_str d0 = key \<and>
      queue_ok i (length qs < k) tr (b0 @ concat (take k qs)) j d0 (heap s j)"
    using b unfolding broadcast_def by (elim exE conjE)
  obtain d0 where d0: "heap s0 j = Some d0" "request_str d0 = key"
    "queue_ok i (length qs < k) tr (b0 @ concat (take k qs)) j d0 (Some d)"
    using r j Some by fastforce
  have d: "\<not> should_read_from_cache d" "request_str d = key" "client_connection d = client_connection d0"
    "[] \<notin> set (chunks d)" "delivered (client_connection d0) tr @ concat (chunks d) = b0 @ concat (take k qs)"
    "state d = (if length qs < k then got_response else if j = i then waiting_response
                else getting_response_from_another_client)"
    using d0(2,3) by (simp_all add: queue_ok_def)
  have run: "stream_step K i (To_client j) s = tryCatch is_spx_exception (sendUncachedResponseToClient K j) (\<lambda>_. ret ()) s"
    using queue_run [OF Some d(1)] d(6) Some by (simp add: stream_step_def)
  have others: "j' \<noteq> j \<Longrightarrow> heap s0 j' = Some d1 \<Longrightarrow> client_connection d1 \<noteq> client_connection d" for j' d1
    using connections_differ [OF s0 _ d0(1)] d(3) by auto
  show ?thesis
  proof (cases "chunks d")
    case (Cons b bs)
    have "b \<noteq> []" using d(4) Cons by auto
    then obtain sent where sent: "k_send K (trace s) (client_connection d) b = Some sent" "0 < sent" "sent \<le> length b"
      using send [OF d0(1)] d(3) unfolding accepts_data_def by metis
    let ?ev = "Ev_send (client_connection d) b (Some sent)"
    let ?d = "d\<lparr>chunks := after_send sent (chunks d), sent_bytes := sent_bytes d + sent\<rparr>"
    let ?t = "s\<lparr>trace := trace s @ [?ev], heap := (heap s)(j \<mapsto> ?d)\<rparr>"
    have step: "stream_step K i (To_client j) s = Done () ?t"
      using run send_queued [OF Some Cons sent(1)] by (simp add: tryCatch_def)
    have rest: "take sent b @ concat (after_send sent (chunks d)) = concat (chunks d)" by (rule after_send_concat [OF Cons sent(3)])
    have "delivered (client_connection d0) [?ev] = take sent b" using d(3) by (simp add: delivered_def)
    then have mine: "queue_ok i (length qs < k) (tr @ [?ev]) (b0 @ concat (take k qs)) j d0 (Some ?d)"
      using d d0(2) rest after_send_nonempty [OF d(4) Cons sent(3)] by (simp add: queue_ok_def)
    have "\<exists>d1. heap s0 j' = Some d1 \<and> request_str d1 = key \<and>
        queue_ok i (length qs < k) (tr @ [?ev]) (b0 @ concat (take k qs)) j' d1 (heap ?t j')" if j': "j' \<in> L" for j'
    proof -
      obtain d1 where d1: "heap s0 j' = Some d1" "request_str d1 = key"
        "queue_ok i (length qs < k) tr (b0 @ concat (take k qs)) j' d1 (heap s j')"
        using r j' by blast
      show ?thesis
      proof (cases "j' = j")
        case True
        then show ?thesis using d0 mine by auto
      next
        case False
        with d1 others [OF False d1(1)] show ?thesis by (auto simp: delivered_other intro!: queue_trace)
      qed
    qed
    moreover have "safe ?t" using step Some by (auto simp: stream_step_def intro: handler_safe [OF K f(1)])
    moreover have "set l = {j \<in> L. heap ?t j \<noteq> None}" using f(6) j Some by auto
    moreover have "k \<le> length qs \<longrightarrow> (\<exists>c. heap ?t i = Some c \<and> \<not> should_write_to_cache c \<and> (should_write_to_all c \<or> L = {i}) \<and>
       server_connection c = Some fd)"
      using f(7) Some by (cases "j = i") auto
    ultimately have "broadcast i fd key qs L s0 b0 k ?t"
      unfolding broadcast_def using f(2-5) by (intro conjI exI [of _ "tr @ [?ev]"] exI [of _ l]) simp_all
    moreover have "length (concat (after_send sent (chunks d))) < length (concat (chunks d))"
      using arg_cong [OF rest, of length] sent(2,3) by simp
    ultimately show ?thesis
      using step Some d(1) by (intro exI [of _ ?t]) (simp add: remaining_def)
  next
    case Nil
    show ?thesis
    proof (cases "length qs < k")
      case False
      then have "stream_step K i (To_client j) s = Done () s"
        using run Nil Some d(6) by (simp add: sendUncachedResponseToClient_def tryCatch_def andThen_def getC_def ret_def)
      then show ?thesis using b False by (intro exI [of _ s]) simp
    next
      case whole: True
      then have st: "state d = got_response" using d(6) by simp
      obtain v where v: "discardClient K j s = Done () v" "heap v = (heap s)(j := None)"
        "trace v = trace s @ map Ev_close (rev (fds_of d))"
        "request_clients_map v = (request_clients_map s)(key \<mapsto> filter (\<lambda>j'. j' \<noteq> j) l)"
        "abs_cache (the_cache v) = store_disuse key (abs_cache (the_cache s))" "server_socket v = server_socket s"
        using discardClient_run [OF f(1) Some, of l K] f(5) st d(2) by auto
      have step: "stream_step K i (To_client j) s = Done () v"
        using run Nil Some st v(1) by (simp add: sendUncachedResponseToClient_def tryCatch_def andThen_def getC_def)
      have lv: "lookup (the_cache v) key = None" using v(5) f(4) by (simp add: lookup_def)
      have gone: "queue_ok i True (tr @ map Ev_close (rev (fds_of d))) (b0 @ concat (take k qs)) j d0 None"
        using d(5) Nil by (simp add: queue_ok_def)
      have "\<exists>d1. heap s0 j' = Some d1 \<and> request_str d1 = key \<and>
          queue_ok i True (tr @ map Ev_close (rev (fds_of d))) (b0 @ concat (take k qs)) j' d1 (heap v j')"
        if j': "j' \<in> L" for j'
      proof -
        obtain d1 where "heap s0 j' = Some d1" "request_str d1 = key"
          "queue_ok i True tr (b0 @ concat (take k qs)) j' d1 (heap s j')"
          using r j' whole by auto
        then show ?thesis
          using gone d0(1,2) v(2) by (cases "j' = j") (auto intro!: queue_trace)
      qed
      moreover have "safe v" using step Some by (auto simp: stream_step_def intro: handler_safe [OF K f(1)])
      moreover have "set (filter (\<lambda>j'. j' \<noteq> j) l) = {j \<in> L. heap v j \<noteq> None}" using f(6) v(2) by auto
      ultimately have "broadcast i fd key qs L s0 b0 k v"
        unfolding broadcast_def using f(2,3) v(3,4) lv whole
        by (intro conjI exI [of _ "tr @ map Ev_close (rev (fds_of d))"] exI [of _ "filter (\<lambda>j'. j' \<noteq> j) l"]) simp_all
      then show ?thesis
        using step v(2,6) Some by (intro exI [of _ v]) (simp add: remaining_def)
    qed
  qed
qed

section \<open>From the one phase into the other\<close>

lemma overflowed_keeps [simp]:
  "request_str (overflowed i e q j d) = request_str d" "client_connection (overflowed i e q j d) = client_connection d"
  "server_connection (overflowed i e q j d) = server_connection d" "\<not> should_read_from_cache (overflowed i e q j d)"
  "state (overflowed i e q j d) = (if j = i then waiting_response else getting_response_from_another_client)"
  by (simp_all add: overflowed_def to_buffer_def Let_def)

lemma overflowed_chunks:
  assumes "chunks d = []" "q \<noteq> []"
  shows "[] \<notin> set (chunks (overflowed i e q j d)) \<and> concat (chunks (overflowed i e q j d)) = drop (sent_bytes d) (buffer e) @ q"
  using assms by (simp add: overflowed_def to_buffer_def Let_def entry_size_def)

lemma flow_overflow:
  assumes K: "kernel_safe K" and recv: "sends K fd (trace s0) qs" and flow: "flow i fd key qs L s0 b0 k s" and k: "k < length qs"
    and i: "i \<in> L" and room: "cache_room (the_cache s) < length (qs ! k)"
    and fresh: "\<forall>j \<in> L. \<forall>d0. heap s0 j = Some d0 \<longrightarrow> sent_bytes d0 = 0"
  shows "\<exists>t. stream_step K i From_origin s = Done () t \<and> broadcast i fd key qs L s0 b0 (Suc k) t \<and> same_clients s t \<and>
    cache_room (the_cache s0) < length (concat (take (Suc k) qs))"
proof -
  obtain tr e l c where f: "safe s" "trace s = trace s0 @ tr" "receipts fd tr = k" "lookup (the_cache s) key = Some e"
    "buffer e = b0 @ concat (take k qs)" "\<not> completed e" "in_use e = int (length l)" "request_clients_map s key = Some l"
    "set l = {j \<in> L. heap s j \<noteq> None}"
    "cache_room (the_cache s) + length (concat (take k qs)) = cache_room (the_cache s0)"
    "heap s i = Some c" "state c = waiting_response" "should_write_to_cache c" "server_connection c = Some fd"
    and r: "\<forall>j \<in> L. \<exists>d0. heap s0 j = Some d0 \<and> request_str d0 = key \<and> reader_ok i False tr e j d0 (heap s j)"
    using flow k unfolding flow_def by auto
  have key: "request_str c = key" using r i f(11) by (fastforce simp: reader_ok_def progress_def)
  let ?q = "qs ! k" let ?ev = "Ev_recv fd MAX_CHUNK_SIZE (Some ?q)"
  have q: "k_recv K (trace s) fd MAX_CHUNK_SIZE = Some ?q" "?q \<noteq> []"
    using recv f(2,3) k nth_mem [OF k] unfolding sends_def by (simp, metis)
  have il: "i \<in> set l" using f(9,11) i by simp
  let ?h = "\<lambda>j. if j \<in> set l then map_option (overflowed i e ?q j) (heap s j) else heap s j"
  obtain m where m: "handleClientSocketEvents K i POLLIN s = Done () (s\<lparr>trace := trace s @ [?ev], the_cache := m, heap := ?h\<rparr>)"
    (is "_ = Done () ?t") "lookup m key = None"
    using overflow_event [OF f(1) K f(11-14), of l e ?q] f(4,6-8) il q room key by auto
  have ready: "queue_ok i False (tr @ [?ev]) (b0 @ concat (take (Suc k) qs)) j d0 (heap ?t j)"
    if j: "j \<in> L" "heap s0 j = Some d0" "reader_ok i False tr e j d0 (heap s j)" for j d0
  proof -
    obtain d where d: "heap s j = Some d" "progress tr e d0 d" using j(3) by (auto simp: reader_ok_def split: option.splits)
    have "sent_bytes d0 = 0" using fresh j(1,2) by blast
    then have "delivered (client_connection d0) tr @ drop (sent_bytes d) (buffer e) = b0 @ concat (take k qs)"
      using d(2) f(5) by (simp add: progress_def)
    moreover have "heap ?t j = Some (overflowed i e ?q j d)" using d(1) f(9) j(1) by simp
    moreover have "chunks d = []" using d(2) by (simp add: progress_def)
    from overflowed_chunks [OF this q(2), of i e j] have "[] \<notin> set (chunks (overflowed i e ?q j d))"
      "concat (chunks (overflowed i e ?q j d)) = drop (sent_bytes d) (buffer e) @ ?q" by auto
    ultimately show ?thesis
      using d(2) k by (simp add: queue_ok_def progress_def take_Suc_concat)
  qed
  then have "\<forall>j \<in> L. \<exists>d0. heap s0 j = Some d0 \<and> request_str d0 = key \<and>
      queue_ok i False (tr @ [?ev]) (b0 @ concat (take (Suc k) qs)) j d0 (heap ?t j)"
    using r by blast
  moreover have "\<exists>c. heap ?t i = Some c \<and> \<not> should_write_to_cache c \<and> (should_write_to_all c \<or> L = {i}) \<and> server_connection c = Some fd"
    using f(11,14) il by (simp add: overflowed_own to_buffer_def)
  moreover have over: "cache_room (the_cache s0) < length (concat (take (Suc k) qs))"
    using f(10) room k by (simp add: take_Suc_concat)
  moreover have "set l = {j \<in> L. heap ?t j \<noteq> None}" using f(9) by auto
  moreover have "safe ?t" by (rule handler_safe [OF K f(1) m(1)])
  ultimately have "broadcast i fd key qs L s0 b0 (Suc k) ?t"
    unfolding broadcast_def using f(2,3,8) m(2) k by (intro conjI exI [of _ "tr @ [?ev]"] exI [of _ l]) simp_all
  then show ?thesis using m(1) f(11,12) over by (intro exI [of _ ?t]) (simp add: stream_step_def same_clients_def)
qed

text \<open>The end: a client that is gone has had everything.\<close>

lemma broadcast_gone:
  assumes "broadcast i fd key qs L s0 b0 k s" "j \<in> L" "heap s j = None" "heap s0 j = Some d0"
  shows "delivered (client_connection d0) (trace s) = delivered (client_connection d0) (trace s0) @ b0 @ concat qs"
proof -
  obtain tr where "trace s = trace s0 @ tr" "queue_ok i (length qs < k) tr (b0 @ concat (take k qs)) j d0 None"
    using assms unfolding broadcast_def by fastforce
  then show ?thesis by (auto simp: queue_ok_def)
qed

lemma broadcast_prefix:
  assumes "broadcast i fd key qs L s0 b0 k s" "j \<in> L" "heap s0 j = Some d0"
  shows "\<exists>n. delivered (client_connection d0) (trace s) =
    delivered (client_connection d0) (trace s0) @ take n (b0 @ concat (take k qs))"
proof -
  obtain tr where tr: "trace s = trace s0 @ tr" "queue_ok i (length qs < k) tr (b0 @ concat (take k qs)) j d0 (heap s j)"
    using assms unfolding broadcast_def by fastforce
  have "\<exists>rest. delivered (client_connection d0) tr @ rest = b0 @ concat (take k qs)"
    using tr(2) by (auto simp: queue_ok_def split: option.splits)
  then obtain rest where "delivered (client_connection d0) tr @ rest = b0 @ concat (take k qs)" ..
  then have "delivered (client_connection d0) tr = take (length (delivered (client_connection d0) tr)) (b0 @ concat (take k qs))"
    by (metis append_eq_conv_conj)
  with tr(1) show ?thesis by (intro exI [of _ "length (delivered (client_connection d0) tr)"]) simp
qed

section \<open>A client alone\<close>

text \<open>
  When nobody else waits, the first chunk may be of any kind: a response with another status
  is never cached, and one that does not even fit at its beginning falls back at once.
\<close>

definition status_readable :: "string \<Rightarrow> bool" where
  "status_readable bs \<longleftrightarrow> STATUS_CODE_OFFSET + STATUS_CODE_LEN \<le> length bs \<and>
     (case stoi (take STATUS_CODE_LEN (drop STATUS_CODE_OFFSET bs)) of Inl _ \<Rightarrow> False | Inr _ \<Rightarrow> True)"

definition unserved :: "client \<Rightarrow> bool" where
  "unserved d \<longleftrightarrow> sent_bytes d = 0 \<and> chunks d = [] \<and> \<not> should_read_from_cache d \<and> \<not> should_write_to_cache d"

lemma status_event_other:
  assumes c: "heap s i = Some c" "state c = waiting_response_status_code" "server_connection c = Some fd"
    and l: "request_clients_map s (request_str c) = Some [i]"
    and bs: "k_recv K (trace s) fd MAX_CHUNK_SIZE = Some bs" "bs \<noteq> []" "status_readable bs" "\<not> status_200 bs"
  shows "handleClientSocketEvents K i POLLIN s = Done () (s\<lparr>trace := trace s @ [Ev_recv fd MAX_CHUNK_SIZE (Some bs)],
    heap := (heap s)(i \<mapsto> c\<lparr>chunks := chunks c @ [bs], state := waiting_response\<rparr>)\<rparr>)"
proof -
  obtain n where n: "stoi (take STATUS_CODE_LEN (drop STATUS_CODE_OFFSET bs)) = Inr n" "n \<noteq> OK_STATUS_CODE"
    "STATUS_CODE_OFFSET + STATUS_CODE_LEN \<le> length bs"
    using bs(3,4) by (auto simp: status_readable_def status_200_def split: sum.splits)
  with c l bs(1,2) show ?thesis
    by (simp add: handleClientSocketEvents_def handle_state_def read_status_unfold tryCatch_def readResponseChunk_def
        server_conn_def receive_def status_code_def andThen_def getC_def setC_def get_def log_event_def modify_def ret_def
        map_at_def writeResponseChunkToClientBuffer_def prepareAllWaitingClientsForSending_def poll_defs)
qed

lemma status_event_full:
  assumes safe: "safe s" and K: "kernel_safe K"
    and c: "heap s i = Some c" "state c = waiting_response_status_code" "server_connection c = Some fd"
    and l: "request_clients_map s (request_str c) = Some [i]" and new: "lookup (the_cache s) (request_str c) = None"
    and bs: "k_recv K (trace s) fd MAX_CHUNK_SIZE = Some bs" "bs \<noteq> []" "status_200 bs" "cache_room (the_cache s) < length bs"
  shows "\<exists>m. handleClientSocketEvents K i POLLIN s = Done () (s\<lparr>trace := trace s @ [Ev_recv fd MAX_CHUNK_SIZE (Some bs)],
      the_cache := m, heap := (heap s)(i \<mapsto> overflowed i new_entry bs i c)\<rparr>) \<and> lookup m (request_str c) = None"
proof -
  let ?key = "request_str c" let ?c = "c\<lparr>should_write_to_cache := True, should_read_from_cache := True\<rparr>"
  let ?t = "s\<lparr>trace := trace s @ [Ev_recv fd MAX_CHUNK_SIZE (Some bs)], heap := (heap s)(i \<mapsto> ?c)\<rparr>"
  have ok: "cache_ok (the_cache s)" and fr: "intact (k_freed K)" using safe K by (simp_all add: server_inv_def kernel_safe_def)
  obtain k1 where k1: "useEntry ?key (the_cache s) = Done () k1" "cache_ok k1" "cache_room k1 = cache_room (the_cache s)"
    "lookup k1 ?key = Some new_entry"
    using useEntry_room [OF ok, of ?key] new by auto
  obtain m where m: "writeResponseChunkToCache K i bs (?t\<lparr>the_cache := k1\<rparr>) = Done () (?t\<lparr>the_cache := m,
      heap := overflow_heap i new_entry bs [i] (heap ?t)\<rparr>)"
    "lookup m ?key = None"
    using write_refused [of "?t\<lparr>the_cache := k1\<rparr>" K i ?c "[i]" new_entry bs] k1 fr l bs(4) chunk_bound [OF K bs(1)]
    by (auto simp: new_entry_def)
  have h: "overflow_heap i new_entry bs [i] (heap ?t) =
      (heap s)(i \<mapsto> overflowed i new_entry bs i c)"
    by (auto simp: overflow_heap_def fun_eq_iff overflowed_own to_buffer_def)
  have "use_others i i u' = Done () u'" if "heap u' i \<noteq> None" for u'
    using that by (auto simp: use_others_def client_eq_def andThen_def getC_def ret_def)
  with c bs(1-3) k1(1) m h l show ?thesis
    by (intro exI [of _ m]) (simp add: handleClientSocketEvents_def handle_state_def read_status_unfold tryCatch_def
        readResponseChunk_def server_conn_def receive_def status_code_def status_200_def andThen_def getC_def setC_def get_def
        log_event_def modify_def ret_def onCache_def zoom_def map_at_def poll_defs overflowed_own)
qed

lemma broadcast_alone:
  assumes K: "kernel_safe K" and safe: "safe s"
    and c: "heap s i = Some c" "state c = waiting_response_status_code" "server_connection c = Some fd" "unserved c"
    and l: "request_clients_map s (request_str c) = Some [i]" and new: "lookup (the_cache s) (request_str c) = None"
    and q: "k_recv K (trace s) fd MAX_CHUNK_SIZE = Some q" "q \<noteq> []" "status_readable q"
    and other: "status_200 q \<Longrightarrow> cache_room (the_cache s) < length q"
  shows "\<exists>t d. handleClientSocketEvents K i POLLIN s = Done () t \<and> safe t \<and>
    trace t = trace s @ [Ev_recv fd MAX_CHUNK_SIZE (Some q)] \<and> heap t = (heap s)(i \<mapsto> d) \<and> server_socket t = server_socket s \<and>
    client_connection d = client_connection c \<and> sent_bytes d = 0 \<and> broadcast i fd (request_str c) qs {i} t q 0 t"
proof -
  let ?key = "request_str c"
  have "\<exists>m d. handleClientSocketEvents K i POLLIN s = Done () (s\<lparr>trace := trace s @ [Ev_recv fd MAX_CHUNK_SIZE (Some q)],
      the_cache := m, heap := (heap s)(i \<mapsto> d)\<rparr>) \<and> lookup m ?key = None \<and> \<not> should_read_from_cache d \<and>
      \<not> should_write_to_cache d \<and> chunks d = [q] \<and> state d = waiting_response \<and> request_str d = ?key \<and>
      client_connection d = client_connection c \<and> server_connection d = Some fd \<and> sent_bytes d = 0"
  proof (cases "status_200 q")
    case True
    obtain m where "handleClientSocketEvents K i POLLIN s = Done () (s\<lparr>trace := trace s @ [Ev_recv fd MAX_CHUNK_SIZE (Some q)],
      the_cache := m, heap := (heap s)(i \<mapsto> overflowed i new_entry q i c)\<rparr>)" "lookup m ?key = None"
      using status_event_full [OF safe K c(1-3) l new q(1,2) True other [OF True]] by blast
    then show ?thesis
      using c(3,4) by (intro exI [of _ m] exI [of _ "overflowed i new_entry q i c"])
        (simp add: unserved_def, simp add: overflowed_own to_buffer_def new_entry_def entry_size_def)
  next
    case False
    from status_event_other [OF c(1-3) l q this] show ?thesis
      using c(3,4) new by (intro exI [of _ "the_cache s"] exI [of _ "c\<lparr>chunks := chunks c @ [q], state := waiting_response\<rparr>"])
        (simp add: unserved_def)
  qed
  then obtain m d where m: "handleClientSocketEvents K i POLLIN s = Done () (s\<lparr>trace := trace s @ [Ev_recv fd MAX_CHUNK_SIZE (Some q)],
      the_cache := m, heap := (heap s)(i \<mapsto> d)\<rparr>)" (is "_ = Done () ?t") "lookup m ?key = None" "\<not> should_read_from_cache d"
      "\<not> should_write_to_cache d" "chunks d = [q]" "state d = waiting_response" "request_str d = ?key"
      "client_connection d = client_connection c" "server_connection d = Some fd" "sent_bytes d = 0"
    by blast
  have st: "safe ?t" by (rule handler_safe [OF K safe m(1)])
  have "queue_ok i False [] q i d (heap ?t i)" using m(3,5,6) q(2) by (simp add: queue_ok_def delivered_def)
  then have "broadcast i fd ?key qs {i} ?t q 0 ?t"
    unfolding broadcast_def using st m(2,4,7,9) l by (intro conjI exI [of _ "[]"] exI [of _ "[i]"]) auto
  then show ?thesis using m(1,8,10) st by (intro exI [of _ ?t] exI [of _ d]) simp
qed

end
