(* ===== verification/Server_Delivery.thy ===== *)
theory Server_Delivery
  imports Server_Overflow
begin

text \<open>
  The two ways together: a response with status 200 goes through the cache as long as it fits
  and through the queues of its clients afterwards, any other through the queue of its client.
  Whatever its size and the order of events, all clients get it, and it stays in the cache exactly
  when its status is 200 and there is room for it.
\<close>

section \<open>The invariant of the delivery\<close>

definition delivery :: "kernel \<Rightarrow> client_id \<Rightarrow> fd \<Rightarrow> string \<Rightarrow> string list \<Rightarrow> client_id set \<Rightarrow> server \<Rightarrow> string \<Rightarrow> bool \<Rightarrow> nat \<Rightarrow> server \<Rightarrow> bool" where
  "delivery K i fd key qs L s0 b0 ok k s \<longleftrightarrow> stream_world K i fd qs L s0 \<and>
     (\<forall>j \<in> L. \<forall>d0. heap s0 j = Some d0 \<longrightarrow> sent_bytes d0 = 0) \<and>
     (ok \<and> flow i fd key qs L s0 b0 k s \<or>
      broadcast i fd key qs L s0 b0 k s \<and> (ok \<longrightarrow> cache_room (the_cache s0) < length (concat (take k qs))))"

lemma delivery_idle:
  "delivery K i fd key qs L s0 b0 ok k s \<Longrightarrow> length qs < k \<Longrightarrow> stream_step K i From_origin s = Done () s"
  by (auto simp: delivery_def stream_world_def intro: origin_done broadcast_done)

lemma delivery_receipt:
  assumes "delivery K i fd key qs L s0 b0 ok k s" "k \<le> length qs"
  shows "\<exists>t. stream_step K i From_origin s = Done () t \<and> delivery K i fd key qs L s0 b0 ok (Suc k) t \<and> same_clients s t"
proof -
  have w: "kernel_safe K" "sends K fd (trace s0) qs" "i \<in> L" "\<forall>j \<in> L. \<forall>d0. heap s0 j = Some d0 \<longrightarrow> sent_bytes d0 = 0"
    using assms(1) by (simp_all add: delivery_def stream_world_def)
  have "\<exists>t. stream_step K i From_origin s = Done () t \<and> same_clients s t \<and>
      (ok \<and> flow i fd key qs L s0 b0 (Suc k) t \<or>
       broadcast i fd key qs L s0 b0 (Suc k) t \<and> (ok \<longrightarrow> cache_room (the_cache s0) < length (concat (take (Suc k) qs))))"
  proof (cases "ok \<and> flow i fd key qs L s0 b0 k s")
    case True
    then have f: "flow i fd key qs L s0 b0 k s" ok by simp_all
    consider "k < length qs" "length (qs ! k) \<le> cache_room (the_cache s)" | "k < length qs" "cache_room (the_cache s) < length (qs ! k)"
      | "k = length qs"
      using assms(2) by linarith
    then show ?thesis
    proof cases
      case 1
      then show ?thesis using origin_chunk [OF w(1,2) f(1) _ w(3)] f(2) by blast
    next
      case 2
      then show ?thesis using flow_overflow [OF w(1,2) f(1) _ w(3) _ w(4)] by blast
    next
      case 3
      then show ?thesis using origin_end [OF w(1,2) _ w(3)] f by blast
    qed
  next
    case False
    then have b: "broadcast i fd key qs L s0 b0 k s" "ok \<longrightarrow> cache_room (the_cache s0) < length (concat (take k qs))"
      using assms(1) unfolding delivery_def by blast+
    have "length (concat (take k qs)) \<le> length (concat (take (Suc k) qs))"
      using assms(2) by (cases "k < length qs") (simp_all add: take_Suc_concat)
    with b(2) have over: "ok \<longrightarrow> cache_room (the_cache s0) < length (concat (take (Suc k) qs))" by linarith
    show ?thesis
    proof (cases "k < length qs")
      case True
      then show ?thesis using broadcast_chunk [OF w(1,2) b(1) _ w(3)] over by blast
    next
      case False
      then have "k = length qs" using assms(2) by simp
      then show ?thesis using broadcast_end [OF w(1,2) _ w(3)] b(1) over by blast
    qed
  qed
  then show ?thesis using assms(1) unfolding delivery_def by blast
qed

lemma delivery_client:
  assumes "delivery K i fd key qs L s0 b0 ok k s" "j \<in> L"
  shows "\<exists>t. stream_step K i (To_client j) s = Done () t \<and> delivery K i fd key qs L s0 b0 ok k t \<and>
    (\<forall>j'. j' \<noteq> j \<longrightarrow> heap t j' = heap s j') \<and> server_socket t = server_socket s \<and>
    (length qs < k \<longrightarrow> remaining (length (b0 @ concat qs)) j t \<le> remaining (length (b0 @ concat qs)) j s - 1)"
proof -
  have w: "kernel_safe K" "safe s0" "\<And>d0. heap s0 j = Some d0 \<Longrightarrow> accepts_data K (client_connection d0)"
    using assms by (simp_all add: delivery_def stream_world_def)
  show ?thesis
    using client_step [OF w(1,2) _ assms(2) w(3)] broadcast_client [OF w(1,2) _ assms(2) w(3)] assms(1)
    unfolding delivery_def by metis
qed

interpretation delivering: scheduled "stream_step K i" "delivery K i fd key qs L s0 b0 ok" "Suc (length qs)" L
  "remaining (length (b0 @ concat qs))"
proof unfold_locales
  fix k s assume d: "delivery K i fd key qs L s0 b0 ok k s" "k \<le> Suc (length qs)"
  show "\<exists>t. stream_step K i From_origin s = Done () t \<and> delivery K i fd key qs L s0 b0 ok (min (Suc k) (Suc (length qs))) t"
  proof (cases "k \<le> length qs")
    case True
    then show ?thesis using delivery_receipt [OF d(1)] by auto
  next
    case False
    then have "k = Suc (length qs)" using d(2) by simp
    then show ?thesis using delivery_idle [OF d(1)] d(1) by simp
  qed
next
  fix s assume "delivery K i fd key qs L s0 b0 ok (Suc (length qs)) s"
  then show "stream_step K i From_origin s = Done () s" using delivery_idle by blast
next
  fix k s j assume "delivery K i fd key qs L s0 b0 ok k s" "j \<in> L"
  from delivery_client [OF this] show "\<exists>t. stream_step K i (To_client j) s = Done () t \<and>
      delivery K i fd key qs L s0 b0 ok k t \<and>
      (\<forall>j'. j' \<noteq> j \<longrightarrow> remaining (length (b0 @ concat qs)) j' t = remaining (length (b0 @ concat qs)) j' s) \<and>
      (k = Suc (length qs) \<longrightarrow> remaining (length (b0 @ concat qs)) j t \<le> remaining (length (b0 @ concat qs)) j s - 1)"
    by (auto simp: remaining_def)
qed

section \<open>What the clients have had\<close>

lemma delivery_prefix:
  assumes "delivery K i fd key qs L s0 b0 ok k s" "j \<in> L" "heap s0 j = Some d0"
  shows "\<exists>n. delivered (client_connection d0) (trace s) =
    delivered (client_connection d0) (trace s0) @ take n (b0 @ concat (take k qs))"
proof -
  have "sent_bytes d0 = 0" using assms by (simp add: delivery_def)
  then show ?thesis
    using assms(1) flow_prefix [OF _ assms(2,3)] broadcast_prefix [OF _ assms(2,3)] unfolding delivery_def by blast
qed

lemma delivery_gone:
  assumes "delivery K i fd key qs L s0 b0 ok k s" "j \<in> L" "heap s j = None" "heap s0 j = Some d0"
  shows "delivered (client_connection d0) (trace s) = delivered (client_connection d0) (trace s0) @ b0 @ concat qs"
proof -
  have "sent_bytes d0 = 0" using assms by (simp add: delivery_def)
  then show ?thesis
    using assms(1) flow_gone [OF _ assms(2,3,4)] broadcast_gone [OF _ assms(2,3,4)] unfolding delivery_def by blast
qed

lemma delivery_cached:
  assumes "delivery K i fd key qs L s0 b0 ok (Suc (length qs)) s" "\<forall>j \<in> L. heap s j = None"
  shows "lookup (the_cache s) key = (if ok \<and> length (concat qs) \<le> cache_room (the_cache s0)
    then Some \<lparr>buffer = b0 @ concat qs, completed = True, in_use = 0\<rparr> else None)"
proof -
  consider "ok" "flow i fd key qs L s0 b0 (Suc (length qs)) s"
    | "broadcast i fd key qs L s0 b0 (Suc (length qs)) s" "ok \<longrightarrow> cache_room (the_cache s0) < length (concat qs)"
    using assms(1) unfolding delivery_def by auto
  then show ?thesis
  proof cases
    case 1
    then have "length (concat qs) \<le> cache_room (the_cache s0)" unfolding flow_def by auto
    then show ?thesis using flow_all_gone [OF 1(2) assms(2)] 1(1) by simp
  next
    case 2
    then have "lookup (the_cache s) key = None" unfolding broadcast_def by auto
    then show ?thesis using 2(2) by auto
  qed
qed

text \<open>Nobody is further from its end than the length of the response.\<close>

lemma delivery_bound:
  assumes "delivery K i fd key qs L s0 b0 ok k s" "j \<in> L"
  shows "remaining (length (b0 @ concat qs)) j s \<le> Suc (length (b0 @ concat qs))"
proof (cases "heap s j")
  case (Some d)
  have some: "length (concat (take k qs)) \<le> length (concat qs)"
    by (metis append_take_drop_id concat_append le_add1 length_append)
  have "should_read_from_cache d \<or> length (concat (chunks d)) \<le> length (b0 @ concat (take k qs))"
  proof (cases "ok \<and> flow i fd key qs L s0 b0 k s")
    case True
    then obtain tr e d0 where "reader_ok i (length qs < k) tr e j d0 (Some d)"
      using assms(2) Some unfolding flow_def by fastforce
    then show ?thesis by (simp add: reader_ok_def progress_def)
  next
    case False
    then obtain tr d0 where "queue_ok i (length qs < k) tr (b0 @ concat (take k qs)) j d0 (Some d)"
      using assms Some unfolding delivery_def broadcast_def by fastforce
    then show ?thesis by (auto simp: queue_ok_def dest!: arg_cong [of _ _ length])
  qed
  then show ?thesis using some Some by (auto simp: remaining_def)
qed (simp add: remaining_def)

section \<open>The status event\<close>

text \<open>
  How it may begin: with status 200 and a first chunk that fits, or, when nobody else waits for the
  same response, with any status line that can be read.
\<close>

definition begins :: "client_id \<Rightarrow> client_id list \<Rightarrow> string \<Rightarrow> server \<Rightarrow> bool" where
  "begins i l q s \<longleftrightarrow> status_200 q \<and> length q \<le> cache_room (the_cache s) \<or> l = [i] \<and> status_readable q"

lemma delivery_start:
  assumes K: "kernel_safe K" and safe: "safe s"
    and c: "heap s i = Some c" "state c = waiting_response_status_code" "server_connection c = Some fd"
    and l: "request_clients_map s (request_str c) = Some l" "i \<in> set l" and new: "lookup (the_cache s) (request_str c) = None"
    and recv: "sends K fd (trace s) (q # qs)" and q: "begins i l q s"
    and clients: "\<forall>j \<in> set l. \<forall>d. heap s j = Some d \<longrightarrow> unserved d \<and> accepts_data K (client_connection d)"
  shows "\<exists>t ok. handleClientSocketEvents K i POLLIN s = Done () t \<and> delivery K i fd (request_str c) qs (set l) t q ok 0 t \<and>
    (\<forall>j. map_option client_connection (heap t j) = map_option client_connection (heap s j)) \<and> same_clients s t \<and>
    (\<forall>fd. delivered fd (trace t) = delivered fd (trace s)) \<and>
    (ok \<and> length (concat qs) \<le> cache_room (the_cache t) \<longleftrightarrow> status_200 q \<and> length (concat (q # qs)) \<le> cache_room (the_cache s))"
proof -
  have first: "k_recv K (trace s) fd MAX_CHUNK_SIZE = Some q" "q \<noteq> []"
    and rest: "sends K fd (trace s @ [Ev_recv fd MAX_CHUNK_SIZE (Some q)]) qs"
    using sends_next [OF recv, of "[]"] by simp_all
  show ?thesis
  proof (cases "status_200 q \<and> length q \<le> cache_room (the_cache s)")
    case True
    then have ok: "status_200 q" "length q \<le> cache_room (the_cache s)" by simp_all
    have fresh: "\<forall>j \<in> set l. \<forall>d. heap s j = Some d \<longrightarrow> sent_bytes d = 0 \<and> chunks d = []"
      using clients by (simp add: unserved_def)
    obtain t where t: "handleClientSocketEvents K i POLLIN s = Done () t" "safe t"
      "trace t = trace s @ [Ev_recv fd MAX_CHUNK_SIZE (Some q)]" "flow i fd (request_str c) qs (set l) t q 0 t"
      "\<forall>j. map_option client_connection (heap t j) = map_option client_connection (heap s j)"
      "\<forall>j \<in> set l. \<exists>d. heap t j = Some d \<and> sent_bytes d = 0" "same_clients s t"
      "cache_room (the_cache t) + length q = cache_room (the_cache s)"
      using flow_start [OF K safe c l new first ok fresh, where qs = qs] by blast
    have "sent_bytes d = 0 \<and> accepts_data K (client_connection d)" if j: "j \<in> set l" "heap t j = Some d" for j d
      using t(5) [rule_format, of j] t(6) j clients by (cases "heap s j") fastforce+
    then have "delivery K i fd (request_str c) qs (set l) t q True 0 t"
      using K t(2-4) rest l(2) by (simp add: delivery_def stream_world_def)
    then show ?thesis
      using t(1,3,5,7,8) ok(1) by (intro exI [of _ t] exI [of _ True]) auto
  next
    case False
    then have alone: "l = [i]" "status_readable q" using q by (auto simp: begins_def)
    have un: "unserved c" using clients l(2) c(1) by blast
    have l': "request_clients_map s (request_str c) = Some [i]" using l(1) alone(1) by simp
    have other: "status_200 q \<Longrightarrow> cache_room (the_cache s) < length q" using False by simp
    obtain t d where t: "handleClientSocketEvents K i POLLIN s = Done () t" "safe t"
      "trace t = trace s @ [Ev_recv fd MAX_CHUNK_SIZE (Some q)]" "heap t = (heap s)(i \<mapsto> d)" "server_socket t = server_socket s"
      "client_connection d = client_connection c" "sent_bytes d = 0" "broadcast i fd (request_str c) qs {i} t q 0 t"
      using broadcast_alone [OF K safe c un l' new first alone(2) other, where qs = qs] by blast
    have "accepts_data K (client_connection d)" using clients l(2) c(1) t(6) by auto
    then have "delivery K i fd (request_str c) qs (set l) t q False 0 t"
      using K t(2-4,7,8) rest alone(1) by (simp add: delivery_def stream_world_def)
    then show ?thesis
      using t(1,3-6) c(1) False by (intro exI [of _ t] exI [of _ False]) (auto simp: same_clients_def)
  qed
qed

section \<open>A whole run\<close>

definition stream_run :: "kernel \<Rightarrow> client_id \<Rightarrow> stream_event list \<Rightarrow> unit server_act" where
  "stream_run K i es = andThen (handleClientSocketEvents K i POLLIN) (\<lambda>_. forEach es (stream_step K i))"

lemma stream_run_delivery:
  assumes K: "kernel_safe K" and safe: "safe s"
    and c: "heap s i = Some c" "state c = waiting_response_status_code" "server_connection c = Some fd"
    and l: "request_clients_map s (request_str c) = Some l" "i \<in> set l" and new: "lookup (the_cache s) (request_str c) = None"
    and recv: "sends K fd (trace s) (q # qs)" "begins i l q s"
    and clients: "\<forall>j \<in> set l. \<forall>d. heap s j = Some d \<longrightarrow> unserved d \<and> accepts_data K (client_connection d)"
    and es: "sched_ok (set l) (before @ after)"
  shows "\<exists>v t ok. stream_run K i (before @ after) s = Done () t \<and>
    delivery K i fd (request_str c) qs (set l) v q ok (min (count_list (before @ after) From_origin) (Suc (length qs))) t \<and>
    (\<forall>j \<in> set l. \<exists>d d'. heap s j = Some d \<and> heap v j = Some d' \<and> client_connection d' = client_connection d) \<and>
    (\<forall>fd. delivered fd (trace v) = delivered fd (trace s)) \<and>
    (ok \<and> length (concat qs) \<le> cache_room (the_cache v) \<longleftrightarrow> status_200 q \<and> length (concat (q # qs)) \<le> cache_room (the_cache s)) \<and>
    (length qs < count_list before From_origin \<longrightarrow>
      (\<forall>j \<in> set l. length (concat (q # qs)) < count_list after (To_client j) \<longrightarrow> heap t j = None))"
proof -
  let ?key = "request_str c" let ?last = "Suc (length qs)" let ?left = "remaining (length (q @ concat qs))"
  obtain v ok where v: "handleClientSocketEvents K i POLLIN s = Done () v" "delivery K i fd ?key qs (set l) v q ok 0 v"
    "\<forall>j. map_option client_connection (heap v j) = map_option client_connection (heap s j)"
    "\<forall>fd. delivered fd (trace v) = delivered fd (trace s)"
    "ok \<and> length (concat qs) \<le> cache_room (the_cache v) \<longleftrightarrow> status_200 q \<and> length (concat (q # qs)) \<le> cache_room (the_cache s)"
    using delivery_start [OF K safe c l new recv clients] by blast
  have same: "\<exists>d d'. heap s j = Some d \<and> heap v j = Some d' \<and> client_connection d' = client_connection d" if j: "j \<in> set l" for j
  proof -
    obtain d where "heap s j = Some d" using safe l(1) j unfolding server_inv_def requests_ok_def by blast
    then show ?thesis using v(3) [rule_format, of j] by (cases "heap v j") auto
  qed
  have sched: "sched_ok (set l) before" "sched_ok (set l) after" using es by simp_all
  obtain w where w: "forEach before (stream_step K i) v = Done () w"
    "delivery K i fd ?key qs (set l) v q ok (min (count_list before From_origin) ?last) w"
    using delivering.run_schedule [OF sched(1) v(2)] by auto
  obtain t where t: "forEach after (stream_step K i) w = Done () t"
    "delivery K i fd ?key qs (set l) v q ok (min (min (count_list before From_origin) ?last + count_list after From_origin) ?last) t"
    "min (count_list before From_origin) ?last = ?last \<longrightarrow> (\<forall>j. ?left j t \<le> ?left j w - count_list after (To_client j))"
    using delivering.run_schedule [OF sched(2) w(2)] by auto
  have "min (min (count_list before From_origin) ?last + count_list after From_origin) ?last =
      min (count_list (before @ after) From_origin) ?last"
    by simp
  with t(2) have now: "delivery K i fd ?key qs (set l) v q ok (min (count_list (before @ after) From_origin) ?last) t"
    by simp
  have "heap t j = None" if "length qs < count_list before From_origin" "length (concat (q # qs)) < count_list after (To_client j)"
    "j \<in> set l" for j
  proof -
    have "?left j t \<le> ?left j w - count_list after (To_client j)" using t(3) that(1) by simp
    moreover have "?left j w \<le> Suc (length (concat (q # qs)))" using delivery_bound [OF w(2) that(3)] by simp
    ultimately show ?thesis using that(2) by (simp add: remaining_def split: option.splits)
  qed
  moreover have "stream_run K i (before @ after) s = Done () t"
    unfolding stream_run_def andThen_def v(1) by (simp add: forEach_append andThen_def w(1) t(1))
  ultimately show ?thesis
    using v(4,5) now same by blast
qed

end
