(* ===== verification/Server_Errors.thy ===== *)
theory Server_Errors
  imports Server_Requests
begin

text \<open>
  Inputs that the handlers do not survive, or that leave a client behind: short or malformed
  responses, an event for a client that an earlier event of the same turn has discarded, a
  client whose fellow was to fetch the response, and descriptors beyond the client vector.
\<close>

section \<open>The status line\<close>

lemma status_event:
  assumes "heap s i = Some c" "state c = waiting_response_status_code" "server_connection c = Some fd"
    "k_recv K (trace s) fd MAX_CHUNK_SIZE = Some bs" "bs \<noteq> []" "and revents (or POLLERR POLLNVAL) = 0"
  shows "length bs < STATUS_CODE_OFFSET + STATUS_CODE_LEN \<Longrightarrow> handleClientSocketEvents K i revents s = Undef"
    "STATUS_CODE_OFFSET + STATUS_CODE_LEN \<le> length bs \<Longrightarrow>
     stoi (take STATUS_CODE_LEN (drop STATUS_CODE_OFFSET bs)) = Inl x \<Longrightarrow> \<not> is_spx_exception x \<Longrightarrow>
     handleClientSocketEvents K i revents s = Raise x (s\<lparr>trace := trace s @ [Ev_recv fd MAX_CHUNK_SIZE (Some bs)]\<rparr>)"
  using assms
  by (simp_all add: handleClientSocketEvents_def handle_state_def readResponseStatusCodeFromServer_def tryCatch_def
      readResponseChunk_def server_conn_def receive_def status_code_def andThen_def getC_def get_def log_event_def
      modify_def ret_def raise_def undefined_behaviour_def)

lemma stoi_exceptions: "stoi str = Inl x \<Longrightarrow> \<not> is_spx_exception x"
  by (auto simp: stoi_def Let_def split: if_splits)

section \<open>Events for a client that is gone\<close>

lemma fds_of_owned: "heap s i = Some c \<Longrightarrow> set (fds_of c) \<subseteq> owned s"
  by (auto simp: owned_def)

lemma fds_of_mem: "fd \<notin> set (fds_of c) \<Longrightarrow> client_connection c \<noteq> fd \<and> server_connection c \<noteq> Some fd"
  by (auto simp: fds_of_def)

lemma find_client_none:
  assumes "safe s" "fd \<notin> owned s" "set l \<subseteq> set (slots s)"
  shows "find_client fd l s = Done None s"
  using assms(3)
proof (induction l)
  case (Cons x l)
  show ?case
  proof (cases x)
    case (Some i)
    then have "Some i \<in> set (slots s)" using Cons.prems by auto
    then obtain c where c: "heap s i = Some c"
      using assms(1) unfolding server_inv_def owners_ok_def in_set_conv_nth by blast
    then have "fd \<notin> set (fds_of c)" using fds_of_owned assms(2) by blast
    then have "client_connection c \<noteq> fd" "server_connection c \<noteq> Some fd" by (simp_all add: fds_of_mem)
    with Some c Cons show ?thesis by (simp add: andThen_def getC_def)
  qed (use Cons in simp)
qed (simp add: ret_def)

lemma getClient_gone:
  assumes "safe s" "fd \<notin> owned s"
  shows "getClient fd s = Undef"
proof -
  have "slots s ! nat fd = None" if n: "0 \<le> fd" "nat fd < length (slots s)"
  proof (rule ccontr)
    assume "slots s ! nat fd \<noteq> None"
    then obtain i where i: "slots s ! nat fd = Some i" by blast
    then obtain c where c: "heap s i = Some c" "client_connection c = int (nat fd)"
      using assms(1) n(2) unfolding server_inv_def owners_ok_def by blast
    then have "client_connection c = fd" using n(1) by simp
    then show False using fds_of_owned [OF c(1)] assms(2) by (auto simp: fds_of_def)
  qed
  then have "slot_at fd s = Undef \<or> slot_at fd s = Done None s"
    by (auto simp: slot_at_def get_def undefined_behaviour_def andThen_def ret_def)
  then show ?thesis
    using find_client_none [OF assms, of "slots s"]
    by (auto simp: getClient_def andThen_def get_def undefined_behaviour_def)
qed

lemma find_client_owner:
  assumes "safe s" "heap s i = Some c" "fd \<in> set (fds_of c)" "set l \<subseteq> set (slots s)" "Some i \<in> set l"
  shows "find_client fd l s = Done (Some i) s"
  using assms(4,5)
proof (induction l)
  case (Cons x l)
  show ?case
  proof (cases x)
    case None
    with Cons show ?thesis by simp
  next
    case (Some j)
    then have "Some j \<in> set (slots s)" using Cons.prems by auto
    then obtain d where d: "heap s j = Some d"
      using assms(1) unfolding server_inv_def owners_ok_def in_set_conv_nth by blast
    show ?thesis
    proof (cases "j = i")
      case True
      then show ?thesis
        using Some assms(2,3) by (auto simp: andThen_def getC_def ret_def fds_of_def split: option.splits)
    next
      case False
      then have "fd \<notin> set (fds_of d)"
        using assms(1-3) d unfolding server_inv_def fds_ok_def by (metis disjoint_iff)
      then have "client_connection d \<noteq> fd" "server_connection d \<noteq> Some fd" by (auto simp: fds_of_def)
      with Some d False Cons show ?thesis by (simp add: andThen_def getC_def)
    qed
  qed
qed simp

lemma getClient_owner:
  assumes "safe s" "heap s i = Some c" "fd \<in> set (fds_of c)"
  shows "getClient fd s = Done i s"
proof -
  have "Some i \<in> set (slots s)"
    using assms(1,2) unfolding server_inv_def owners_ok_def by (metis nth_mem)
  with find_client_owner [OF assms, of "slots s"] show ?thesis
    by (simp add: getClient_def andThen_def get_def ret_def)
qed

text \<open>
  A client that streams a response has two descriptors in one \<open>poll\<close>. When the event on the
  origin's side makes the proxy discard the client, the event on the client's side finds nobody.
\<close>

lemma second_event_undefined:
  assumes safe: "safe s" and K: "kernel_safe K" and c: "heap s i = Some c" "server_connection c = Some fd"
    and l: "request_clients_map s (request_str c) = Some [i]"
    and err: "and (pfd_revents p) (or POLLERR POLLNVAL) \<noteq> 0" "pfd_fd p = fd" "pfd_fd q = client_connection c"
  shows "forEach (p # q # ps) (handle_pollfd K) s = Undef"
proof -
  have fds: "fd \<in> set (fds_of c)" "client_connection c \<in> set (fds_of c)" using c(2) by (simp_all add: fds_of_def)
  have own: "set (fds_of c) \<subseteq> owned s" using c(1) by (auto simp: owned_def)
  have L: "listen_fd (server_socket s) \<notin> owned s" using safe by (simp add: server_inv_def fds_ok_def)
  obtain u where u: "discardClient K i s = Done () u" "heap u = (heap s)(i := None)" "server_socket u = server_socket s"
    using discardClient_run [OF safe c(1) l, of K] by auto
  have first: "handle_pollfd K p s = Done () u"
    using getClient_owner [OF safe c(1) fds(1)] err(1,2) L own fds(1) u(1)
    by (auto simp: handle_pollfd_def socket_eq_def handleClientSocketEvents_def tryCatch_def andThen_def get_def)
  have "safe u"
    using discardClient_preserves [of K i] K safe u(1) by (simp add: kernel_safe_def hoare_def wp_def) (metis outcome.case(1))
  moreover have "owned u = owned s - set (fds_of c)"
    using owned_remove [OF _ c(1)] safe u(2) by (simp add: server_inv_def owned_def)
  ultimately have "getClient (client_connection c) u = Undef"
    using fds(2) by (intro getClient_gone) simp_all
  then have "handle_pollfd K q u = Undef"
    using err(3) L own fds(2) u(3)
    by (auto simp: handle_pollfd_def socket_eq_def andThen_def get_def)
  with first show ?thesis by (simp add: andThen_def)
qed

section \<open>A waiting client left behind\<close>

lemma owner_hangup:
  assumes safe: "safe s" and i: "heap s i = Some c" "state c = sending_request"
    and j: "heap s j = Some d" "state d = waiting_for_response_for_another_client" "request_str d = request_str c"
    and l: "request_clients_map s (request_str c) = Some [i, j]"
  shows "\<exists>u. handleClientSocketEvents K i POLLHUP s = Done () u \<and> heap u i = None \<and> heap u j = Some d \<and>
    request_clients_map u (request_str c) = Some [j] \<and> client_pollfds d u = Done [] u"
proof -
  have ne: "i \<noteq> j" using i j by auto
  have "state c \<noteq> waiting_response" using i(2) by simp
  then obtain u where u: "discardClient K i s = Done () u" "heap u = (heap s)(i := None)"
    "request_clients_map u = (request_clients_map s)(request_str c \<mapsto> filter (\<lambda>k. k \<noteq> i) [i, j])"
    using discardClient_run [OF safe i(1) l, of K] by auto
  then show ?thesis
    using ne i j(1,2)
    by (simp add: handleClientSocketEvents_def handle_state_def tryCatch_def andThen_def getC_def poll_defs
        client_pollfds_def Let_def ret_def)
qed

section \<open>The client vector\<close>

lemma accept_beyond:
  assumes "k_accept K (trace s) (listen_fd (server_socket s)) = fd" "int (length (slots s)) \<le> fd"
  shows "server_acceptClient K s = Undef"
  using assms
  by (auto simp: server_acceptClient_def socket_accept_def clients_acceptClient_def assign_slot_def slot_at_def
      andThen_def get_def log_event_def modify_def ret_def raise_def INVALID_SOCKET_FD_def)

lemma ClientsList_length:
  assumes "ClientsList max_fds n = Done l n'" "4 \<le> unat max_fds"
  shows "length l = (unat max_fds - 4) div 2"
proof -
  have "unat (max_fds - 4) = unat max_fds - 4"
    using size_t_sub [of 4 max_fds] assms(2) by simp
  then show ?thesis
    using assms(1) by (auto simp: ClientsList_def calculateMaximumClients_def ret_def raise_def unat_div split: if_splits)
qed

end
