(* ===== verification/Server_Turns.thy ===== *)
theory Server_Turns
  imports Server_Delivery Server_Errors
begin

text \<open>
  The delivery of a response by the turns of the event loop itself: \<open>poll\<close> is asked for the right
  events, each event it reports finds its client, and a turn is a schedule of the events of the
  response. When everything asked for is ready, a bounded number of turns serves all clients.
\<close>

section \<open>What is polled\<close>

fun present :: "'a option list \<Rightarrow> 'a list" where
  "present [] = []"
| "present (None # l) = present l"
| "present (Some x # l) = x # present l"

lemma present_set: "x \<in> set (present l) \<longleftrightarrow> Some x \<in> set l"
  by (induction l rule: present.induct) auto

lemma present_distinct:
  "(\<And>m n x. m < length l \<Longrightarrow> n < length l \<Longrightarrow> l ! m = Some x \<Longrightarrow> l ! n = Some x \<Longrightarrow> m = n) \<Longrightarrow> distinct (present l)"
proof (induction l rule: present.induct)
  case (2 l)
  have "distinct (present l)" using 2(2) [of "Suc _" "Suc _"] by (intro 2(1)) auto
  then show ?case by simp
next
  case (3 x l)
  have "distinct (present l)" using 3(2) [of "Suc _" "Suc _"] by (intro 3(1)) auto
  moreover have "Some x \<notin> set l" using 3(2) [of 0 "Suc _" x] by (auto simp: in_set_conv_nth)
  ultimately show ?case by (simp add: present_set)
qed simp

definition live :: "server \<Rightarrow> client_id list" where
  "live s = present (slots s)"

lemma live_slots: "j \<in> set (live s) \<longleftrightarrow> Some j \<in> set (slots s)"
  by (simp add: live_def present_set)

lemma live_set:
  assumes "safe s"
  shows "j \<in> set (live s) \<longleftrightarrow> heap s j \<noteq> None"
proof
  assume "j \<in> set (live s)"
  then have "Some j \<in> set (slots s)" by (simp add: live_slots)
  then obtain n where "n < length (slots s)" "slots s ! n = Some j" unfolding in_set_conv_nth by blast
  then show "heap s j \<noteq> None" using assms unfolding server_inv_def owners_ok_def by blast
next
  assume "heap s j \<noteq> None"
  then obtain c where "heap s j = Some c" by blast
  then have "nat (client_connection c) < length (slots s)" "slots s ! nat (client_connection c) = Some j"
    using assms unfolding server_inv_def owners_ok_def by blast+
  then show "j \<in> set (live s)" using nth_mem by (fastforce simp: live_slots)
qed

lemma live_distinct:
  assumes "safe s"
  shows "distinct (live s)"
  unfolding live_def
proof (rule present_distinct)
  fix m n j assume mn: "m < length (slots s)" "n < length (slots s)" "slots s ! m = Some j" "slots s ! n = Some j"
  have at: "\<exists>c. heap s j = Some c \<and> client_connection c = int k" if "k < length (slots s)" "slots s ! k = Some j" for k
    using assms that unfolding server_inv_def owners_ok_def by blast
  from at [OF mn(1,3)] at [OF mn(2,4)] show "m = n" by auto
qed

text \<open>The events asked for, client by client.\<close>

lemma collect_run:
  assumes "\<And>j. j \<in> set (present l) \<Longrightarrow> \<exists>c. heap s j = Some c \<and> client_pollfds c s = Done (asked j) s"
  shows "collect_pollfds l s = Done (concat (map asked (present l))) s"
  using assms
proof (induction l rule: collect_pollfds.induct)
  case (3 i rest)
  then obtain c where "heap s i = Some c" "client_pollfds c s = Done (asked i) s" by auto
  with 3 show ?case by (simp add: andThen_def getC_def ret_def)
qed (simp_all add: ret_def)

text \<open>
  A kernel for which everything is ready: \<open>poll\<close> reports every event it is asked for, except that
  nobody connects to the listening socket \<open>lfd\<close>.
\<close>

definition all_ready :: "kernel \<Rightarrow> fd \<Rightarrow> bool" where
  "all_ready K lfd \<longleftrightarrow> (\<forall>tr pfds. 0 \<le> fst (k_poll K tr pfds) \<and>
     snd (k_poll K tr pfds) = map (\<lambda>p. if pfd_fd p = lfd then 0 else pfd_events p) pfds)"

definition reported :: "pollfd list \<Rightarrow> pollfd list" where
  "reported = map (\<lambda>p. p\<lparr>pfd_revents := pfd_events p\<rparr>)"

lemma poll_run:
  assumes K: "kernel_safe K" "all_ready K (listen_fd (server_socket s))"
    and asked: "\<And>j. j \<in> set (live s) \<Longrightarrow> \<exists>c. heap s j = Some c \<and> client_pollfds c s = Done (asked j) s"
    and fds: "\<And>p. p \<in> set (concat (map asked (live s))) \<Longrightarrow> pfd_fd p \<noteq> listen_fd (server_socket s) \<and> pfd_events p \<noteq> 0"
  shows "\<exists>ev. (\<forall>fd. receipts fd [ev] = 0 \<and> delivered fd [ev] = []) \<and>
    server_poll K s = Done (reported (concat (map asked (live s)))) (s\<lparr>trace := trace s @ [ev]\<rparr>)"
proof -
  let ?ps = "concat (map asked (live s))" let ?lfd = "listen_fd (server_socket s)"
  let ?all = "?ps @ [\<lparr>pfd_fd = ?lfd, pfd_events = POLLIN, pfd_revents = 0\<rparr>]"
  have get: "server_getPollfds s = Done ?all s"
    using collect_run [OF asked [unfolded live_def]]
    by (simp add: server_getPollfds_def clients_getPollfds_def andThen_def get_def ret_def live_def)
  obtain n revs where poll: "k_poll K (trace s) ?all = (n, revs)" by fastforce
  have revs: "revs = map pfd_events ?ps @ [0]" "0 \<le> n"
  proof -
    have "revs = map (\<lambda>p. if pfd_fd p = ?lfd then 0 else pfd_events p) ?all" and n0: "0 \<le> n"
      using K(2) [unfolded all_ready_def, rule_format, of "trace s" ?all] poll by simp_all
    moreover have "map (\<lambda>p. if pfd_fd p = ?lfd then 0 else pfd_events p) ?ps = map pfd_events ?ps"
      using fds by (intro map_cong) auto
    ultimately show "revs = map pfd_events ?ps @ [0]" "0 \<le> n" by simp_all
  qed
  have n: "n = int (length ?ps)"
  proof -
    have "n = int (length (filter (\<lambda>r. r \<noteq> 0) revs))"
      using K(1) poll revs(2) unfolding kernel_safe_def kernel_ok_def poll_ok_def by (metis fst_conv snd_conv)
    also have "filter (\<lambda>r. r \<noteq> 0) revs = map pfd_events ?ps" using fds revs(1) by (auto simp: filter_id_conv)
    finally show ?thesis by simp
  qed
  have zip: "filter (\<lambda>p. pfd_revents p \<noteq> 0) (map (\<lambda>(p, r). p\<lparr>pfd_revents := r\<rparr>) (zip ?all revs)) = reported ?ps"
  proof -
    have "map (\<lambda>(p, r). p\<lparr>pfd_revents := r\<rparr>) (zip qs (map pfd_events qs)) = reported qs" for qs
      by (induction qs) (simp_all add: reported_def)
    moreover have "filter (\<lambda>p. pfd_revents p \<noteq> 0) (reported ?ps) = reported ?ps"
      using fds by (auto simp: reported_def filter_id_conv)
    ultimately show ?thesis unfolding revs(1) by simp
  qed
  let ?ev = "Ev_poll ?all n revs"
  have "server_poll K s = Done (reported ?ps) (s\<lparr>trace := trace s @ [?ev]\<rparr>)"
    using get poll revs(2) n zip
    by (simp add: server_poll_def andThen_def get_def log_event_def modify_def ret_def reported_def)
  then show ?thesis by (intro exI [of _ ?ev]) (simp add: delivered_def)
qed


section \<open>Finding the client of an event\<close>

lemma dispatch:
  assumes safe: "safe s" and d: "heap s j = Some d" "pfd_fd p \<in> set (fds_of d)"
  shows "handle_pollfd K p s = handleClientSocketEvents K j (pfd_revents p) s"
proof -
  have "pfd_fd p \<in> owned s" using d by (auto simp: owned_def)
  moreover have "listen_fd (server_socket s) \<notin> owned s" using safe by (simp add: server_inv_def fds_ok_def)
  ultimately show ?thesis
    using getClient_owner [OF safe d] by (auto simp: handle_pollfd_def socket_eq_def andThen_def get_def)
qed

section \<open>Between the events\<close>

lemma delivery_trace:
  assumes "delivery K i fd key qs L s0 b0 ok k s" "safe (s\<lparr>trace := trace s @ [ev]\<rparr>)"
    "\<forall>fd. receipts fd [ev] = 0 \<and> delivered fd [ev] = []"
  shows "delivery K i fd key qs L s0 b0 ok k (s\<lparr>trace := trace s @ [ev]\<rparr>)"
proof -
  have reader: "reader_ok i w tr e j d0 now \<Longrightarrow> reader_ok i w (tr @ [ev]) e j d0 now" for w tr e j d0 now
    using assms(3) by (auto simp: reader_ok_def intro: progress_trace split: option.splits)
  have queue: "queue_ok i w tr due j d0 now \<Longrightarrow> queue_ok i w (tr @ [ev]) due j d0 now" for w tr due j d0 now
    using assms(3) queue_trace by blast
  have "flow i fd key qs L s0 b0 k (s\<lparr>trace := trace s @ [ev]\<rparr>)" if f: "flow i fd key qs L s0 b0 k s"
    using f assms(2,3) unfolding flow_def
    by (elim exE conjE, intro conjI exI [of _ "_ @ [ev]"] exI) (assumption | simp | blast intro: reader)+
  moreover have "broadcast i fd key qs L s0 b0 k (s\<lparr>trace := trace s @ [ev]\<rparr>)" if f: "broadcast i fd key qs L s0 b0 k s"
    using f assms(2,3) unfolding broadcast_def
    by (elim exE conjE, intro conjI exI [of _ "_ @ [ev]"] exI) (assumption | simp | blast intro: queue)+
  ultimately show ?thesis using assms(1) unfolding delivery_def by blast
qed

text \<open>What the invariant says of a client that is still there.\<close>

lemma delivery_client_state:
  assumes "delivery K i fd key qs L s0 b0 ok k s" "j \<in> L" "heap s j = Some d"
  shows "client_connection d = client_connection (the (heap s0 j)) \<and>
    state d \<in> {waiting_response, got_response, getting_response_from_another_client} \<and>
    (state d = waiting_response \<longleftrightarrow> j = i \<and> k \<le> length qs) \<and> (state d = waiting_response \<longrightarrow> server_connection d = Some fd)"
proof (cases "ok \<and> flow i fd key qs L s0 b0 k s")
  case True
  then obtain tr e d0 where "heap s0 j = Some d0" "reader_ok i (length qs < k) tr e j d0 (Some d)"
    "k \<le> length qs \<longrightarrow> (\<exists>c. heap s i = Some c \<and> state c = waiting_response \<and> server_connection c = Some fd)"
    using assms(2,3) unfolding flow_def by fastforce
  then show ?thesis using assms(3) by (auto simp: reader_ok_def progress_def)
next
  case False
  then have "broadcast i fd key qs L s0 b0 k s" using assms(1) by (auto simp: delivery_def)
  then obtain tr d0 where "heap s0 j = Some d0" "queue_ok i (length qs < k) tr (b0 @ concat (take k qs)) j d0 (Some d)"
    "k \<le> length qs \<longrightarrow> (\<exists>c. heap s i = Some c \<and> server_connection c = Some fd)"
    using assms(2,3) unfolding broadcast_def by fastforce
  then show ?thesis using assms(3) by (auto simp: queue_ok_def)
qed

lemma delivery_fetcher:
  assumes "delivery K i fd key qs L s0 b0 ok k s" "k \<le> length qs"
  shows "\<exists>c. heap s i = Some c"
  using assms unfolding delivery_def flow_def broadcast_def by auto

section \<open>A turn\<close>

fun pfd_of :: "server \<Rightarrow> fd \<Rightarrow> stream_event \<Rightarrow> pollfd" where
  "pfd_of s0 fd From_origin = \<lparr>pfd_fd = fd, pfd_events = POLLIN, pfd_revents = POLLIN\<rparr>"
| "pfd_of s0 fd (To_client j) = \<lparr>pfd_fd = client_connection (the (heap s0 j)), pfd_events = POLLOUT, pfd_revents = POLLOUT\<rparr>"

text \<open>The reported events are those of a schedule, each handled by its client.\<close>

lemma run_events:
  assumes "delivery K i fd key qs L s0 b0 ok k s" "distinct es" "sched_ok L es"
    "\<forall>j. To_client j \<in> set es \<longrightarrow> heap s j \<noteq> None" "From_origin \<in> set es \<longrightarrow> k \<le> length qs"
  shows "\<exists>t. forEach (map (pfd_of s0 fd) es) (handle_pollfd K) s = Done () t \<and> forEach es (stream_step K i) s = Done () t \<and>
    server_socket t = server_socket s \<and> (\<forall>j. heap s j = None \<longrightarrow> heap t j = None)"
  using assms
proof (induction es arbitrary: k s)
  case Nil
  then show ?case by (simp add: ret_def)
next
  case (Cons ev es)
  have safe: "safe s" and i: "i \<in> L"
    using Cons.prems(1) by (auto simp: delivery_def flow_def broadcast_def stream_world_def)
  show ?case
  proof (cases ev)
    case From_origin
    then have k: "k \<le> length qs" using Cons.prems(5) by simp
    obtain c where c: "heap s i = Some c" using delivery_fetcher [OF Cons.prems(1) k] by blast
    have st: "state c = waiting_response" "server_connection c = Some fd"
      using delivery_client_state [OF Cons.prems(1) i c] k by auto
    then have "fd \<in> set (fds_of c)" by (simp add: fds_of_def)
    from dispatch [OF safe c, of "pfd_of s0 fd ev"] this From_origin
    have same: "handle_pollfd K (pfd_of s0 fd ev) s = stream_step K i ev s" using c st by (simp add: stream_step_def)
    obtain t where t: "stream_step K i ev s = Done () t" "delivery K i fd key qs L s0 b0 ok (Suc k) t" "same_clients s t"
      using delivery_receipt [OF Cons.prems(1) k] From_origin by auto
    have "\<forall>j. To_client j \<in> set es \<longrightarrow> heap t j \<noteq> None" using Cons.prems(4) t(3) by (auto simp: same_clients_def)
    then obtain u where "forEach (map (pfd_of s0 fd) es) (handle_pollfd K) t = Done () u" "forEach es (stream_step K i) t = Done () u"
      "server_socket u = server_socket t" "\<forall>j. heap t j = None \<longrightarrow> heap u j = None"
      using Cons.IH [OF t(2)] Cons.prems(2,3) From_origin by auto
    then show ?thesis using same t(1,3) by (intro exI [of _ u]) (simp add: andThen_def same_clients_def)
  next
    case (To_client j)
    then obtain d where j: "j \<in> L" "heap s j = Some d" using Cons.prems(3,4) by auto
    have "client_connection (the (heap s0 j)) \<in> set (fds_of d)"
      using delivery_client_state [OF Cons.prems(1) j] by (simp add: fds_of_def)
    from dispatch [OF safe j(2), of "pfd_of s0 fd ev"] this To_client
    have same: "handle_pollfd K (pfd_of s0 fd ev) s = stream_step K i ev s" using j(2) by (simp add: stream_step_def)
    obtain t where t: "stream_step K i ev s = Done () t" "delivery K i fd key qs L s0 b0 ok k t"
      "\<forall>j'. j' \<noteq> j \<longrightarrow> heap t j' = heap s j'" "server_socket t = server_socket s"
      using delivery_client [OF Cons.prems(1) j(1)] To_client by auto
    have "\<forall>j. To_client j \<in> set es \<longrightarrow> heap t j \<noteq> None" using Cons.prems(2,4) t(3) To_client by (metis distinct.simps(2) list.set_intros(2))
    then obtain u where "forEach (map (pfd_of s0 fd) es) (handle_pollfd K) t = Done () u" "forEach es (stream_step K i) t = Done () u"
      "server_socket u = server_socket t" "\<forall>j. heap t j = None \<longrightarrow> heap u j = None"
      using Cons.IH [OF t(2)] Cons.prems(2,3,5) by auto
    moreover from this(4) t(3) j(2) have "\<forall>j'. heap s j' = None \<longrightarrow> heap u j' = None" by (metis option.distinct(1))
    ultimately show ?thesis using same t(1,4) by (intro exI [of _ u]) (simp add: andThen_def)
  qed
qed


text \<open>The events of a turn: one of each client, and one of the origin while it sends.\<close>

definition turn_events :: "client_id \<Rightarrow> bool \<Rightarrow> client_id list \<Rightarrow> stream_event list" where
  "turn_events i sending l = concat (map (\<lambda>j. if j = i \<and> sending then [From_origin, To_client j] else [To_client j]) l)"

lemma turn_events_count:
  "distinct l \<Longrightarrow> distinct (turn_events i b l) \<and> (\<forall>j. To_client j \<in> set (turn_events i b l) \<longleftrightarrow> j \<in> set l) \<and>
    (From_origin \<in> set (turn_events i b l) \<longleftrightarrow> b \<and> i \<in> set l)"
  by (induction l) (auto simp: turn_events_def)

lemma count_distinct: "distinct xs \<Longrightarrow> count_list xs x = (if x \<in> set xs then 1 else 0)"
  by (induction xs) (auto simp: count_list_0_iff)

definition turn_pfds :: "server \<Rightarrow> fd \<Rightarrow> client_id \<Rightarrow> bool \<Rightarrow> client_id \<Rightarrow> pollfd list" where
  "turn_pfds s0 fd i sending j = map (\<lambda>ev. pfd_of s0 fd ev\<lparr>pfd_revents := 0\<rparr>) (turn_events i sending [j])"

lemma turn_pfds_all:
  "reported (concat (map (turn_pfds s0 fd i b) l)) = map (pfd_of s0 fd) (turn_events i b l)"
  by (induction l) (simp_all add: reported_def turn_pfds_def turn_events_def)

lemma client_asks:
  assumes "delivery K i fd key qs L s0 b0 ok k s" "j \<in> L" "heap s j = Some d" "fd \<noteq> - 1"
  shows "client_pollfds d s = Done (turn_pfds s0 fd i (k \<le> length qs) j) s"
  using delivery_client_state [OF assms(1-3)] assms(4)
  by (auto simp: client_pollfds_def Let_def turn_pfds_def turn_events_def assertThat_def andThen_def ret_def)

lemma turn:
  assumes d: "delivery K i fd key qs L s0 b0 ok k s" and k: "k \<le> Suc (length qs)" and fd: "fd \<noteq> - 1"
    and ready: "all_ready K (listen_fd (server_socket s))" and only: "\<forall>j. heap s j \<noteq> None \<longrightarrow> j \<in> L"
  shows "\<exists>t. server_iteration K s = Done () t \<and> delivery K i fd key qs L s0 b0 ok (min (Suc k) (Suc (length qs))) t \<and>
    server_socket t = server_socket s \<and> (\<forall>j. heap t j \<noteq> None \<longrightarrow> j \<in> L) \<and>
    (k = Suc (length qs) \<longrightarrow> (\<forall>j. remaining (length (b0 @ concat qs)) j t \<le> remaining (length (b0 @ concat qs)) j s - 1))"
proof -
  have safe: "safe s" and K: "kernel_safe K"
    using d by (auto simp: delivery_def flow_def broadcast_def stream_world_def)
  let ?open = "k \<le> length qs" let ?es = "turn_events i ?open (live s)"
  have asked: "\<exists>c. heap s j = Some c \<and> client_pollfds c s = Done (turn_pfds s0 fd i ?open j) s" if "j \<in> set (live s)" for j
    using that live_set [OF safe, of j] only client_asks [OF d _ _ fd] by auto
  have owned: "pfd_fd p \<in> owned s \<and> pfd_events p \<noteq> 0" if p: "p \<in> set (turn_pfds s0 fd i ?open j)" and j: "j \<in> set (live s)" for p j
  proof -
    obtain c where c: "heap s j = Some c" "j \<in> L" using j live_set [OF safe, of j] only by auto
    have "set (fds_of c) \<subseteq> owned s" using c(1) by (auto simp: owned_def)
    then show ?thesis
      using delivery_client_state [OF d c(2,1)] p
      by (auto simp: turn_pfds_def turn_events_def fds_of_def poll_defs split: if_splits)
  qed
  have "listen_fd (server_socket s) \<notin> owned s" using safe by (simp add: server_inv_def fds_ok_def)
  then obtain ev where ev: "\<forall>fd. receipts fd [ev] = 0 \<and> delivered fd [ev] = []"
    "server_poll K s = Done (reported (concat (map (turn_pfds s0 fd i ?open) (live s)))) (s\<lparr>trace := trace s @ [ev]\<rparr>)"
    using poll_run [OF K ready asked] owned by fastforce
  let ?u = "s\<lparr>trace := trace s @ [ev]\<rparr>"
  have "safe ?u" using hoareD [OF poll_preserves, of s K] safe ev(2) by (simp add: wp_def)
  then have du: "delivery K i fd key qs L s0 b0 ok k ?u" by (rule delivery_trace [OF d _ ev(1)])
  have es: "distinct ?es" "\<And>j. To_client j \<in> set ?es \<longleftrightarrow> heap s j \<noteq> None" "From_origin \<in> set ?es \<longleftrightarrow> ?open"
    using turn_events_count [OF live_distinct [OF safe], of i ?open] delivery_fetcher [OF d] live_set [OF safe]
    by auto
  have ok: "sched_ok L ?es" using es(2) only by (auto simp: sched_ok_def)
  obtain t where t: "forEach (map (pfd_of s0 fd) ?es) (handle_pollfd K) ?u = Done () t" "forEach ?es (stream_step K i) ?u = Done () t"
    "server_socket t = server_socket s" "\<forall>j. heap s j = None \<longrightarrow> heap t j = None"
    using run_events [OF du es(1) ok] es(2,3) by auto
  obtain t' where t': "forEach ?es (stream_step K i) ?u = Done () t'"
    "delivery K i fd key qs L s0 b0 ok (min (k + count_list ?es From_origin) (Suc (length qs))) t'"
    "k = Suc (length qs) \<longrightarrow> (\<forall>j. remaining (length (b0 @ concat qs)) j t' \<le>
      remaining (length (b0 @ concat qs)) j ?u - count_list ?es (To_client j))"
    using delivering.run_schedule [OF ok du k] by blast
  have same: "t' = t" using t(2) t'(1) by simp
  have counts: "remaining n j ?u - count_list ?es (To_client j) = remaining n j s - 1" for n j
    using count_distinct [OF es(1)] es(2) by (simp add: remaining_def split: option.split)
  have left: "k = Suc (length qs) \<longrightarrow>
      (\<forall>j. remaining (length (b0 @ concat qs)) j t \<le> remaining (length (b0 @ concat qs)) j s - 1)"
    using t'(3) unfolding same counts .
  have "min (k + count_list ?es From_origin) (Suc (length qs)) = min (Suc k) (Suc (length qs))"
    using count_distinct [OF es(1), of From_origin] es(3) k by simp
  then have now: "delivery K i fd key qs L s0 b0 ok (min (Suc k) (Suc (length qs))) t"
    using t'(2) unfolding same by (simp only:)
  have run: "server_iteration K s = Done () t"
    unfolding server_iteration_def andThen_def ev(2) turn_pfds_all by (simp only: outcome.case t(1))
  have "j \<in> L" if j: "heap t j \<noteq> None" for j
    by (rule only [rule_format]) (rule contrapos_nn [OF j t(4) [rule_format]])
  then have "\<forall>j. heap t j \<noteq> None \<longrightarrow> j \<in> L" by simp
  then show ?thesis by (intro exI [of _ t] conjI run now t(3) left)
qed

section \<open>All turns\<close>

definition server_turns :: "kernel \<Rightarrow> nat \<Rightarrow> unit server_act" where
  "server_turns K n = forEach (replicate n ()) (\<lambda>_. server_iteration K)"

lemma server_turns_simps:
  "server_turns K 0 s = Done () s" "server_turns K (Suc n) = andThen (server_iteration K) (\<lambda>_. server_turns K n)"
  by (simp_all add: server_turns_def ret_def)

lemma server_turns_add:
  "server_turns K m s = Done () t \<Longrightarrow> server_turns K (m + n) s = server_turns K n t"
  by (simp add: server_turns_def replicate_add forEach_append andThen_def)

lemma turns:
  assumes "delivery K i fd key qs L s0 b0 ok k s" "k \<le> Suc (length qs)" "fd \<noteq> - 1"
    "all_ready K (listen_fd (server_socket s))" "\<forall>j. heap s j \<noteq> None \<longrightarrow> j \<in> L"
  shows "\<exists>t. server_turns K n s = Done () t \<and> delivery K i fd key qs L s0 b0 ok (min (k + n) (Suc (length qs))) t \<and>
    server_socket t = server_socket s \<and> (\<forall>j. heap t j \<noteq> None \<longrightarrow> j \<in> L) \<and>
    (k = Suc (length qs) \<longrightarrow> (\<forall>j. remaining (length (b0 @ concat qs)) j t \<le> remaining (length (b0 @ concat qs)) j s - n))"
  using assms
proof (induction n arbitrary: k s)
  case 0
  then show ?case by (simp add: server_turns_simps min_absorb1)
next
  case (Suc n)
  let ?k = "min (Suc k) (Suc (length qs))" let ?left = "remaining (length (b0 @ concat qs))"
  obtain u where u: "server_iteration K s = Done () u" "delivery K i fd key qs L s0 b0 ok ?k u"
    "server_socket u = server_socket s" "\<forall>j. heap u j \<noteq> None \<longrightarrow> j \<in> L"
    "k = Suc (length qs) \<longrightarrow> (\<forall>j. ?left j u \<le> ?left j s - 1)"
    using turn [OF Suc.prems] by blast
  have "?k \<le> Suc (length qs)" "all_ready K (listen_fd (server_socket u))" using Suc.prems(4) u(3) by simp_all
  then obtain t where t: "server_turns K n u = Done () t" "delivery K i fd key qs L s0 b0 ok (min (?k + n) (Suc (length qs))) t"
    "server_socket t = server_socket u" "\<forall>j. heap t j \<noteq> None \<longrightarrow> j \<in> L"
    "?k = Suc (length qs) \<longrightarrow> (\<forall>j. ?left j t \<le> ?left j u - n)"
    using Suc.IH [OF u(2) _ Suc.prems(3) _ u(4)] by blast
  have "min (?k + n) (Suc (length qs)) = min (k + Suc n) (Suc (length qs))" by simp
  moreover have "?left j t \<le> ?left j s - Suc n" if "k = Suc (length qs)" for j
    using u(5) t(5) that by (auto dest!: spec [of _ j])
  ultimately show ?case
    using u(1,3) t(1-4) by (intro exI [of _ t]) (simp add: server_turns_simps andThen_def)
qed

text \<open>After one turn for each chunk and one for the end, and one for each byte and one more, nobody is left.\<close>

lemma turns_finish:
  assumes d: "delivery K i fd key qs L s0 b0 ok 0 s" and fd: "fd \<noteq> - 1"
    and ready: "all_ready K (listen_fd (server_socket s))" and only: "\<forall>j. heap s j \<noteq> None \<longrightarrow> j \<in> L"
  shows "\<exists>t. server_turns K (Suc (length qs) + Suc (length (b0 @ concat qs))) s = Done () t \<and>
    delivery K i fd key qs L s0 b0 ok (Suc (length qs)) t \<and> (\<forall>j. heap t j = None)"
proof -
  obtain u where u: "server_turns K (Suc (length qs)) s = Done () u" "delivery K i fd key qs L s0 b0 ok (Suc (length qs)) u"
    "server_socket u = server_socket s" "\<forall>j. heap u j \<noteq> None \<longrightarrow> j \<in> L"
    using turns [OF d _ fd ready only, of "Suc (length qs)"] by auto
  have ready': "all_ready K (listen_fd (server_socket u))" using ready u(3) by simp
  let ?n = "Suc (length (b0 @ concat qs))"
  obtain t where t: "server_turns K ?n u = Done () t" "delivery K i fd key qs L s0 b0 ok (min (Suc (length qs) + ?n) (Suc (length qs))) t"
    "\<forall>j. heap t j \<noteq> None \<longrightarrow> j \<in> L"
    "\<forall>j. remaining (length (b0 @ concat qs)) j t \<le> remaining (length (b0 @ concat qs)) j u - ?n"
    using turns [OF u(2) order_refl fd ready' u(4), of ?n] by blast
  have "heap t j = None" for j
  proof (cases "j \<in> L")
    case True
    then have "remaining (length (b0 @ concat qs)) j t = 0"
      using t(4) [rule_format, of j] delivery_bound [OF u(2) True] by simp
    then show ?thesis by (simp add: remaining_def split: option.splits)
  next
    case False
    then show ?thesis using t(3) by blast
  qed
  moreover have "min (Suc (length qs) + ?n) (Suc (length qs)) = Suc (length qs)" by simp
  moreover have "server_turns K (Suc (length qs) + ?n) s = Done () t" using t(1) server_turns_add [OF u(1), of ?n] by simp
  ultimately show ?thesis
    using t(2) by (intro exI [of _ t]) simp
qed

section \<open>The turn that brings the status\<close>

lemma fd_valid: "safe s \<Longrightarrow> heap s i = Some c \<Longrightarrow> server_connection c = Some fd \<Longrightarrow> fd \<noteq> - 1"
proof -
  assume a: "safe s" "heap s i = Some c" "server_connection c = Some fd"
  then have "fd \<in> set (fds_of c)" by (simp add: fds_of_def)
  then have "fd \<in> owned s" using a(2) by (auto simp: owned_def)
  then show "fd \<noteq> - 1" using a(1) by (auto simp: server_inv_def fds_ok_def INVALID_SOCKET_FD_def)
qed

lemma concat_single: "distinct l \<Longrightarrow> i \<in> set l \<Longrightarrow> concat (map (\<lambda>j. if j = i then [x] else []) l) = [x]"
proof (induction l)
  case (Cons j l)
  have "i \<notin> set l \<Longrightarrow> concat (map (\<lambda>j. if j = i then [x] else []) l) = []" by (induction l) auto
  with Cons show ?case by auto
qed simp

lemma status_turn:
  assumes K: "kernel_safe K" and safe: "safe s"
    and c: "heap s i = Some c" "state c = waiting_response_status_code" "server_connection c = Some fd"
    and l: "request_clients_map s (request_str c) = Some l" "i \<in> set l" and new: "lookup (the_cache s) (request_str c) = None"
    and recv: "sends K fd (trace s) (q # qs)" "begins i l q s"
    and clients: "\<forall>j d. heap s j = Some d \<longrightarrow> j \<in> set l \<and> (j \<noteq> i \<longrightarrow> state d = waiting_for_response_for_another_client) \<and>
      unserved d \<and> accepts_data K (client_connection d)"
    and ready: "all_ready K (listen_fd (server_socket s))"
  shows "\<exists>v ok. server_iteration K s = Done () v \<and> delivery K i fd (request_str c) qs (set l) v q ok 0 v \<and>
    (\<forall>j. map_option client_connection (heap v j) = map_option client_connection (heap s j)) \<and>
    (\<forall>fd. delivered fd (trace v) = delivered fd (trace s)) \<and> server_socket v = server_socket s \<and>
    (ok \<and> length (concat qs) \<le> cache_room (the_cache v) \<longleftrightarrow> status_200 q \<and> length (concat (q # qs)) \<le> cache_room (the_cache s))"
proof -
  let ?p = "\<lparr>pfd_fd = fd, pfd_events = POLLIN, pfd_revents = 0\<rparr>" let ?asked = "\<lambda>j. if j = i then [?p] else []"
  have asked: "\<exists>d. heap s j = Some d \<and> client_pollfds d s = Done (?asked j) s" if j: "j \<in> set (live s)" for j
  proof -
    obtain d where d: "heap s j = Some d" using j live_set [OF safe] by auto
    then show ?thesis
      using clients c fd_valid [OF safe c(1,3)]
      by (cases "j = i") (auto simp: client_pollfds_def Let_def assertThat_def andThen_def ret_def)
  qed
  have "distinct (live s)" "i \<in> set (live s)" using live_distinct [OF safe] live_set [OF safe] c(1) by auto
  then have one: "concat (map ?asked (live s)) = [?p]" by (rule concat_single)
  have fd: "fd \<in> set (fds_of c)" using c(3) by (simp add: fds_of_def)
  then have "fd \<in> owned s" using c(1) by (auto simp: owned_def)
  then have "listen_fd (server_socket s) \<noteq> fd" using safe by (auto simp: server_inv_def fds_ok_def)
  then obtain ev where ev: "\<forall>fd. receipts fd [ev] = 0 \<and> delivered fd [ev] = []"
    "server_poll K s = Done (reported [?p]) (s\<lparr>trace := trace s @ [ev]\<rparr>)"
    using poll_run [OF K ready asked] by (auto simp: one poll_defs)
  let ?u = "s\<lparr>trace := trace s @ [ev]\<rparr>"
  have su: "safe ?u" using hoareD [OF poll_preserves, of s K] safe ev(2) by (simp add: wp_def)
  have cu: "heap ?u i = Some c" "request_clients_map ?u (request_str c) = Some l" "lookup (the_cache ?u) (request_str c) = None"
    "begins i l q ?u" "\<forall>j \<in> set l. \<forall>d. heap ?u j = Some d \<longrightarrow> unserved d \<and> accepts_data K (client_connection d)"
    using c(1) l(1) new recv(2) clients by (simp_all add: begins_def)
  have send: "sends K fd (trace ?u) (q # qs)" using sends_later [OF recv(1), of "[ev]"] ev(1) by simp
  obtain t ok where t: "handleClientSocketEvents K i POLLIN ?u = Done () t" "delivery K i fd (request_str c) qs (set l) t q ok 0 t"
    "\<forall>j. map_option client_connection (heap t j) = map_option client_connection (heap ?u j)" "same_clients ?u t"
    "\<forall>fd. delivered fd (trace t) = delivered fd (trace ?u)"
    "ok \<and> length (concat qs) \<le> cache_room (the_cache t) \<longleftrightarrow> status_200 q \<and> length (concat (q # qs)) \<le> cache_room (the_cache ?u)"
    using delivery_start [OF K su cu(1) c(2,3) cu(2) l(2) cu(3) send cu(4,5)] by blast
  have "handle_pollfd K (?p\<lparr>pfd_revents := POLLIN\<rparr>) ?u = Done () t"
    using dispatch [OF su cu(1), of "?p\<lparr>pfd_revents := POLLIN\<rparr>" K] fd(1) t(1) by simp
  moreover have "delivered fd' (trace t) = delivered fd' (trace s)" for fd'
    using ev(1) t(5) by (simp add: delivered_append)
  ultimately show ?thesis
    using ev(2) t(2,3,4,6)
    by (intro exI [of _ t] exI [of _ ok]) (simp add: server_iteration_def reported_def andThen_def ret_def same_clients_def)
qed

end
