(* ===== verification/Server_Triples.thy ===== *)
theory Server_Triples
  imports Server_Handlers
begin

text \<open>
  Triples for what holds of the clients however an event goes: partial correctness, so that loops,
  aborts and undefined behaviour need no argument here. An assertion that does not look at the
  history of system calls is kept by everything that only talks to the operating system.
\<close>

section \<open>Triples\<close>

definition sound :: "('s \<Rightarrow> bool) \<Rightarrow> ('a, 's) act \<Rightarrow> ('a \<Rightarrow> 's \<Rightarrow> bool) \<Rightarrow> ('s \<Rightarrow> bool) \<Rightarrow> bool" where
  "sound P m Q X \<longleftrightarrow> (\<forall>s. P s \<longrightarrow> (case m s of Done a t \<Rightarrow> Q a t | Raise e t \<Rightarrow> X t | _ \<Rightarrow> True))"

abbreviation stays :: "('s \<Rightarrow> bool) \<Rightarrow> ('a, 's) act \<Rightarrow> bool" where
  "stays P m \<equiv> sound P m (\<lambda>_. P) P"

named_theorems quiet \<open>operations that keep what is said of the clients\<close>

lemma soundD: "sound P m Q X \<Longrightarrow> P s \<Longrightarrow> m s = Done a t \<Longrightarrow> Q a t"
  by (fastforce simp: sound_def)

lemma hoare_sound: "hoare P m Q X \<Longrightarrow> sound P m Q X"
  by (fastforce simp: sound_def hoare_def wp_def split: outcome.splits)

lemma sound_conseq:
  "sound P m Q X \<Longrightarrow> (\<And>s. P' s \<Longrightarrow> P s) \<Longrightarrow> (\<And>a s. Q a s \<Longrightarrow> Q' a s) \<Longrightarrow> (\<And>s. X s \<Longrightarrow> X' s) \<Longrightarrow> sound P' m Q' X'"
  by (fastforce simp: sound_def split: outcome.splits)

lemma sound_andThen:
  assumes "sound P m R X" "\<And>a. sound (R a) (f a) Q X"
  shows "sound P (andThen m f) Q X"
  unfolding sound_def
proof (intro allI impI)
  fix s assume "P s"
  then show "case andThen m f s of Done a t \<Rightarrow> Q a t | Raise e t \<Rightarrow> X t | _ \<Rightarrow> True"
    using assms(1) assms(2) [unfolded sound_def] by (cases "m s") (fastforce simp: sound_def andThen_def)+
qed

lemma sound_tryCatch:
  assumes "sound P m Q Y" "\<And>e. sound Y (h e) Q X" "\<And>s. Y s \<Longrightarrow> X s"
  shows "sound P (tryCatch p m h) Q X"
  unfolding sound_def
proof (intro allI impI)
  fix s assume "P s"
  then show "case tryCatch p m h s of Done a t \<Rightarrow> Q a t | Raise e t \<Rightarrow> X t | _ \<Rightarrow> True"
    using assms(1,3) assms(2) [unfolded sound_def] by (cases "m s") (fastforce simp: sound_def tryCatch_def)+
qed

lemma sound_if: "(b \<Longrightarrow> sound P m Q X) \<Longrightarrow> (\<not> b \<Longrightarrow> sound P n Q X) \<Longrightarrow> sound P (if b then m else n) Q X"
  by simp

lemma sound_option:
  "(\<And>x. sound P (f x) Q X) \<Longrightarrow> sound P n Q X \<Longrightarrow> sound P (case v of None \<Rightarrow> n | Some x \<Rightarrow> f x) Q X"
  by (simp split: option.split)

lemma stays_forEach: "(\<And>x. stays P (f x)) \<Longrightarrow> stays P (forEach xs f)"
proof (induction xs)
  case (Cons x xs)
  then show ?case by (simp add: sound_andThen [where R = "\<lambda>_. P"])
qed (simp add: sound_def ret_def)

lemmas stays_rules = sound_andThen [where R = "\<lambda>_. P" and X = P for P] sound_if sound_option stays_forEach
  sound_tryCatch [where Y = P and X = P for P]

lemma stays_simple [quiet]: "stays P (ret a)" "stays P (raise e)" "stays P undefined_behaviour"
  by (simp_all add: sound_def ret_def raise_def undefined_behaviour_def)

lemma stays_get [quiet]: "stays P (get g)"
  by (simp add: sound_def get_def)

lemma stays_assert [quiet]: "stays P (assertThat b)"
  by (simp add: sound_def assertThat_def call_abort_def ret_def)

lemma stays_heap [quiet]: "stays P (getC i f)" "stays P (slot_at fd)"
  by (auto simp: sound_def getC_def slot_at_def split: option.split)

lemma stays_onException:
  assumes "stays P m" "stays P c"
  shows "stays P (onException m c)"
  unfolding onException_def by (intro stays_rules quiet assms)

text \<open>Reading the client vector and the lists.\<close>

lemma list_quiet [quiet]:
  "stays P (client_eq j k)" "stays P (remove_if_client j l)"
  "stays P (find_reading l)"
proof -
  show eq: "stays P (client_eq j k)" for k
    unfolding client_eq_def by (intro stays_rules quiet)
  show "stays P (remove_if_client j l)"
    by (induction l) (auto intro!: stays_rules quiet eq)
  show "stays P (find_reading l)"
    by (induction l) (auto intro!: stays_rules quiet)
qed

lemma url_quiet [quiet]: "stays P (httpPort p)" "stays P (hostname p)"
  unfolding httpPort_def hostname_def scheme_def by (intro stays_rules quiet)+

lemma status_code_quiet [quiet]: "stays P (status_code chunk)"
  by (simp add: status_code_def quiet split: sum.split)

lemma server_conn_quiet [quiet]: "stays P (server_conn j)"
  unfolding server_conn_def by (intro stays_rules quiet)

section \<open>Assertions that do not see the history\<close>

locale ignores_trace =
  fixes P :: "server \<Rightarrow> bool"
  assumes trace_update: "P s \<Longrightarrow> P (s\<lparr>trace := tr\<rparr>)"
begin

lemma log_quiet [quiet]: "stays P (log_event e)"
  by (simp add: log_event_def sound_def modify_def trace_update)

lemma socket_quiet [quiet]:
  "stays P (tcp_socket K d t p)" "stays P (socket_destroy fd)"
  "stays P (send_bytes K fd bs)" "stays P (receive K fd len)"
  "stays P (shutdownWrite K fd)" "stays P (socket_connect K fd addr)"
  "stays P (getaddrinfo K host service)" "stays P (socket_accept K ps)"
  unfolding tcp_socket_def socket_destroy_def send_bytes_def receive_def shutdownWrite_def socket_connect_def
    getaddrinfo_def socket_accept_def
  by (intro stays_rules quiet)+

lemma connect_quiet [quiet]:
  "stays P (try_addresses K ps)" "stays P (connectToHost K host service)"
proof -
  show "stays P (try_addresses K ps)" for ps
    by (induction ps) (auto simp: active_create_def intro!: stays_rules stays_onException quiet)
  then show "stays P (connectToHost K host service)"
    unfolding connectToHost_def by (intro stays_rules quiet)
qed

lemma destroy_opt_quiet [quiet]: "stays P (destroy_opt co)"
  unfolding destroy_opt_def by (intro stays_rules quiet)

lemma read_quiet [quiet]: "stays P (readHttpRequest K fd)"
proof -
  have "hoare P (read_loop K fd w mem) (\<lambda>_. P) P" for w mem
    by (rule hoareI, rule read_loop_any) (simp_all add: trace_update)
  from hoare_sound [OF this] show ?thesis
    unfolding readHttpRequest_def by (intro stays_rules quiet)
qed

lemma chunk_quiet [quiet]: "stays P (readResponseChunk K j)"
  unfolding readResponseChunk_def by (intro stays_rules quiet)

end

end
