(* ===== verification/Server_Phases.thy ===== *)
theory Server_Phases
  imports Server_Triples
begin

text \<open>
  The life of a client. Whatever happens on whichever connection, a client never goes back to an
  earlier phase of its exchange: its request is read once, a connection to the origin asks once,
  and once a response has begun nothing but responses follow.
\<close>

section \<open>Phases\<close>

fun phase :: "client_state \<Rightarrow> nat" where
  "phase waiting_for_request = 0"
| "phase waiting_for_response_for_another_client = 1"
| "phase sending_request = 2"
| "phase waiting_response_status_code = 3"
| "phase waiting_response = 4"
| "phase got_response = 4"
| "phase getting_response_from_another_client = 4"

lemma phase_le: "phase st \<le> 4"
  by (cases st) simp_all

text \<open>The phases order the states; the three in which a response is received are on a level.\<close>

instantiation client_state :: preorder
begin

definition less_eq_client_state :: "client_state \<Rightarrow> client_state \<Rightarrow> bool" where
  "st \<le> st' \<longleftrightarrow> phase st \<le> phase st'"

definition less_client_state :: "client_state \<Rightarrow> client_state \<Rightarrow> bool" where
  "st < st' \<longleftrightarrow> phase st < phase st'"

instance
  by standard (auto simp: less_eq_client_state_def less_client_state_def)

end

text \<open>Every client of \<open>h\<close> that is still there is at least where it was.\<close>

definition ahead :: "(client_id \<rightharpoonup> client) \<Rightarrow> server \<Rightarrow> bool" where
  "ahead h s \<longleftrightarrow> (\<forall>j c. h j = Some c \<longrightarrow> j < next_client s \<and>
     (\<forall>d. heap s j = Some d \<longrightarrow> state c \<le> state d))"

definition at_most :: "client_id \<Rightarrow> nat \<Rightarrow> server \<Rightarrow> bool" where
  "at_most i n s \<longleftrightarrow> (\<forall>d. heap s i = Some d \<longrightarrow> phase (state d) \<le> n)"

definition advanced :: "(client_id \<rightharpoonup> client) \<Rightarrow> client_id \<Rightarrow> nat \<Rightarrow> server \<Rightarrow> bool" where
  "advanced h i n s \<longleftrightarrow> ahead h s \<and> at_most i n s"

lemma advanced_weaken: "advanced h i n s \<Longrightarrow> n \<le> m \<Longrightarrow> advanced h i m s"
  by (fastforce simp: advanced_def at_most_def)

lemma advanced_ahead: "advanced h i n s \<Longrightarrow> ahead h s"
  by (simp add: advanced_def)

lemma ahead_advanced: "ahead h = advanced h i 4"
  using phase_le by (auto simp: advanced_def at_most_def fun_eq_iff)

section \<open>Operations that change no phase\<close>

text \<open>What touches neither the clients nor their number.\<close>

definition blind :: "(server \<Rightarrow> server) \<Rightarrow> bool" where
  "blind f \<longleftrightarrow> (\<forall>s. heap (f s) = heap s \<and> next_client (f s) = next_client s)"

lemma advanced_blind: "advanced h i n s \<Longrightarrow> heap t = heap s \<Longrightarrow> next_client t = next_client s \<Longrightarrow> advanced h i n t"
  by (simp add: advanced_def ahead_def at_most_def)

lemma modify_quiet: "blind f \<Longrightarrow> stays (advanced h i n) (modify f)"
  by (auto simp: sound_def modify_def blind_def intro: advanced_blind)

interpretation advanced: ignores_trace "advanced h i n" for h i n
  by unfold_locales (simp add: advanced_def ahead_def at_most_def)

lemma setC_quiet:
  assumes "\<And>c. state (f c) = state c"
  shows "stays (advanced h i n) (setC j f)"
  using assms by (fastforce simp: sound_def setC_def advanced_def ahead_def at_most_def split: option.split)

lemma forget_quiet [quiet]: "stays (advanced h i n) (modify (\<lambda>s. s\<lparr>heap := (heap s)(j := None)\<rparr>))"
  by (auto simp: sound_def modify_def advanced_def ahead_def at_most_def)

lemma cache_quiet [quiet]: "stays (advanced h i n) (onCache m)"
  by (auto simp: sound_def onCache_def zoom_def advanced_def ahead_def at_most_def split: outcome.split)

lemma map_quiet [quiet]: "stays (advanced h i n) (map_at key)" "stays (advanced h i n) (map_set key l)"
  by (auto simp: sound_def map_at_def map_set_def modify_def advanced_def ahead_def at_most_def split: option.split)

lemma getHttpRequest_quiet [quiet]: "stays (advanced h i n) (getHttpRequest K j)"
  unfolding getHttpRequest_def
  by (intro stays_rules quiet setC_quiet hoare_sound [OF http_request_new_keeps] hoare_sound [OF toString_keeps]) simp_all

lemma requests_quiet [quiet]:
  "stays (advanced h i n) (removeFromRequestClients j)" "stays (advanced h i n) (addToRequestClients j)"
  unfolding removeFromRequestClients_def addToRequestClients_def by (intro stays_rules quiet)+

lemma send_quiet [quiet]:
  "stays (advanced h i n) (sendToClient K j bs)" "stays (advanced h i n) (sendToClientFromChunks K j)"
proof -
  show send: "stays (advanced h i n) (sendToClient K j bs)" for bs
    unfolding sendToClient_def by (intro stays_rules quiet setC_quiet) simp_all
  show "stays (advanced h i n) (sendToClientFromChunks K j)"
    unfolding sendToClientFromChunks_def
    by (intro stays_rules quiet, split list.split) (auto intro!: stays_rules quiet send setC_quiet)
qed

lemma buffer_quiet [quiet]: "stays (advanced h i n) (writeResponseChunkToClientBuffer j chunk)"
  unfolding writeResponseChunkToClientBuffer_def by (rule setC_quiet) simp

lemma destroy_quiet [quiet]:
  "stays (advanced h i n) (client_destroy j)" "stays (advanced h i n) (assign_slot fd new)"
  "stays (advanced h i n) (clients_discardClient j)"
proof -
  show destroy: "stays (advanced h i n) (client_destroy j)" for j
    unfolding client_destroy_def by (intro stays_rules quiet)
  show assign: "stays (advanced h i n) (assign_slot fd new)" for fd new
    unfolding assign_slot_def by (intro stays_rules quiet destroy modify_quiet) (simp add: blind_def)
  show "stays (advanced h i n) (clients_discardClient j)"
    unfolding clients_discardClient_def by (intro stays_rules quiet assign)
qed

section \<open>Operations that move a client on\<close>

text \<open>Into a phase that is no earlier than any the client can be in.\<close>

lemma setC_moves:
  assumes later: "\<And>c. n \<le> phase (state (f c))"
  shows "sound (advanced h i n) (setC i f) (\<lambda>_. ahead h) (ahead h)"
proof -
  have "ahead h (s\<lparr>heap := (heap s)(i \<mapsto> f d)\<rparr>)" if s: "advanced h i n s" and d: "heap s i = Some d" for s d
  proof -
    have "phase (state c) \<le> phase (state (f d))" if "h i = Some c" for c
      using s d that later [of d] unfolding advanced_def ahead_def at_most_def less_eq_client_state_def by (meson le_trans)
    then show ?thesis using s by (auto simp: advanced_def ahead_def less_eq_client_state_def)
  qed
  then show ?thesis by (auto simp: sound_def setC_def split: option.split)
qed

lemma ahead_once: "stays (advanced h 0 4) m \<Longrightarrow> stays (ahead h) m"
  by (simp add: ahead_advanced [of h 0])

lemma setC_forward:
  assumes "\<And>c. state (f c) = state c \<or> phase (state (f c)) = 4"
  shows "stays (ahead h) (setC i f)"
proof -
  have "ahead h (s\<lparr>heap := (heap s)(i \<mapsto> f d)\<rparr>)" if "ahead h s" "heap s i = Some d" for s d
    using that assms [of d] phase_le by (auto simp: ahead_def less_eq_client_state_def)
  then show ?thesis by (auto simp: sound_def setC_def split: option.split)
qed

lemmas quiet_ahead = quiet [THEN ahead_once]

text \<open>Steps before the move leave the client where it is.\<close>

lemma before_move:
  assumes "stays (advanced h i n) m" "\<And>a. sound (advanced h i n) (f a) Q (ahead h)"
  shows "sound (advanced h i n) (andThen m f) Q (ahead h)"
  by (rule sound_andThen [OF _ assms(2)], rule sound_conseq [OF assms(1)]) (simp_all add: advanced_ahead)

lemma prepare_moves: "sound (advanced h i 2) (prepareForSendingRequest K i) (\<lambda>_. ahead h) (ahead h)"
  unfolding prepareForSendingRequest_def by (intro before_move quiet setC_quiet setC_moves) simp_all

text \<open>What a handler learns by looking at the client's state.\<close>

lemma look_at_state:
  assumes "\<And>st. sound (advanced h i (phase st)) (f st) Q X"
  shows "sound (ahead h) (andThen (getC i state) f) Q X"
proof (rule sound_andThen)
  show "sound (ahead h) (getC i state) (\<lambda>st. advanced h i (phase st)) X"
    by (auto simp: sound_def getC_def advanced_def at_most_def split: option.split)
qed (rule assms)

lemma from_ahead: "stays (ahead h) m \<Longrightarrow> sound (advanced h i n) m (\<lambda>_. ahead h) (ahead h)"
  by (rule sound_conseq [where P = "ahead h"]) (simp_all add: advanced_ahead)

lemma prepare_early: "n \<le> 2 \<Longrightarrow> sound (advanced h i n) (prepareForSendingRequest K i) (\<lambda>_. ahead h) (ahead h)"
  by (rule sound_conseq [OF prepare_moves]) (auto intro: advanced_weaken)

named_theorems forward \<open>operations that move clients on\<close>

lemma prepareAll_forward [forward]: "stays (ahead h) (prepareAllWaitingClientsForSending K key)"
proof -
  have one: "stays (ahead h) (andThen (getC j state) (\<lambda>st.
      if st = waiting_for_response_for_another_client then prepareForSendingRequest K j else ret ()))" for j
    by (intro look_at_state sound_if prepare_early from_ahead quiet) simp
  show ?thesis
    unfolding prepareAllWaitingClientsForSending_def
    by (rule sound_andThen [where R = "\<lambda>_. ahead h"]) (intro quiet_ahead stays_forEach one)+
qed

lemma obtain_forward [forward]: "stays (ahead h) (obtainServerConnection j k)"
  unfolding obtainServerConnection_def by (intro stays_rules quiet_ahead setC_forward) simp_all

lemma setClient_forward [forward]: "stays (ahead h) (setClientToGetResponseFromCache j)"
  unfolding setClientToGetResponseFromCache_def by (intro stays_rules quiet_ahead setC_forward) simp_all

lemma discard_forward [forward]: "stays (ahead h) (discardClient K j)"
  unfolding discardClient_def by (intro stays_rules quiet_ahead forward)

lemma write_forward [forward]: "stays (ahead h) (writeResponseChunkToCache K j chunk)"
proof -
  have "stays (ahead h) (fallback_one K chunk k)" for k
    unfolding fallback_one_def by (intro stays_rules quiet_ahead setC_forward) simp_all
  then have "stays (ahead h) (fallbackToClientBuffer K j chunk)"
    unfolding fallbackToClientBuffer_def by (intro stays_rules quiet_ahead setC_forward) simp_all
  then show ?thesis
    unfolding writeResponseChunkToCache_def by (intro stays_rules quiet_ahead)
qed

section \<open>The handlers\<close>

lemma readRequest_moves:
  "sound (advanced h i 0) (readRequestFromClient K i) (\<lambda>_. ahead h) (ahead h)"
proof -
  have wait: "sound (advanced h i 0) (setC i (\<lambda>c. c\<lparr>state := waiting_for_response_for_another_client\<rparr>)) (\<lambda>_. ahead h) (ahead h)"
    by (rule setC_moves) simp
  have start: "sound (advanced h i 0) (if b then setClientToGetResponseFromCache i
      else if b' then setC i (\<lambda>c. c\<lparr>state := waiting_for_response_for_another_client\<rparr>)
      else prepareForSendingRequest K i) (\<lambda>_. ahead h) (ahead h)" for b b'
    by (intro sound_if wait prepare_early from_ahead forward) simp
  show ?thesis
    unfolding readRequestFromClient_def
    by (intro sound_tryCatch [where Y = "ahead h"] before_move quiet sound_andThen [OF start] quiet_ahead forward)
qed

lemma sendRequest_moves:
  "sound (advanced h i 2) (sendRequestToServer K i) (\<lambda>_. ahead h) (ahead h)"
  unfolding sendRequestToServer_def send_string_def
  by (intro sound_tryCatch [where Y = "ahead h"] before_move quiet setC_moves forward) simp_all

lemma readStatus_forward [forward]: "stays (ahead h) (readResponseStatusCodeFromServer K i)"
  unfolding readResponseStatusCodeFromServer_def
  by (intro stays_rules quiet_ahead setC_forward forward) simp_all

lemma readResponse_forward [forward]: "stays (ahead h) (readResponseFromServer K i)"
  unfolding readResponseFromServer_def finish_response_def
  by (intro stays_rules quiet_ahead setC_forward forward) simp_all

lemma sendResponse_forward [forward]: "stays (ahead h) (sendResponseToClient K i)"
  unfolding sendResponseToClient_def sendCachedResponseToClient_def sendUncachedResponseToClient_def
  by (intro stays_rules quiet_ahead forward)

lemma sending_forward [forward]: "stays (ahead h) (handle_sending K i revents)"
  unfolding handle_sending_def by (intro stays_rules quiet_ahead forward)

lemma handle_state_moves: "sound (advanced h i (phase st)) (handle_state K i revents st) (\<lambda>_. ahead h) (ahead h)"
proof (cases st)
  case waiting_for_request
  then show ?thesis using readRequest_moves by (simp add: handle_state_def)
next
  case sending_request
  then show ?thesis using sendRequest_moves by (auto simp: handle_state_def intro: from_ahead forward)
qed (simp_all only: handle_state_def client_state.case, (intro from_ahead stays_rules quiet_ahead forward)+)

lemma handleClient_forward [forward]: "stays (ahead h) (handleClientSocketEvents K i revents)"
  unfolding handleClientSocketEvents_def
  by (intro stays_rules look_at_state handle_state_moves quiet_ahead forward)

text \<open>A new client takes the place of none, so accepting one disturbs nobody.\<close>

lemma accept_forward [forward]: "stays (ahead h) (server_acceptClient K)"
proof -
  have "stays (ahead h) (clients_acceptClient fd)" for fd
  proof -
    let ?new = "\<lambda>i s. s\<lparr>heap := (heap s)(i \<mapsto> client_create fd), next_client := Suc i\<rparr>"
    let ?create = "andThen (get next_client) (\<lambda>i. andThen (modify (?new i)) (\<lambda>_. ret i)) :: (client_id, server) act"
    have new: "sound (ahead h) ?create (\<lambda>_. ahead h) (ahead h)"
      by (fastforce simp: sound_def andThen_def get_def modify_def ret_def ahead_def)
    have "clients_acceptClient fd = andThen ?create (\<lambda>i. assign_slot fd (Some i))"
      by (simp add: fun_eq_iff clients_acceptClient_def andThen_def get_def modify_def ret_def)
    then show ?thesis by (simp only:) (rule sound_andThen [OF new], intro quiet_ahead)
  qed
  then show ?thesis
    unfolding server_acceptClient_def by (intro stays_rules quiet_ahead)
qed

lemma handle_pollfd_forward [forward]: "stays (ahead h) (handle_pollfd K pfd)"
proof -
  have find: "stays (ahead h) (find_client fd l)" for fd l
    by (induction fd l rule: find_client.induct) (auto intro!: stays_rules quiet_ahead)
  have "stays (ahead h) (getClient fd)" for fd
    unfolding getClient_def by (intro stays_rules quiet_ahead find)
  then show ?thesis
    unfolding handle_pollfd_def handleServerSocketEvents_def by (intro stays_rules quiet_ahead forward)
qed

text \<open>A turn of the loop, and any number of them from a consistent state.\<close>

lemma iteration_forward: "stays (ahead h) (server_iteration K)"
proof -
  have pollfds: "stays (ahead h) (client_pollfds c)" for c
    by (cases "state c") (auto simp: client_pollfds_def Let_def intro!: stays_rules quiet_ahead)
  have "stays (ahead h) (collect_pollfds l)" for l
    by (induction l rule: collect_pollfds.induct) (auto intro!: stays_rules quiet_ahead pollfds)
  then show ?thesis
    unfolding server_iteration_def server_poll_def server_getPollfds_def clients_getPollfds_def split_def
    by (intro stays_rules quiet_ahead forward)
qed

lemma safe_ahead: "safe s \<Longrightarrow> ahead (heap s) s"
  unfolding server_inv_def owners_ok_def ahead_def by fastforce

definition turn :: "kernel \<Rightarrow> server \<Rightarrow> server \<Rightarrow> bool" where
  "turn K s t \<longleftrightarrow> server_iteration K s = Done () t"

lemma turns_forward: "rtranclp (turn K) s t \<Longrightarrow> ahead h s \<Longrightarrow> ahead h t"
  by (induction rule: rtranclp_induct) (auto simp: turn_def dest: soundD [OF iteration_forward])

end
