(* ===== verification/Server_Miss.thy ===== *)
theory Server_Miss
  imports Server_Fetch
begin

text \<open>
  A request that nobody has made before: the proxy connects to the host the URL names, sends the
  request, and the response goes through the cache to the client. The last lemma is the whole
  way of one client, from its request to the close of its connection.
\<close>

section \<open>Connecting\<close>

text \<open>
  What the attempts to connect to a list of addresses record, and the descriptor they end with:
  in order, a failed attempt closing its socket before the next.
\<close>

fun attempts :: "kernel \<Rightarrow> addrinfo list \<Rightarrow> history \<Rightarrow> history \<times> fd option" where
  "attempts K [] tr = (tr, None)"
| "attempts K (p # ps) tr =
     (let fd = k_socket K tr (ai_family p) (ai_socktype p) (ai_protocol p); tr1 = tr @ [Ev_socket fd];
          ok = k_connect K tr1 fd (ai_addr p); tr2 = tr1 @ [Ev_connect fd (ai_addr p) ok]
      in if \<not> socket_isValid fd then attempts K ps tr1
         else if ok then (tr2, Some fd) else attempts K ps (tr2 @ [Ev_close fd]))"

lemma try_addresses_attempts:
  "try_addresses K ps s = (case attempts K ps (trace s) of (tr, res) \<Rightarrow> Done res (s\<lparr>trace := tr\<rparr>))"
  by (induction ps arbitrary: s)
    (auto simp: active_create_def tcp_socket_def socket_connect_def onException_def socket_destroy_def socket_isValid_def
      tryCatch_def andThen_def get_def log_event_def modify_def ret_def raise_def Let_def)

lemma attempts_valid: "attempts K ps tr = (tr', Some fd) \<Longrightarrow> socket_isValid fd"
  by (induction ps arbitrary: tr) (auto simp: Let_def split: if_splits)

lemma attempts_quiet:
  "attempts K ps tr = (tr', res) \<Longrightarrow> \<exists>es. tr' = tr @ es \<and> (\<forall>fd. delivered fd es = [])"
proof (induction ps arbitrary: tr)
  case (Cons p ps)
  let ?fd = "k_socket K tr (ai_family p) (ai_socktype p) (ai_protocol p)"
  let ?c = "Ev_connect ?fd (ai_addr p)"
  have step: "\<exists>es. tr' = tr @ es \<and> (\<forall>fd. delivered fd es = [])"
    if run: "attempts K ps (tr @ es1) = (tr', res)" and quiet: "\<forall>fd. delivered fd es1 = []" for es1
  proof -
    obtain es where "tr' = (tr @ es1) @ es" "\<forall>fd. delivered fd es = []" using Cons.IH [OF run] by blast
    with quiet show ?thesis by (intro exI [of _ "es1 @ es"]) simp
  qed
  consider (none) "attempts K ps (tr @ [Ev_socket ?fd]) = (tr', res)"
    | (ok) "tr' = tr @ [Ev_socket ?fd, ?c True]"
    | (fail) "attempts K ps (tr @ [Ev_socket ?fd, ?c False, Ev_close ?fd]) = (tr', res)"
    using Cons.prems by (auto simp: Let_def split: if_splits)
  then show ?case
  proof cases
    case ok
    then show ?thesis by (intro exI [of _ "[Ev_socket ?fd, ?c True]"]) (simp add: delivered_def)
  qed (use step [of "[Ev_socket ?fd]"] step [of "[Ev_socket ?fd, ?c False, Ev_close ?fd]"] in \<open>simp_all add: delivered_def\<close>)
qed (simp add: exI [of _ "[]"] delivered_def)

lemma connectToHost_run:
  assumes "\<not> has_null host" "\<not> has_null service" "k_getaddrinfo K (trace s) (Some host) service = Some infos"
    "attempts K infos (trace s @ [Ev_getaddrinfo (Some host) service (Some infos)]) = (tr, Some fd)"
  shows "connectToHost K host service s = Done fd (s\<lparr>trace := tr\<rparr>)"
  using assms attempts_valid [OF assms(4)]
  by (simp add: connectToHost_def getaddrinfo_def try_addresses_attempts andThen_def get_def log_event_def modify_def ret_def
      c_str_no_null)

lemma host_no_null: "\<forall>c \<in> set bs. host_char c \<Longrightarrow> \<not> has_null bs"
  by (auto simp: has_null_def host_char_def isUnreserved_def ctype_defs)

lemma number_no_null: "\<not> has_null (show_nat n)"
  using show_nat_digits [of n] by (auto simp: has_null_def ctype_defs)

text \<open>The forwarded request has no null byte, so all of it is sent.\<close>

lemma no_null_parts [simp]:
  "has_null (bs @ bs') \<longleftrightarrow> has_null bs \<or> has_null bs'" "has_null (c # bs) \<longleftrightarrow> c = CHR 0x00 \<or> has_null bs" "\<not> has_null []"
  "has_null (concat bss) \<longleftrightarrow> (\<exists>bs \<in> set bss. has_null bs)"
  by (auto simp: has_null_def)

lemma header_no_null: "header_ok h \<Longrightarrow> \<not> has_null (inspect_header h)"
  by (auto simp: header_ok_def inspect_header_def list_all_iff has_null_def CRLF_def value_char_def isToken_def isControl_code
      char_code_def)

lemma forwarded_no_null:
  assumes "request_parts_ok m (render_url sch host po pa qu fr) ma mi hs"
  shows "\<not> has_null (render_request m (CHR ''/'' # pa) ma mi (map header_of (keep_headers hs [])) @ CRLF)"
proof -
  have null: "isControl (CHR 0x00)" by (simp add: isControl_code char_code_def)
  have "\<not> has_null m"
    using assms null by (auto simp: request_parts_ok_def list_all_iff isToken_def has_null_def)
  moreover have "\<not> has_null pa"
    using assms null by (cases sch) (auto simp: request_parts_ok_def uri_ok_def render_url_def has_null_def list_all_iff uri_char_def)
  moreover have "\<forall>kv \<in> set (keep_headers hs []). forwarded_header_ok kv"
    using assms by (intro keep_headers_ok) (simp_all add: request_parts_ok_def)
  then have "\<forall>kv \<in> set (keep_headers hs []). \<not> has_null (inspect_header (header_of kv))"
    using header_no_null by (auto simp: forwarded_header_ok_def)
  ultimately show ?thesis
    using number_no_null by (simp add: render_request_def CRLF_def)
qed

section \<open>The request\<close>

text \<open>The host and the service the proxy asks the resolver for.\<close>

definition service_of :: "string \<Rightarrow> string option \<Rightarrow> string" where
  "service_of sch po = (case po of
     None \<Rightarrow> if sch = ''https'' then ''443'' else ''80''
   | Some p \<Rightarrow> if p = [] then (if sch = ''https'' then ''443'' else ''80'') else show_nat (unat (word_of_int (atoi p) :: uint16)))"

lemma show_ports: "show_nat 443 = ''443''" "show_nat 80 = ''80''"
proof -
  have "digit_char 4 = CHR ''4''" "digit_char 3 = CHR ''3''" "digit_char 8 = CHR ''8''" "digit_char 0 = CHR ''0''"
    by code_simp+
  then show "show_nat 443 = ''443''" "show_nat 80 = ''80''"
    by (simp_all add: show_nat.simps [of 443] show_nat.simps [of 44] show_nat.simps [of 4] show_nat.simps [of 80] show_nat.simps [of 8])
qed

lemma port_of_url:
  assumes "isValid p" "the_url p = url_of sch host po pa qu fr"
  shows "\<exists>w. httpPort p s = Done w s \<and> show_nat (unat w) = service_of sch po"
  using assms by (auto simp: httpPort_valid isValid_def url_of_def service_of_def show_ports split: option.split)

text \<open>A request that is neither cached nor under way opens a connection of its own.\<close>

definition asks :: "client \<Rightarrow> fd \<Rightarrow> client" where
  "asks c fd = c\<lparr>server_connection := Some fd, state := sending_request\<rparr>"

lemma prepare_run:
  assumes c: "heap s i = Some c" "server_connection c = None"
    and url: "isValid (rq_url (request c))" "the_url (rq_url (request c)) = url_of sch host po pa qu fr" "\<forall>x \<in> set host. host_char x"
    and conn: "k_getaddrinfo K (trace s) (Some host) (service_of sch po) = Some infos"
      "attempts K infos (trace s @ [Ev_getaddrinfo (Some host) (service_of sch po) (Some infos)]) = (tr, Some fd)"
  shows "prepareForSendingRequest K i s = Done () (s\<lparr>trace := tr, heap := (heap s)(i \<mapsto> asks c fd)\<rparr>)"
proof -
  obtain w where w: "httpPort (rq_url (request c)) s = Done w s" "show_nat (unat w) = service_of sch po"
    using port_of_url [OF url(1,2), of s] by (elim exE conjE)
  have host: "hostname (rq_url (request c)) s = Done host s"
    using url(1,2) by (simp add: hostname_def andThen_def assertThat_def isValid_def ret_def url_of_def)
  have "connectToHost K host (service_of sch po) s = Done fd (s\<lparr>trace := tr\<rparr>)"
    using conn host_no_null [OF url(3)] number_no_null [of "unat w"] w(2) by (intro connectToHost_run) simp_all
  then show ?thesis
    using w host c by (simp add: prepareForSendingRequest_def andThen_def getC_def setC_def destroy_opt_def ret_def asks_def)
qed

lemma request_fetches:
  assumes get: "getHttpRequest K i s = Done () t" "heap t i = Some c" "server_connection c = None"
    and new: "cache_ok (the_cache t)" "lookup (the_cache t) (request_str c) = None" "\<not> hasClientsWithRequest (request_str c) t"
    and url: "isValid (rq_url (request c))" "the_url (rq_url (request c)) = url_of sch host po pa qu fr" "\<forall>x \<in> set host. host_char x"
    and conn: "k_getaddrinfo K (trace t) (Some host) (service_of sch po) = Some infos"
      "attempts K infos (trace t @ [Ev_getaddrinfo (Some host) (service_of sch po) (Some infos)]) = (tr, Some fd)"
  shows "readRequestFromClient K i s = Done () (t\<lparr>trace := tr, heap := (heap t)(i \<mapsto> asks c fd),
    request_clients_map := (request_clients_map t)(request_str c \<mapsto> [i])\<rparr>)"
proof -
  have "prepareForSendingRequest K i t = Done () (t\<lparr>trace := tr, heap := (heap t)(i \<mapsto> asks c fd)\<rparr>)"
    by (rule prepare_run [OF get(2,3) url conn])
  moreover have "listed i (request_str c) t = [i]"
    using new(3) by (auto simp: listed_def hasClientsWithRequest_def split: option.splits)
  ultimately show ?thesis
    using get(1,2) new contains_ok [OF new(1)]
    by (simp add: readRequestFromClient_def tryCatch_def andThen_def getC_def get_def
        addToRequestClients_run [of _ i "asks c fd"] listed_def asks_def)
qed

text \<open>The event that sends it.\<close>

lemma send_event:
  assumes "heap s i = Some c" "state c = sending_request" "server_connection c = Some fd" "\<not> has_null (request_str c)"
    "k_send K (trace s) fd (request_str c) = Some n"
    "k_shutdown K (trace s @ [Ev_send fd (request_str c) (Some n)]) fd"
  shows "handleClientSocketEvents K i POLLOUT s = Done () (s\<lparr>
    trace := trace s @ [Ev_send fd (request_str c) (Some n), Ev_shutdown fd True],
    heap := (heap s)(i \<mapsto> c\<lparr>state := waiting_response_status_code\<rparr>)\<rparr>)"
  using assms
  by (simp add: handleClientSocketEvents_def handle_state_def sendRequestToServer_def server_conn_def send_string_def
      send_bytes_def shutdownWrite_def c_str_no_null tryCatch_def andThen_def getC_def setC_def get_def log_event_def
      modify_def ret_def poll_defs)

section \<open>The whole way\<close>

lemma delivered_quiet: "delivered fd (recv_events fd' ps) = []" "delivered fd (chunk_events fd' qs) = []"
  by (simp_all add: delivered_def recv_events_def chunk_events_def)

text \<open>From the request to the moment the origin has been asked: one readable and one writable event.\<close>

lemma ask_origin:
  assumes safe: "safe s" and c: "heap s i = Some c" "state c = waiting_for_request" "server_connection c = None"
    and ps: "delivers K (client_connection c) (trace s) ps"
      "concat ps = render_request m (render_url sch host po pa qu fr) ma mi hs @ rest"
    and ok: "url_parts_ok sch host po pa qu" "request_parts_ok m (render_url sch host po pa qu fr) ma mi hs"
      "\<not> takes_body m \<or> list_all no_body_header hs"
    and key: "key = render_request m (CHR ''/'' # pa) ma mi (map header_of (keep_headers hs [])) @ CRLF"
      "lookup (the_cache s) key = None" "\<not> hasClientsWithRequest key s"
    and conn: "tr1 = trace s @ recv_events (client_connection c) ps"
      "k_getaddrinfo K tr1 (Some host) (service_of sch po) = Some infos"
      "attempts K infos (tr1 @ [Ev_getaddrinfo (Some host) (service_of sch po) (Some infos)]) = (tr2, Some fd)"
    and sent: "k_send K tr2 fd key = Some (length key)" "k_shutdown K (tr2 @ [Ev_send fd key (Some (length key))]) fd"
  shows "\<exists>t d. forEach [POLLIN, POLLOUT] (handleClientSocketEvents K i) s = Done () t \<and>
    trace t = tr2 @ [Ev_send fd key (Some (length key)), Ev_shutdown fd True] \<and> the_cache t = the_cache s \<and>
    heap t = (heap s)(i \<mapsto> d) \<and> request_clients_map t = (request_clients_map s)(key \<mapsto> [i]) \<and>
    request_str d = key \<and> state d = waiting_response_status_code \<and> server_connection d = Some fd \<and>
    client_connection d = client_connection c \<and> sent_bytes d = sent_bytes c"
proof -
  obtain h where h: "getHttpRequest K i s = Done () (s\<lparr>trace := tr1, heap := (heap s)(i \<mapsto> c\<lparr>request := h, request_str := key\<rparr>)\<rparr>)"
    (is "_ = Done () ?t") "isValid (rq_url h)" "the_url (rq_url h) = url_of sch host po pa qu fr"
    unfolding key(1) conn(1) using getHttpRequest_url [OF c(1) ps ok] by (elim exE conjE)
  let ?c = "c\<lparr>request := h, request_str := key\<rparr>"
  have "cache_ok (the_cache ?t)" "lookup (the_cache ?t) (request_str ?c) = None" "\<not> hasClientsWithRequest (request_str ?c) ?t"
    "\<forall>x \<in> set host. host_char x"
    using safe key(2,3) ok(1) by (simp_all add: server_inv_def hasClientsWithRequest_def url_parts_ok_def)
  then have "readRequestFromClient K i s = Done () (?t\<lparr>trace := tr2, heap := (heap ?t)(i \<mapsto> asks ?c fd),
      request_clients_map := (request_clients_map ?t)(request_str ?c \<mapsto> [i])\<rparr>)" (is "_ = Done () ?u")
    using c(3) h(2,3) conn(2,3) by (intro request_fetches [OF h(1)]) simp_all
  then have first: "handleClientSocketEvents K i POLLIN s = Done () ?u"
    by (rule readable_run [OF c(1,2)])
  have "\<not> has_null key" unfolding key(1) by (rule forwarded_no_null [OF ok(2)])
  then have second: "handleClientSocketEvents K i POLLOUT ?u = Done () (?u\<lparr>
      trace := trace ?u @ [Ev_send fd key (Some (length key)), Ev_shutdown fd True],
      heap := (heap ?u)(i \<mapsto> (asks ?c fd)\<lparr>state := waiting_response_status_code\<rparr>)\<rparr>)" (is "_ = Done () ?v")
    using send_event [of ?u i "asks ?c fd" fd K "length key"] sent by (simp add: asks_def)
  show ?thesis
    using first second
    by (intro exI [of _ ?v] exI [of _ "(asks ?c fd)\<lparr>state := waiting_response_status_code\<rparr>"])
      (simp add: andThen_def ret_def asks_def)
qed

text \<open>
  And on to the end: the response is streamed into the cache, the client is sent all of it and is
  closed, and the entry stays for the clients to come.
\<close>

lemma whole_way:
  assumes K: "kernel_safe K" and asked: "forEach [POLLIN, POLLOUT] (handleClientSocketEvents K i) s = Done () t" and safe: "safe s"
    and d: "heap t i = Some d" "state d = waiting_response_status_code" "server_connection d = Some fd" "request_str d = key"
      "sent_bytes d = 0"
    and t: "request_clients_map t key = Some [i]" "lookup (the_cache t) key = None"
    and qs: "streams K fd (trace t) (q # qs)" "status_200 q" "length (concat (q # qs)) \<le> cache_room (the_cache t)"
    and client: "accepts_data K (client_connection d)"
  shows "\<exists>n u. n \<le> Suc (length (concat (q # qs))) \<and>
    forEach (POLLIN # POLLOUT # replicate (length qs + 2) POLLIN @ replicate n POLLOUT) (handleClientSocketEvents K i) s = Done () u \<and>
    delivered (client_connection d) (trace u) = delivered (client_connection d) (trace t) @ concat (q # qs) \<and>
    (\<forall>fd'. fd' \<noteq> client_connection d \<longrightarrow> delivered fd' (trace u) = delivered fd' (trace t)) \<and>
    heap u = (heap t)(i := None) \<and>
    lookup (the_cache u) key = Some \<lparr>buffer = concat (q # qs), completed = True, in_use = 0\<rparr>"
proof -
  let ?H = "handleClientSocketEvents K i" let ?resp = "concat (q # qs)"
  let ?e = "\<lparr>buffer = ?resp, completed = True, in_use = 1\<rparr>"
  have st: "safe t" by (rule forEach_handlers_safe [OF K safe asked])
  have fr: "intact (k_freed K)" using K by (simp add: kernel_safe_def)
  obtain v where v: "forEach (replicate (length qs + 2) POLLIN) ?H t = Done () v"
    "trace v = trace t @ chunk_events fd (q # qs @ [[]])" "lookup (the_cache v) key = Some ?e"
    "request_clients_map v = request_clients_map t" "\<forall>j. j \<notin> {i} \<longrightarrow> heap v j = heap t j"
    "\<exists>d'. heap v i = Some d' \<and> reads_from_cache d' \<and> request_str d' = key \<and> sent_bytes d' = 0 \<and>
      client_connection d' = client_connection d"
    using fetch_complete [OF st fr d(1,2,3), of "[i]" q qs] t qs d by auto
  then obtain d' where d': "heap v i = Some d'" "reads_from_cache d'" "request_str d' = key" "sent_bytes d' = 0"
    "client_connection d' = client_connection d"
    by (elim exE conjE)
  have sv: "safe v" by (rule forEach_handlers_safe [OF K st v(1)])
  have e: "entry_isCompleted ?e" "entry_size ?e = length ?resp"
    "\<not> disposable (entry_decrementUse ?e)" "entry_decrementUse ?e = \<lparr>buffer = ?resp, completed = True, in_use = 0\<rparr>"
    by (simp_all add: entry_isCompleted_def entry_size_def disposable_def entry_decrementUse_def)
  obtain n u where u: "n \<le> Suc (length ?resp)" "forEach (replicate n POLLOUT) ?H v = Done () u" "heap u = (heap v)(i := None)"
    "delivered (client_connection d) (trace u) = delivered (client_connection d) (trace v) @ ?resp"
    "\<forall>fd'. fd' \<noteq> client_connection d \<longrightarrow> delivered fd' (trace u) = delivered fd' (trace v)"
    "\<forall>k. lookup (the_cache u) k = (if k = key then Some \<lparr>buffer = ?resp, completed = True, in_use = 0\<rparr> else lookup (the_cache v) k)"
    using serve_complete [OF K sv d'(1,2), of "[i]" ?e] v(3,4) t(1) d' e client by (auto simp del: concat.simps)
  have "forEach (([POLLIN, POLLOUT] @ replicate (length qs + 2) POLLIN) @ replicate n POLLOUT) ?H s = Done () u"
    unfolding forEach_append using asked v(1) u(2) by (simp only: andThen_def forEach_append outcome.case)
  moreover have "heap u = (heap t)(i := None)" using u(3) v(5) by (auto simp: fun_eq_iff)
  ultimately show ?thesis
    using u(1,4-6) v(2) by (intro exI [of _ n] exI [of _ u]) (simp add: delivered_quiet)
qed

text \<open>What each peer has been sent when the origin has been asked.\<close>

lemma delivered_asked:
  assumes "attempts K infos (tr1 @ [Ev_getaddrinfo host service res]) = (tr2, Some fd)" "tr1 = tr @ recv_events fd' ps"
    "tr' = tr2 @ [Ev_send fd key (Some (length key)), Ev_shutdown fd True]"
  shows "delivered f tr' = delivered f tr @ (if f = fd then key else [])"
proof -
  obtain es where "tr2 = (tr1 @ [Ev_getaddrinfo host service res]) @ es" "delivered f es = []"
    using attempts_quiet [OF assms(1)] by auto
  moreover have "delivered f (Ev_getaddrinfo host service res # l) = delivered f l" for l
    by (simp add: delivered_def)
  moreover have "delivered f [Ev_send fd key (Some (length key)), Ev_shutdown fd True] = (if f = fd then key else [])"
    by (simp add: delivered_def)
  ultimately show ?thesis using assms(2,3) by (simp add: delivered_quiet)
qed

lemma server_fd_differs: "safe s \<Longrightarrow> heap s i = Some c \<Longrightarrow> server_connection c = Some fd \<Longrightarrow> fd \<noteq> client_connection c"
  by (fastforce simp: server_inv_def fds_ok_def fds_of_def)

end
