(* ===== verification/Server_Waiting.thy ===== *)
theory Server_Waiting
  imports Server_Delivery Server_Miss Server_Errors
begin

text \<open>
  The clients that wait for the response another client is fetching, when that response turns out
  not to be cacheable or never comes: each is connected to the origin on its own; and what
  happens when that fails.
\<close>

section \<open>Connections for all that wait\<close>

text \<open>The host that the client's request names resolves and accepts, whenever it is asked.\<close>

definition reaches :: "kernel \<Rightarrow> client \<Rightarrow> bool" where
  "reaches K d \<longleftrightarrow> (\<exists>sch host po pa qu fr. isValid (rq_url (request d)) \<and>
     the_url (rq_url (request d)) = url_of sch host po pa qu fr \<and> (\<forall>x \<in> set host. host_char x) \<and>
     (\<forall>tr. \<exists>infos tr' fd. k_getaddrinfo K tr (Some host) (service_of sch po) = Some infos \<and>
        attempts K infos (tr @ [Ev_getaddrinfo (Some host) (service_of sch po) (Some infos)]) = (tr', Some fd)))"

definition waits :: "client \<Rightarrow> bool" where
  "waits d \<longleftrightarrow> state d = waiting_for_response_for_another_client"

text \<open>One of the clients, when \<open>fd\<close> is its new connection.\<close>

definition released :: "fd \<Rightarrow> client \<Rightarrow> client" where
  "released fd d = (if waits d then asks d fd else d)"

definition release :: "kernel \<Rightarrow> client_id \<Rightarrow> unit server_act" where
  "release K j = andThen (getC j state) (\<lambda>st.
     if st = waiting_for_response_for_another_client then prepareForSendingRequest K j else ret ())"

lemma prepareAll_unfold:
  "prepareAllWaitingClientsForSending K key = andThen (map_at key) (\<lambda>l. forEach l (release K))"
  by (simp add: prepareAllWaitingClientsForSending_def release_def [abs_def])

lemma release_one:
  assumes "heap s j = Some d" "waits d \<Longrightarrow> server_connection d = None \<and> reaches K d"
  shows "\<exists>tr fd. release K j s = Done () (s\<lparr>trace := tr, heap := (heap s)(j \<mapsto> released fd d)\<rparr>)"
proof (cases "waits d")
  case True
  then obtain sch host po pa qu fr where url: "isValid (rq_url (request d))"
    "the_url (rq_url (request d)) = url_of sch host po pa qu fr" "\<forall>x \<in> set host. host_char x"
    and conn: "\<And>tr. \<exists>infos tr' fd. k_getaddrinfo K tr (Some host) (service_of sch po) = Some infos \<and>
      attempts K infos (tr @ [Ev_getaddrinfo (Some host) (service_of sch po) (Some infos)]) = (tr', Some fd)"
    using assms(2) unfolding reaches_def by blast
  obtain infos tr fd where c: "k_getaddrinfo K (trace s) (Some host) (service_of sch po) = Some infos"
    "attempts K infos (trace s @ [Ev_getaddrinfo (Some host) (service_of sch po) (Some infos)]) = (tr, Some fd)"
    using conn by blast
  have "prepareForSendingRequest K j s = Done () (s\<lparr>trace := tr, heap := (heap s)(j \<mapsto> asks d fd)\<rparr>)"
    using prepare_run [OF assms(1) _ url c] assms(2) True by simp
  then show ?thesis
    using True assms(1) by (intro exI [of _ tr] exI [of _ fd]) (simp add: release_def andThen_def getC_def released_def waits_def)
next
  case False
  have "s\<lparr>trace := trace s, heap := (heap s)(j \<mapsto> d)\<rparr> = s" using assms(1) by (simp add: fun_upd_idem)
  with False show ?thesis
    using assms(1) by (intro exI [of _ "trace s"] exI) (simp add: release_def andThen_def getC_def ret_def released_def waits_def)
qed

definition released_heap :: "(client_id \<Rightarrow> fd) \<Rightarrow> client_id list \<Rightarrow> (client_id \<rightharpoonup> client) \<Rightarrow> client_id \<rightharpoonup> client" where
  "released_heap f l h = (\<lambda>j. if j \<in> set l then map_option (released (f j)) (h j) else h j)"

lemma release_all:
  assumes "distinct l" "\<forall>j \<in> set l. \<exists>d. heap s j = Some d \<and> (waits d \<longrightarrow> server_connection d = None \<and> reaches K d)"
  shows "\<exists>tr f. forEach l (release K) s = Done () (s\<lparr>trace := tr, heap := released_heap f l (heap s)\<rparr>)"
  using assms
proof (induction l arbitrary: s)
  case Nil
  then show ?case by (intro exI [of _ "trace s"] exI) (simp add: ret_def released_heap_def)
next
  case (Cons j l)
  obtain d where d: "heap s j = Some d" "waits d \<Longrightarrow> server_connection d = None \<and> reaches K d" using Cons.prems(2) by auto
  obtain tr fd where one: "release K j s = Done () (s\<lparr>trace := tr, heap := (heap s)(j \<mapsto> released fd d)\<rparr>)" (is "_ = Done () ?t")
    using release_one [OF d] by blast
  have "\<forall>k \<in> set l. \<exists>d. heap ?t k = Some d \<and> (waits d \<longrightarrow> server_connection d = None \<and> reaches K d)"
    using Cons.prems by auto
  from Cons.IH [OF _ this] Cons.prems(1)
  obtain tr' f where "forEach l (release K) ?t = Done () (?t\<lparr>trace := tr', heap := released_heap f l (heap ?t)\<rparr>)"
    by fastforce
  moreover have "released_heap f l (heap ?t) = released_heap (f(j := fd)) (j # l) (heap s)"
    using d(1) Cons.prems(1) by (auto simp: released_heap_def fun_eq_iff)
  ultimately show ?case
    using one by (intro exI [of _ tr'] exI [of _ "f(j := fd)"]) (simp add: andThen_def del: fun_upd_apply)
qed

section \<open>A fetch that gives the others nothing\<close>

text \<open>The first chunk has another status, or there is none: the origin closed, or the read failed.\<close>

definition fetch_fails :: "string option \<Rightarrow> bool" where
  "fetch_fails r \<longleftrightarrow> r = None \<or> r = Some []"

definition not_cacheable :: "string option \<Rightarrow> bool" where
  "not_cacheable r \<longleftrightarrow> (\<exists>bs. r = Some bs \<and> bs \<noteq> [] \<and> status_readable bs \<and> \<not> status_200 bs)"

lemma waiters_other_status:
  assumes c: "heap s i = Some c" "state c = waiting_response_status_code" "server_connection c = Some fd"
    and l: "request_clients_map s (request_str c) = Some l" "distinct l"
    and bs: "k_recv K (trace s) fd MAX_CHUNK_SIZE = Some bs" "bs \<noteq> []" "status_readable bs" "\<not> status_200 bs"
    and w: "\<forall>j \<in> set l. \<exists>d. heap s j = Some d \<and> (waits d \<longrightarrow> server_connection d = None \<and> reaches K d)"
  shows "\<exists>tr f. handleClientSocketEvents K i POLLIN s = Done () (s\<lparr>trace := tr,
    heap := (released_heap f l (heap s))(i \<mapsto> c\<lparr>chunks := chunks c @ [bs], state := waiting_response\<rparr>)\<rparr>)"
proof -
  obtain n where n: "stoi (take STATUS_CODE_LEN (drop STATUS_CODE_OFFSET bs)) = Inr n" "n \<noteq> OK_STATUS_CODE"
    "STATUS_CODE_OFFSET + STATUS_CODE_LEN \<le> length bs"
    using bs(3,4) by (auto simp: status_readable_def status_200_def split: sum.splits)
  let ?c = "c\<lparr>chunks := chunks c @ [bs]\<rparr>"
  let ?t = "s\<lparr>trace := trace s @ [Ev_recv fd MAX_CHUNK_SIZE (Some bs)], heap := (heap s)(i \<mapsto> ?c)\<rparr>"
  have "\<not> waits ?c" using c(2) by (simp add: waits_def)
  then have "\<forall>j \<in> set l. \<exists>d. heap ?t j = Some d \<and> (waits d \<longrightarrow> server_connection d = None \<and> reaches K d)"
    using w c(1) by auto
  then obtain tr f where rel: "forEach l (release K) ?t = Done () (?t\<lparr>trace := tr, heap := released_heap f l (heap ?t)\<rparr>)"
    using release_all [OF l(2), of ?t K] by auto
  have at: "released_heap f l (heap ?t) i = Some ?c"
    using \<open>\<not> waits ?c\<close> by (simp add: released_heap_def released_def)
  have h: "(released_heap f l (heap ?t))(i \<mapsto> ?c\<lparr>state := waiting_response\<rparr>) =
      (released_heap f l (heap s))(i \<mapsto> ?c\<lparr>state := waiting_response\<rparr>)"
    by (auto simp: released_heap_def fun_eq_iff)
  have "handleClientSocketEvents K i POLLIN s =
      Done () (?t\<lparr>trace := tr, heap := (released_heap f l (heap ?t))(i \<mapsto> ?c\<lparr>state := waiting_response\<rparr>)\<rparr>)"
    using c l(1) bs(1,2) n rel at
    by (simp add: handleClientSocketEvents_def handle_state_def read_status_unfold tryCatch_def readResponseChunk_def
        server_conn_def receive_def status_code_def andThen_def getC_def setC_def get_def log_event_def modify_def ret_def
        map_at_def writeResponseChunkToClientBuffer_def prepareAll_unfold poll_defs)
  then show ?thesis unfolding h by (intro exI [of _ tr] exI [of _ f]) simp
qed

lemma waiters_failed_fetch:
  assumes K: "kernel_safe K" and safe: "safe s"
    and c: "heap s i = Some c" "state c = waiting_response_status_code" "server_connection c = Some fd"
    and l: "request_clients_map s (request_str c) = Some l" "distinct l"
    and r: "k_recv K (trace s) fd MAX_CHUNK_SIZE = r" "fetch_fails r"
    and w: "\<forall>j \<in> set l. \<exists>d. heap s j = Some d \<and> (waits d \<longrightarrow> server_connection d = None \<and> reaches K d)"
  shows "\<exists>t f. handleClientSocketEvents K i POLLIN s = Done () t \<and> heap t = (released_heap f l (heap s))(i := None) \<and>
    request_clients_map t (request_str c) = Some (filter (\<lambda>j. j \<noteq> i) l)"
proof -
  let ?t = "s\<lparr>trace := trace s @ [Ev_recv fd MAX_CHUNK_SIZE r]\<rparr>" let ?key = "request_str c"
  obtain tr f where rel: "forEach l (release K) ?t = Done () (?t\<lparr>trace := tr, heap := released_heap f l (heap s)\<rparr>)" (is "_ = Done () ?u")
    using release_all [OF l(2), of ?t K] w by auto
  have all: "prepareAllWaitingClientsForSending K ?key ?t = Done () ?u"
    using l(1) rel by (simp add: prepareAll_unfold andThen_def map_at_def)
  have "safe ?t" using safe by (intro inv_trace) simp_all
  then have su: "safe ?u"
    using hoareD [OF prepareAll_preserves, of K ?t ?key] K all by (simp add: wp_def kernel_safe_def)
  have ci: "heap ?u i = Some c" using c(1,2) by (simp add: released_heap_def released_def waits_def)
  obtain v where v: "discardClient K i ?u = Done () v" "heap v = (heap ?u)(i := None)"
    "request_clients_map v = (request_clients_map ?u)(?key \<mapsto> filter (\<lambda>j. j \<noteq> i) l)"
    using discardClient_run [OF su ci, of l K] c(2) l(1) by auto
  have "\<exists>x. readResponseChunk K i s = Raise x ?t \<and> is_spx_exception x"
    using c(1,3) r
    by (auto simp: fetch_fails_def readResponseChunk_def server_conn_def receive_def andThen_def getC_def get_def log_event_def
        modify_def ret_def raise_def)
  then obtain x where "readResponseChunk K i s = Raise x ?t" "is_spx_exception x" by blast
  then have "handleClientSocketEvents K i POLLIN s = Done () v"
    using c(1,2) all v(1)
    by (simp add: handleClientSocketEvents_def handle_state_def read_status_unfold tryCatch_def andThen_def getC_def poll_defs)
  then show ?thesis using v(2,3) by (intro exI [of _ v] exI [of _ f]) simp
qed

text \<open>Both cases together.\<close>

lemma released_cases:
  assumes "kernel_safe K" "safe s"
    "heap s i = Some c" "state c = waiting_response_status_code" "server_connection c = Some fd"
    "request_clients_map s (request_str c) = Some l" "distinct l"
    "k_recv K (trace s) fd MAX_CHUNK_SIZE = r" "fetch_fails r \<or> not_cacheable r"
    "\<forall>j \<in> set l. \<exists>d. heap s j = Some d \<and> (waits d \<longrightarrow> server_connection d = None \<and> reaches K d)"
  shows "\<exists>t f. handleClientSocketEvents K i POLLIN s = Done () t \<and> (\<forall>j. j \<noteq> i \<longrightarrow> heap t j = released_heap f l (heap s) j) \<and>
    (if fetch_fails r then heap t i = None else map_option state (heap t i) = Some waiting_response)"
proof (cases "fetch_fails r")
  case True
  then show ?thesis using waiters_failed_fetch [OF assms(1-8) _ assms(10)] by fastforce
next
  case False
  then obtain bs where "r = Some bs" "bs \<noteq> []" "status_readable bs" "\<not> status_200 bs"
    using assms(9) by (auto simp: not_cacheable_def)
  then show ?thesis
    using waiters_other_status [OF assms(3-7) _ _ _ _ assms(10)] assms(8) False by fastforce
qed

text \<open>The new connection is open.\<close>

lemma released_open:
  assumes "safe t" "heap s i = Some c" "state c = waiting_response_status_code"
    "\<forall>j. j \<noteq> i \<longrightarrow> heap t j = released_heap f l (heap s) j" "j \<in> set l" "heap s j = Some d" "waits d"
  shows "\<exists>fd. heap t j = Some (d\<lparr>server_connection := Some fd, state := sending_request\<rparr>) \<and> fd \<in> set (open_fds (trace t))"
proof -
  have "j \<noteq> i" using assms(2,3,6,7) by (auto simp: waits_def)
  then have t: "heap t j = Some (asks d (f j))" using assms(4-7) by (simp add: released_heap_def released_def)
  then have "f j \<in> owned t" unfolding owned_def by (intro CollectI exI conjI) (auto simp: fds_of_def asks_def)
  then have "f j \<in> set (open_fds (trace t))" using assms(1) by (simp add: server_inv_def fds_ok_def)
  with t show ?thesis by (intro exI [of _ "f j"]) (simp add: asks_def)
qed

text \<open>
  A release that fails: the handler of the failure tries the same again, fails again, and is left
  with it, so the client that fetches stays in its state although its first chunk is gone.
\<close>

definition unreachable :: "kernel \<Rightarrow> client \<Rightarrow> bool" where
  "unreachable K d \<longleftrightarrow> (\<exists>sch host po pa qu fr. isValid (rq_url (request d)) \<and>
     the_url (rq_url (request d)) = url_of sch host po pa qu fr \<and> (\<forall>x \<in> set host. host_char x) \<and>
     (\<forall>tr. k_getaddrinfo K tr (Some host) (service_of sch po) = None))"

lemma release_fails:
  assumes "heap s j = Some d" "waits d" "unreachable K d"
  shows "\<exists>ev x. release K j s = Raise x (s\<lparr>trace := trace s @ [ev]\<rparr>) \<and> is_spx_exception x \<and> receipts fd [ev] = 0"
proof -
  obtain sch host po pa qu fr where url: "isValid (rq_url (request d))"
    "the_url (rq_url (request d)) = url_of sch host po pa qu fr" "\<forall>x \<in> set host. host_char x"
    and none: "\<And>tr. k_getaddrinfo K tr (Some host) (service_of sch po) = None"
    using assms(3) unfolding unreachable_def by blast
  obtain w where w: "httpPort (rq_url (request d)) s = Done w s" "show_nat (unat w) = service_of sch po"
    using port_of_url [OF url(1,2), of s] by (elim exE conjE)
  have host: "hostname (rq_url (request d)) s = Done host s"
    using url(1,2) by (simp add: hostname_def andThen_def assertThat_def isValid_def ret_def url_of_def)
  have "\<not> has_null (service_of sch po)" using number_no_null [of "unat w"] w(2) by simp
  then have "connectToHost K host (service_of sch po) s = Raise (SpxException ''error on getaddrinfo()'')
      (s\<lparr>trace := trace s @ [Ev_getaddrinfo (Some host) (service_of sch po) None]\<rparr>)"
    using none host_no_null [OF url(3)]
    by (simp add: connectToHost_def getaddrinfo_def andThen_def get_def log_event_def modify_def ret_def raise_def c_str_no_null)
  then show ?thesis
    using w host assms(1,2)
    by (intro exI [of _ "Ev_getaddrinfo (Some host) (service_of sch po) None"] exI [of _ "SpxException ''error on getaddrinfo()''"])
      (simp add: release_def prepareForSendingRequest_def andThen_def getC_def waits_def)
qed

lemma failed_release:
  assumes c: "heap s i = Some c" "state c = waiting_response_status_code" "server_connection c = Some fd"
    and l: "request_clients_map s (request_str c) = Some [i, j]" "i \<noteq> j"
    and d: "heap s j = Some d" "waits d" "unreachable K d"
    and recv: "sends K fd (trace s) (bs # qs)" "status_readable bs" "\<not> status_200 bs"
  shows "\<exists>t c'. handleClientSocketEvents K i POLLIN s = Done () t \<and> heap t i = Some c' \<and> state c' = waiting_response_status_code \<and>
    server_connection c' = Some fd \<and> heap t j = Some d \<and> sends K fd (trace t) qs"
proof -
  obtain n where n: "stoi (take STATUS_CODE_LEN (drop STATUS_CODE_OFFSET bs)) = Inr n" "n \<noteq> OK_STATUS_CODE"
    "STATUS_CODE_OFFSET + STATUS_CODE_LEN \<le> length bs"
    using recv(2,3) by (auto simp: status_readable_def status_200_def split: sum.splits)
  have q: "k_recv K (trace s) fd MAX_CHUNK_SIZE = Some bs" "bs \<noteq> []"
    "sends K fd (trace s @ [Ev_recv fd MAX_CHUNK_SIZE (Some bs)]) qs"
    using sends_next [OF recv(1), of "[]"] by simp_all
  let ?c = "c\<lparr>chunks := chunks c @ [bs]\<rparr>" let ?key = "request_str c"
  let ?t = "s\<lparr>trace := trace s @ [Ev_recv fd MAX_CHUNK_SIZE (Some bs)], heap := (heap s)(i \<mapsto> ?c)\<rparr>"
  have skip: "release K i u' = Done () u'" if "heap u' i = Some ?c" for u'
    using that c(2) by (simp add: release_def andThen_def getC_def ret_def)
  have all: "\<exists>ev x. prepareAllWaitingClientsForSending K ?key u' = Raise x (u'\<lparr>trace := trace u' @ [ev]\<rparr>) \<and> is_spx_exception x \<and>
      receipts fd [ev] = 0"
    if h: "heap u' i = Some ?c" "heap u' j = Some d" "request_clients_map u' ?key = Some [i, j]" for u'
  proof -
    obtain ev x where "release K j u' = Raise x (u'\<lparr>trace := trace u' @ [ev]\<rparr>)" "is_spx_exception x" "receipts fd [ev] = 0"
      using release_fails [OF h(2) d(2,3), of fd] by blast
    then show ?thesis
      using skip [OF h(1)] h(3)
      by (intro exI [of _ ev] exI [of _ x]) (simp add: prepareAll_unfold andThen_def map_at_def)
  qed
  obtain ev x where one: "prepareAllWaitingClientsForSending K ?key ?t = Raise x (?t\<lparr>trace := trace ?t @ [ev]\<rparr>)" (is "_ = Raise x ?u")
    "is_spx_exception x" "receipts fd [ev] = 0"
    using all [of ?t] d(1) l by auto
  obtain ev' x' where two: "prepareAllWaitingClientsForSending K ?key ?u = Raise x' (?u\<lparr>trace := trace ?u @ [ev']\<rparr>)" (is "_ = Raise x' ?v")
    "is_spx_exception x'" "receipts fd [ev'] = 0"
    using all [of ?u] d(1) l by auto
  have "handleClientSocketEvents K i POLLIN s = Done () ?v"
    using c q(1,2) n one(1,2) two(1,2)
    by (simp add: handleClientSocketEvents_def handle_state_def read_status_unfold tryCatch_def readResponseChunk_def
        server_conn_def receive_def status_code_def andThen_def getC_def setC_def get_def log_event_def modify_def ret_def
        writeResponseChunkToClientBuffer_def poll_defs)
  moreover have "sends K fd (trace ?v) qs"
    using sends_later [OF sends_later [OF q(3), of "[ev]"], of "[ev']"] one(3) two(3) by simp
  ultimately show ?thesis
    using c d(1) l(2) by (intro exI [of _ ?v] exI [of _ ?c]) simp
qed

end
