(* ===== verification/Server_Neglect.thy ===== *)
theory Server_Neglect
  imports Server_Phases Server_Waiting
begin

text \<open>
  The clients that nobody serves. A client that waits for the response another client fetches is
  not polled, and no timer looks after it. When no client of its request can bring the response any
  more, nothing that happens on any connection ever reaches it again.
\<close>

section \<open>A key that stays out of the cache\<close>

abbreviation lacks :: "string \<Rightarrow> cache \<Rightarrow> bool" where
  "lacks key c \<equiv> \<not> contains key c"

lemma lacks_modify: "(\<And>c. hash_table c key = None \<Longrightarrow> hash_table (f c) key = None) \<Longrightarrow> stays (lacks key) (modify f)"
  by (simp add: sound_def modify_def contains_def)

lemma lacks_recent [quiet]: "stays (lacks key) (makeMostRecentlyUsed k)"
  by (auto simp: sound_def makeMostRecentlyUsed_def contains_def split: option.split)

lemma lacks_nodes [quiet]: "stays (lacks key) (deref r)" "stays (lacks key) (deref_update r f)" "stays (lacks key) back_entry"
  "stays (lacks key) (read_key kr)"
  by (auto simp: sound_def deref_def deref_update_def back_entry_def read_key_def contains_def split: option.split key_ref.split)

lemma lacks_entry [quiet]: "stays (lacks key) (getEntry k)" "stays (lacks key) (completeEntry k)"
proof -
  have "stays (lacks key) (\<lambda>c. case hash_table c k of None \<Rightarrow> Raise StdOutOfRange c | Some i \<Rightarrow> Done i c)"
    by (auto simp: sound_def split: option.split)
  then show get: "stays (lacks key) (getEntry k)" unfolding getEntry_def by (intro stays_rules quiet)
  show "stays (lacks key) (completeEntry k)" unfolding completeEntry_def by (intro stays_rules quiet get)
qed

lemma lacks_drop [quiet]: "stays (lacks key) (drop_entry af r)"
proof -
  have "stays (lacks key) (read_key_after_erase af r k)" for k
    unfolding read_key_after_erase_def by (cases r) (auto intro!: stays_rules quiet)
  then show ?thesis unfolding drop_entry_def by (intro stays_rules quiet lacks_modify) simp_all
qed

lemma lacks_free [quiet]: "stays (lacks key) (freeSpace af n)"
proof -
  have step: "stays (lacks key) (removeLeastRecentlyUsed af)" for af
    unfolding removeLeastRecentlyUsed_def by (intro stays_rules quiet)
  have "lacks key c \<longrightarrow> (case r of Done _ c' \<Rightarrow> lacks key c' | Raise _ c' \<Rightarrow> lacks key c' | _ \<Rightarrow> True)"
    if "freeSpace_loop af n c = Some r" for n c r
  proof (rule freeSpace_loop.raw_induct [OF _ that])
    fix loop af n c r
    assume ih: "\<And>af n c r. loop af n c = Some r \<Longrightarrow>
        lacks key c \<longrightarrow> (case r of Done _ c' \<Rightarrow> lacks key c' | Raise _ c' \<Rightarrow> lacks key c' | _ \<Rightarrow> True)"
      and run: "(if getFreeSpace c < n then (case removeLeastRecentlyUsed af c of Done _ c' \<Rightarrow> loop af n c' | r \<Rightarrow> Some r)
        else Some (Done () c)) = Some r"
    have "lacks key c \<longrightarrow> (case removeLeastRecentlyUsed af c of
        Done _ c' \<Rightarrow> lacks key c' | Raise _ c' \<Rightarrow> lacks key c' | _ \<Rightarrow> True)"
      using step [of af] by (simp add: sound_def)
    then show "lacks key c \<longrightarrow> (case r of Done _ c' \<Rightarrow> lacks key c' | Raise _ c' \<Rightarrow> lacks key c' | _ \<Rightarrow> True)"
      using run ih [of af n _ r] by (cases "removeLeastRecentlyUsed af c"; cases r) (auto split: if_splits)
  qed
  then show ?thesis by (fastforce simp: sound_def freeSpace_def split: option.split)
qed

lemma lacks_operations [quiet]: "stays (lacks key) (cache_write af k buf)" "stays (lacks key) (cache_read k n m)"
  "stays (lacks key) (disuseEntry af k)"
  unfolding cache_write_def append_entry_def writeToFront_def cache_read_def disuseEntry_def
  by (intro stays_rules quiet lacks_modify; simp)+

lemma lacks_use: "k \<noteq> key \<Longrightarrow> stays (lacks key) (useEntry k)"
  unfolding useEntry_def by (intro stays_rules quiet lacks_modify) simp

section \<open>Clients that nobody serves\<close>

text \<open>A client that has all it will get from others: it neither feeds the cache nor other clients, nor reads the cache.\<close>

definition settled :: "client \<Rightarrow> bool" where
  "settled d \<longleftrightarrow> phase (state d) = 4 \<and> \<not> should_write_to_cache d \<and> \<not> should_write_to_all d \<and> \<not> should_read_from_cache d"

definition unattended :: "string \<Rightarrow> server \<Rightarrow> bool" where
  "unattended key s \<longleftrightarrow> lacks key (the_cache s) \<and> (\<forall>m d. heap s m = Some d \<longrightarrow> request_str d = key \<longrightarrow>
     state d \<noteq> waiting_for_request \<longrightarrow> waits d \<or> settled d)"

text \<open>
  While an event is handled: \<open>L\<close> are clients of other requests, \<open>S\<close> settled clients of this one; the
  client \<open>j\<close>, which waits, is as it was.
\<close>

definition neglected :: "string \<Rightarrow> client_id \<Rightarrow> client \<Rightarrow> client_id set \<Rightarrow> client_id set \<Rightarrow> server \<Rightarrow> bool" where
  "neglected key j d0 L S s \<longleftrightarrow> unattended key s \<and> heap s j = Some d0 \<and> request_str d0 = key \<and> waits d0 \<and>
     (\<exists>l. request_clients_map s key = Some l \<and> j \<in> set l) \<and>
     (\<forall>k l. request_clients_map s k = Some l \<longrightarrow> (\<forall>m \<in> set l. \<forall>d. heap s m = Some d \<longrightarrow>
        (request_str d = key \<longleftrightarrow> k = key))) \<and>
     (\<forall>m d. heap s m = Some d \<longrightarrow> m \<noteq> j \<longrightarrow> slots s ! nat (client_connection d) \<noteq> Some j) \<and>
     (\<forall>m \<in> L. \<forall>d. heap s m = Some d \<longrightarrow> request_str d \<noteq> key) \<and>
     (\<forall>m \<in> S. \<forall>d. heap s m = Some d \<longrightarrow> request_str d = key \<and> settled d)"

interpretation neglected: ignores_trace "neglected key j d0 L S" for key j d0 L S
  by unfold_locales (simp add: neglected_def unattended_def)

lemma neglected_weaken: "neglected key j d0 L S s \<Longrightarrow> L' \<subseteq> L \<Longrightarrow> S' \<subseteq> S \<Longrightarrow> neglected key j d0 L' S' s"
  unfolding neglected_def by blast

lemma neglected_others: "neglected key j d0 L S s \<Longrightarrow> m \<in> L \<Longrightarrow> heap s m = Some d \<Longrightarrow> request_str d \<noteq> key \<and> m \<noteq> j"
  unfolding neglected_def by auto

section \<open>Updates of one client\<close>

lemma neglected_cache:
  assumes "stays (lacks key) m"
  shows "stays (neglected key j d0 L S) (onCache m)"
  unfolding sound_def
proof (intro allI impI)
  fix s assume s: "neglected key j d0 L S s"
  then have "lacks key (the_cache s)" by (simp add: neglected_def unattended_def)
  then have m: "case m (the_cache s) of Done _ c \<Rightarrow> lacks key c | Raise _ c \<Rightarrow> lacks key c | _ \<Rightarrow> True"
    using assms unfolding sound_def by blast
  have "neglected key j d0 L S (s\<lparr>the_cache := c\<rparr>)" if "lacks key c" for c
    using s that by (simp add: neglected_def unattended_def)
  with m show "case onCache m s of Done _ t \<Rightarrow> neglected key j d0 L S t | Raise _ t \<Rightarrow> neglected key j d0 L S t | _ \<Rightarrow> True"
    by (cases "m (the_cache s)") (simp_all add: onCache_def zoom_def)
qed

lemma setC_neglected:
  assumes same: "\<And>c. request_str (f c) = request_str c \<and> client_connection (f c) = client_connection c"
    and m: "m \<in> L \<or> m \<noteq> j"
    and new: "\<And>c. m \<notin> L \<Longrightarrow> m \<in> S \<longrightarrow> settled c \<Longrightarrow> waits c \<or> settled c \<or> state c = waiting_for_request \<Longrightarrow>
      (m \<in> S \<longrightarrow> settled (f c)) \<and> (waits (f c) \<or> settled (f c) \<or> state (f c) = waiting_for_request)"
  shows "stays (neglected key j d0 L S) (setC m f)"
proof -
  have "neglected key j d0 L S (s\<lparr>heap := (heap s)(m \<mapsto> f c)\<rparr>)" if s: "neglected key j d0 L S s" "heap s m = Some c" for s c
  proof -
    have ne: "m \<noteq> j" using m neglected_others [OF s(1) _ s(2)] by blast
    have c: "request_str c = key \<Longrightarrow> m \<notin> L" "m \<in> S \<Longrightarrow> request_str c = key \<and> settled c"
      "request_str c = key \<Longrightarrow> waits c \<or> settled c \<or> state c = waiting_for_request"
      using s unfolding neglected_def unattended_def by auto
    then have "request_str c = key \<Longrightarrow> waits (f c) \<or> settled (f c) \<or> state (f c) = waiting_for_request"
      "m \<in> S \<Longrightarrow> settled (f c)"
      using new [of c] by blast+
    then show ?thesis
      using s ne c(2) same unfolding neglected_def unattended_def by auto
  qed
  then show ?thesis by (auto simp: sound_def setC_def split: option.split)
qed

lemma setC_other:
  "m \<in> L \<Longrightarrow> (\<And>c. request_str (f c) = request_str c \<and> client_connection (f c) = client_connection c) \<Longrightarrow>
   stays (neglected key j d0 L S) (setC m f)"
  by (rule setC_neglected) simp_all

lemma setC_still:
  assumes "m \<noteq> j" "\<And>c. request_str (f c) = request_str c \<and> client_connection (f c) = client_connection c \<and> state (f c) = state c \<and>
    should_write_to_cache (f c) = should_write_to_cache c \<and> should_write_to_all (f c) = should_write_to_all c \<and>
    should_read_from_cache (f c) = should_read_from_cache c"
  shows "stays (neglected key j d0 L S) (setC m f)"
proof -
  have "settled (f c) = settled c" "waits (f c) = waits c" for c
    using assms(2) [of c] by (simp_all add: settled_def waits_def)
  then show ?thesis using assms by (intro setC_neglected) auto
qed

lemma setC_settled:
  assumes "m \<in> S" "m \<noteq> j" "\<And>c. request_str (f c) = request_str c \<and> client_connection (f c) = client_connection c"
    "\<And>c. settled c \<Longrightarrow> settled (f c)"
  shows "stays (neglected key j d0 L S) (setC m f)"
  using assms by (intro setC_neglected) auto

section \<open>Looking at a client and at the lists\<close>

lemma look_other:
  assumes "\<And>c. request_str c \<noteq> key \<Longrightarrow> sound (neglected key j d0 L S) (g (f c)) Q X" "i \<in> L"
  shows "sound (neglected key j d0 L S) (andThen (getC i f) g) Q X"
  unfolding sound_def
proof (intro allI impI)
  fix s assume s: "neglected key j d0 L S s"
  then show "case andThen (getC i f) g s of Done a t \<Rightarrow> Q a t | Raise e t \<Rightarrow> X t | _ \<Rightarrow> True"
    using assms neglected_others [OF s assms(2)] unfolding sound_def
    by (cases "heap s i") (auto simp: andThen_def getC_def)
qed

lemma look_settled:
  assumes "\<And>c. settled c \<Longrightarrow> sound (neglected key j d0 L S) (g (f c)) Q X" "i \<in> S"
  shows "sound (neglected key j d0 L S) (andThen (getC i f) g) Q X"
  unfolding sound_def
proof (intro allI impI)
  fix s assume s: "neglected key j d0 L S s"
  then have "heap s i = Some c \<Longrightarrow> settled c" for c using assms(2) by (auto simp: neglected_def)
  then show "case andThen (getC i f) g s of Done a t \<Rightarrow> Q a t | Raise e t \<Rightarrow> X t | _ \<Rightarrow> True"
    using assms(1) s unfolding sound_def by (cases "heap s i") (auto simp: andThen_def getC_def)
qed

lemma map_at_neglected [quiet]: "stays (neglected key j d0 L S) (map_at k)"
  by (fastforce simp: sound_def map_at_def neglected_def unattended_def split: option.split)

text \<open>The list of another request holds other clients.\<close>

lemma map_at_others:
  assumes "\<And>l. stays (neglected key j d0 (L \<union> set l) S) (g l)" "k \<noteq> key"
  shows "stays (neglected key j d0 L S) (andThen (map_at k) g)"
proof (rule sound_andThen)
  show "sound (neglected key j d0 L S) (map_at k) (\<lambda>l. neglected key j d0 (L \<union> set l) S) (neglected key j d0 L S)"
    using assms(2) by (fastforce simp: sound_def map_at_def neglected_def unattended_def split: option.split)
  show "sound (neglected key j d0 (L \<union> set l) S) (g l) (\<lambda>_. neglected key j d0 L S) (neglected key j d0 L S)" for l
    by (rule sound_conseq [OF assms(1)]) (auto intro: neglected_weaken)
qed

lemma forEach_others: "(\<And>m. m \<in> L \<Longrightarrow> stays P (f m)) \<Longrightarrow> set l \<subseteq> L \<Longrightarrow> stays P (forEach l f)"
proof (induction l)
  case (Cons x l)
  then show ?case by (simp add: sound_andThen [where R = "\<lambda>_. P"])
qed (simp add: quiet)

lemma map_loop:
  assumes "\<And>m L. m \<in> L \<Longrightarrow> stays (neglected key j d0 L S) (f m)" "k \<noteq> key"
  shows "stays (neglected key j d0 L S) (andThen (map_at k) (\<lambda>l. forEach l f))"
  using assms(2) by (intro map_at_others forEach_others [where L = "L \<union> set l" for l] assms(1)) auto

section \<open>Operations\<close>

lemma send_still:
  assumes "i \<noteq> j"
  shows "stays (neglected key j d0 L S) (sendToClient K i bs)" "stays (neglected key j d0 L S) (sendToClientFromChunks K i)"
    "stays (neglected key j d0 L S) (writeResponseChunkToClientBuffer i bs)"
proof -
  show send: "stays (neglected key j d0 L S) (sendToClient K i bs)" for bs
    unfolding sendToClient_def by (intro stays_rules quiet setC_still assms) simp
  show "stays (neglected key j d0 L S) (sendToClientFromChunks K i)"
    unfolding sendToClientFromChunks_def
    by (intro stays_rules quiet, split list.split) (auto intro!: stays_rules quiet send setC_still assms)
  show "stays (neglected key j d0 L S) (writeResponseChunkToClientBuffer i bs)"
    unfolding writeResponseChunkToClientBuffer_def by (intro setC_still assms) simp
qed

lemma prepare_other: "i \<in> L \<Longrightarrow> stays (neglected key j d0 L S) (prepareForSendingRequest K i)"
  unfolding prepareForSendingRequest_def by (intro stays_rules quiet setC_other) simp_all

lemma obtain_other: "m \<in> L \<Longrightarrow> i \<noteq> j \<Longrightarrow> stays (neglected key j d0 L S) (obtainServerConnection m i)"
  unfolding obtainServerConnection_def by (intro stays_rules quiet setC_other setC_still) simp_all

lemma find_reading_value:
  "find_reading l s = Done r t \<Longrightarrow> t = s \<and> (\<forall>m. r = Some m \<longrightarrow> m \<in> set l \<and> (\<exists>d. heap s m = Some d \<and> isReadingFromCache d))"
proof (induction l)
  case (Cons m l)
  then show ?case by (cases "heap s m") (auto simp: andThen_def getC_def ret_def split: if_splits)
qed (auto simp: ret_def)

text \<open>Nobody of the request reads from the cache, so no connection is handed over to it.\<close>

lemma hand_over:
  assumes i: "i \<noteq> j"
  shows "stays (neglected key j d0 L S) (andThen (map_at k) (\<lambda>l. andThen (find_reading l) (\<lambda>found. case found of
    None \<Rightarrow> ret () | Some m \<Rightarrow> obtainServerConnection m i)))"
proof -
  let ?N = "neglected key j d0 L S"
  have at: "sound ?N (map_at k) (\<lambda>l s. ?N s \<and> request_clients_map s k = Some l) ?N"
    by (fastforce simp: sound_def map_at_def neglected_def unattended_def split: option.split)
  have other: "request_str d \<noteq> key" if s: "?N s" "request_clients_map s k = Some l" "m \<in> set l" "heap s m = Some d" "isReadingFromCache d"
    for s l m d
  proof
    assume "request_str d = key"
    then have "waits d \<or> settled d" using s(1,4,5) by (auto simp: neglected_def unattended_def isReadingFromCache_def)
    then show False using s(5) by (auto simp: isReadingFromCache_def waits_def settled_def)
  qed
  have found: "sound (\<lambda>s. ?N s \<and> request_clients_map s k = Some l) (find_reading l)
      (\<lambda>r. neglected key j d0 (L \<union> set_option r) S) ?N" for l
    unfolding sound_def
  proof (intro allI impI)
    fix s assume s: "?N s \<and> request_clients_map s k = Some l"
    have raised: "find_reading l s = Raise e t \<Longrightarrow> ?N t" for e t
      using s list_quiet(3) [of ?N l] by (fastforce simp: sound_def)
    have "neglected key j d0 (L \<union> set_option r) S t" if run: "find_reading l s = Done r t" for r t
    proof -
      have t: "t = s" "\<And>m. r = Some m \<Longrightarrow> m \<in> set l \<and> (\<exists>d. heap s m = Some d \<and> isReadingFromCache d)"
        using find_reading_value [OF run] by auto
      have new: "\<forall>m \<in> set_option r. \<forall>d. heap s m = Some d \<longrightarrow> request_str d \<noteq> key"
        using other s t(2) by fastforce
      have "neglected key j d0 (L \<union> R) S s" if "\<forall>m \<in> R. \<forall>d. heap s m = Some d \<longrightarrow> request_str d \<noteq> key" for R
        using that s by (auto simp: neglected_def)
      from this [OF new] show ?thesis using t(1) by simp
    qed
    with raised show "case find_reading l s of Done r t \<Rightarrow> neglected key j d0 (L \<union> set_option r) S t
        | Raise e t \<Rightarrow> ?N t | _ \<Rightarrow> True"
      by (simp split: outcome.split)
  qed
  have taken: "sound (neglected key j d0 (L \<union> set_option r) S)
      (case r of None \<Rightarrow> ret () | Some m \<Rightarrow> obtainServerConnection m i) (\<lambda>_. ?N) ?N" for r
  proof (rule sound_conseq)
    show "stays (neglected key j d0 (L \<union> set_option r) S) (case r of None \<Rightarrow> ret () | Some m \<Rightarrow> obtainServerConnection m i)"
      by (cases r) (simp_all add: quiet obtain_other i)
  qed (auto intro: neglected_weaken)
  show ?thesis by (rule sound_andThen [OF at], rule sound_andThen [OF found], rule taken)
qed

lemma remove_still:
  assumes i: "i \<noteq> j"
  shows "stays (neglected key j d0 L S) (removeFromRequestClients i)"
proof -
  let ?N = "neglected key j d0 L S"
  have at: "sound ?N (map_at k) (\<lambda>l s. ?N s \<and> request_clients_map s k = Some l) ?N" for k
    by (fastforce simp: sound_def map_at_def neglected_def unattended_def split: option.split)
  have "wp True (remove_if_client i l) (\<lambda>l' t. t = s \<and> l' = filter (\<lambda>m. m \<noteq> i) l) (\<lambda>_ _. False) s" for l s
    using hoareD [OF remove_if_client_value [where X = "\<lambda>_. False"]] by fastforce
  then have filtered: "sound (\<lambda>s. ?N s \<and> request_clients_map s k = Some l) (remove_if_client i l)
      (\<lambda>l' s. ?N s \<and> request_clients_map s k = Some l \<and> l' = filter (\<lambda>m. m \<noteq> i) l) ?N" for k l
    by (fastforce simp: sound_def wp_def split: outcome.splits)
  have "?N (s\<lparr>request_clients_map := (request_clients_map s)(k \<mapsto> filter (\<lambda>m. m \<noteq> i) l)\<rparr>)"
    if s: "?N s" "request_clients_map s k = Some l" for s k l
    using s i unfolding neglected_def unattended_def by auto
  then have set: "sound (\<lambda>s. ?N s \<and> request_clients_map s k = Some l \<and> l' = filter (\<lambda>m. m \<noteq> i) l) (map_set k l') (\<lambda>_. ?N) ?N" for k l l'
    by (auto simp: sound_def map_set_def modify_def)
  show ?thesis
    unfolding removeFromRequestClients_def
    by (rule sound_andThen [where R = "\<lambda>_. ?N"], rule quiet, rule sound_andThen [OF at], rule sound_andThen [OF filtered], rule set)
qed

lemma destroy_still:
  assumes i: "i \<noteq> j"
  shows "stays (neglected key j d0 L S) (clients_discardClient i)"
proof -
  let ?N = "neglected key j d0 L S"
  let ?slot = "\<lambda>fd s. ?N s \<and> slots s ! nat fd \<noteq> Some j"
  have conn: "sound ?N (getC i client_connection) ?slot ?N"
    using i by (auto simp: sound_def getC_def neglected_def split: option.split)
  have slot: "sound (?slot fd) (slot_at fd) (\<lambda>old s. ?N s \<and> old \<noteq> Some j) ?N" for fd
    by (simp add: sound_def slot_at_def)
  have forget: "sound (\<lambda>s. ?N s \<and> m \<noteq> j) (modify (\<lambda>s. s\<lparr>heap := (heap s)(m := None)\<rparr>)) (\<lambda>_. ?N) ?N" for m
    by (auto simp: sound_def modify_def neglected_def unattended_def)
  have clear: "sound (\<lambda>s. ?N s \<and> old \<noteq> Some j) (modify (\<lambda>s. s\<lparr>slots := (slots s)[n := None]\<rparr>))
      (\<lambda>_ s. ?N s \<and> old \<noteq> Some j) ?N" for n old
  proof -
    have "xs ! x \<noteq> Some j \<Longrightarrow> xs[n := None] ! x \<noteq> Some j" for xs :: "client_id option list" and x
      by (cases "n < length xs") (auto simp: nth_list_update list_update_beyond)
    then show ?thesis by (auto simp: sound_def modify_def neglected_def unattended_def)
  qed
  have destroy: "sound (\<lambda>s. ?N s \<and> m \<noteq> j) (client_destroy m) (\<lambda>_. ?N) ?N" for m
  proof (cases "m = j")
    case False
    with forget [of m] have "stays ?N (modify (\<lambda>s. s\<lparr>heap := (heap s)(m := None)\<rparr>))" by simp
    then have "stays ?N (client_destroy m)" unfolding client_destroy_def by (intro stays_rules quiet)
    with False show ?thesis by simp
  qed (simp add: sound_def)
  have old: "sound (\<lambda>s. ?N s \<and> old \<noteq> Some j) (case old of None \<Rightarrow> ret () | Some m \<Rightarrow> client_destroy m) (\<lambda>_. ?N) ?N" for old
    using destroy by (cases old) (simp_all add: sound_def ret_def)
  have "sound (?slot fd) (assign_slot fd None) (\<lambda>_. ?N) ?N" for fd
    unfolding assign_slot_def
    by (rule sound_andThen [OF slot], rule sound_andThen [OF clear], rule old)
  then show ?thesis unfolding clients_discardClient_def by (rule sound_andThen [OF conn])
qed

lemma discard_still: "i \<noteq> j \<Longrightarrow> stays (neglected key j d0 L S) (discardClient K i)"
  unfolding discardClient_def
  by (intro stays_rules hand_over remove_still destroy_still neglected_cache quiet)

lemma fallback_other: "m \<in> L \<Longrightarrow> stays (neglected key j d0 L S) (fallback_one K chunk m)"
  unfolding fallback_one_def writeResponseChunkToClientBuffer_def
  by (intro stays_rules neglected_cache setC_other quiet) simp_all

lemma write_other:
  assumes i: "i \<in> L"
  shows "stays (neglected key j d0 L S) (writeResponseChunkToCache K i chunk)"
proof -
  have "stays (neglected key j d0 (L \<union> set l) S) (andThen (forEach l (fallback_one K chunk)) (\<lambda>_.
      setC i (\<lambda>c. c\<lparr>should_write_to_cache := False, should_write_to_all := True, state := waiting_response\<rparr>)))" for l
    using i by (intro sound_andThen [where R = "\<lambda>_. neglected key j d0 (L \<union> set l) S"] forEach_others [where L = "set l"]
        fallback_other setC_other) simp_all
  then have "stays (neglected key j d0 L S) (fallbackToClientBuffer K i chunk)"
    unfolding fallbackToClientBuffer_def by (intro look_other map_at_others i)
  then show ?thesis
    unfolding writeResponseChunkToCache_def by (intro stays_rules neglected_cache quiet)
qed

lemma setClient_other: "i \<in> L \<Longrightarrow> stays (neglected key j d0 L S) (setClientToGetResponseFromCache i)"
  unfolding setClientToGetResponseFromCache_def
  by (rule sound_andThen [where R = "\<lambda>_. neglected key j d0 L S"], rule setC_other, simp_all, rule look_other)
    (intro stays_rules neglected_cache lacks_use setC_other, simp_all)

lemma prepareAll_other: "k \<noteq> key \<Longrightarrow> stays (neglected key j d0 L S) (prepareAllWaitingClientsForSending K k)"
  unfolding prepareAllWaitingClientsForSending_def
  by (rule map_loop) (intro stays_rules prepare_other quiet)

section \<open>Events of clients of other requests\<close>

lemma sendRequest_other:
  assumes i: "i \<in> L" "i \<noteq> j"
  shows "stays (neglected key j d0 L S) (sendRequestToServer K i)"
  unfolding sendRequestToServer_def send_string_def
  by (intro stays_rules quiet setC_other discard_still i) simp_all

lemma readStatus_other:
  assumes i: "i \<in> L" "i \<noteq> j"
  shows "stays (neglected key j d0 L S) (readResponseStatusCodeFromServer K i)"
proof -
  have enter: "stays (neglected key j d0 L S) (andThen (map_at k) (\<lambda>l. forEach l (\<lambda>m.
      andThen (client_eq i m) (\<lambda>same. if \<not> same then setClientToGetResponseFromCache m else ret ()))))" if "k \<noteq> key" for k
    using that by (intro map_loop) (intro stays_rules quiet setClient_other, simp)
  show ?thesis
    unfolding readResponseStatusCodeFromServer_def
    by (intro look_other stays_rules enter prepareAll_other neglected_cache lacks_use write_other setC_other
        send_still discard_still quiet i) simp_all
qed

lemma readResponse_other:
  assumes i: "i \<in> L" "i \<noteq> j"
  shows "stays (neglected key j d0 L S) (readResponseFromServer K i)"
proof -
  have give: "stays (neglected key j d0 L S) (andThen (map_at k) (\<lambda>l. forEach l (\<lambda>m. writeResponseChunkToClientBuffer m chunk)))"
    "stays (neglected key j d0 L S) (andThen (map_at k) (\<lambda>l. forEach l (\<lambda>m. setC m (\<lambda>c. c\<lparr>state := got_response\<rparr>))))"
    if "k \<noteq> key" for k chunk
    unfolding writeResponseChunkToClientBuffer_def using that by (intro map_loop setC_other; simp)+
  show ?thesis
    unfolding readResponseFromServer_def finish_response_def
    by (intro look_other stays_rules give write_other setC_other neglected_cache send_still discard_still quiet i) simp_all
qed

lemma sendResponse_still:
  assumes i: "i \<in> L" "i \<noteq> j"
  shows "stays (neglected key j d0 L S) (sendResponseToClient K i)"
  unfolding sendResponseToClient_def sendCachedResponseToClient_def sendUncachedResponseToClient_def
  by (intro stays_rules neglected_cache send_still discard_still quiet i)

lemma handle_other:
  assumes i: "i \<in> L" "i \<noteq> j" and st: "st \<noteq> waiting_for_request"
  shows "stays (neglected key j d0 L S) (handle_state K i revents st)"
  unfolding handle_state_def handle_sending_def
  using st by (cases st) (auto intro!: stays_rules quiet sendRequest_other readStatus_other readResponse_other sendResponse_still
      discard_still i)

section \<open>Events of settled clients\<close>

lemma readResponse_settled:
  assumes i: "i \<in> S" "i \<noteq> j"
  shows "stays (neglected key j d0 L S) (readResponseFromServer K i)"
proof -
  have "stays (neglected key j d0 L S) (finish_response i)"
    unfolding finish_response_def
    by (rule sound_andThen [where R = "\<lambda>_. neglected key j d0 L S"], rule setC_settled [OF i], simp, simp add: settled_def)
      (intro look_settled i, simp add: settled_def quiet)
  then show ?thesis
    unfolding readResponseFromServer_def
    by (intro sound_tryCatch [where Y = "neglected key j d0 L S"] sound_andThen [where R = "\<lambda>_. neglected key j d0 L S"]
        sound_if look_settled quiet discard_still i) (simp_all add: settled_def send_still i)
qed

lemma sendResponse_settled:
  assumes i: "i \<in> S" "i \<noteq> j"
  shows "stays (neglected key j d0 L S) (sendResponseToClient K i)"
proof -
  have "stays (neglected key j d0 L S) (sendUncachedResponseToClient K i)"
    unfolding sendUncachedResponseToClient_def by (intro stays_rules send_still discard_still quiet i)
  then show ?thesis
    unfolding sendResponseToClient_def by (intro look_settled i) (simp add: settled_def)
qed

lemma handle_settled:
  assumes i: "i \<in> S" "i \<noteq> j" and st: "phase st = 4"
  shows "stays (neglected key j d0 L S) (handle_state K i revents st)"
  unfolding handle_state_def handle_sending_def
  using st by (cases st) (auto intro!: stays_rules quiet readResponse_settled sendResponse_settled discard_still i)

section \<open>A client that makes its request\<close>

text \<open>It is in no list yet, and may turn out to make this very request: then it waits, too.\<close>

definition joining :: "string \<Rightarrow> client_id \<Rightarrow> client \<Rightarrow> client_id \<Rightarrow> server \<Rightarrow> bool" where
  "joining key j d0 i s \<longleftrightarrow> neglected key j d0 {} {} s \<and> i \<noteq> j \<and> absent i s \<and>
     (\<forall>d. heap s i = Some d \<longrightarrow> state d = waiting_for_request)"

interpretation joining: ignores_trace "joining key j d0 i" for key j d0 i
  by unfold_locales (simp add: joining_def neglected.trace_update)

lemma joining_setC:
  assumes "\<And>c. client_connection (f c) = client_connection c \<and> state (f c) = state c"
  shows "stays (joining key j d0 i) (setC i f)"
proof -
  have "joining key j d0 i (s\<lparr>heap := (heap s)(i \<mapsto> f c)\<rparr>)" if "joining key j d0 i s" "heap s i = Some c" for s c
    using that assms unfolding joining_def neglected_def unattended_def absent_def by auto
  then show ?thesis by (auto simp: sound_def setC_def split: option.split)
qed

lemma getHttpRequest_joining: "stays (joining key j d0 i) (getHttpRequest K i)"
  unfolding getHttpRequest_def
  by (intro stays_rules quiet joining_setC hoare_sound [OF http_request_new_keeps] hoare_sound [OF toString_keeps]) simp_all

lemma add_other:
  assumes "i \<in> L"
  shows "stays (neglected key j d0 L S) (addToRequestClients i)"
proof -
  have "neglected key j d0 L S (s\<lparr>request_clients_map := (request_clients_map s)(k \<mapsto>
      (case request_clients_map s k of None \<Rightarrow> [] | Some l \<Rightarrow> l) @ [i])\<rparr>)" if "neglected key j d0 L S s" "k \<noteq> key" for s k
    using that assms unfolding neglected_def unattended_def by (cases "request_clients_map s k") auto
  then have "stays (neglected key j d0 L S) (andThen (get (\<lambda>s. request_clients_map s k)) (\<lambda>found. case found of
      Some l \<Rightarrow> map_set k (l @ [i]) | None \<Rightarrow> map_set k [i]))" if "k \<noteq> key" for k
    using that by (fastforce simp: sound_def andThen_def get_def map_set_def modify_def split: option.splits)
  then show ?thesis unfolding addToRequestClients_def by (intro look_other assms) simp
qed

lemma joins:
  assumes s: "joining key j d0 i s" and d: "heap s i = Some d" "request_str d = key"
  shows "\<exists>l. request_clients_map s key = Some l \<and> l \<noteq> [] \<and> lacks key (the_cache s) \<and>
    neglected key j d0 {} {} (s\<lparr>heap := (heap s)(i \<mapsto> d\<lparr>state := waiting_for_response_for_another_client\<rparr>),
      request_clients_map := (request_clients_map s)(key \<mapsto> l @ [i])\<rparr>)"
proof -
  obtain l where l: "request_clients_map s key = Some l" "j \<in> set l"
    using s by (auto simp: joining_def neglected_def)
  have "neglected key j d0 {} {} (s\<lparr>heap := (heap s)(i \<mapsto> d\<lparr>state := waiting_for_response_for_another_client\<rparr>),
      request_clients_map := (request_clients_map s)(key \<mapsto> l @ [i])\<rparr>)"
    using s d l unfolding joining_def neglected_def unattended_def absent_def by (auto simp: waits_def)
  then show ?thesis using l s by (auto simp: joining_def neglected_def unattended_def)
qed

lemma readRequest_joining:
  "sound (joining key j d0 i) (readRequestFromClient K i) (\<lambda>_. neglected key j d0 {} {}) (neglected key j d0 {} {})"
proof -
  let ?N = "neglected key j d0 {} {}"
  let ?at = "\<lambda>k s. joining key j d0 i s \<and> (\<exists>d. heap s i = Some d \<and> request_str d = k)"
  let ?rest = "\<lambda>k. andThen (get (\<lambda>s. contains k (the_cache s))) (\<lambda>cached. andThen (get (hasClientsWithRequest k)) (\<lambda>has.
      andThen (if cached then setClientToGetResponseFromCache i
        else if has then setC i (\<lambda>c. c\<lparr>state := waiting_for_response_for_another_client\<rparr>)
        else prepareForSendingRequest K i) (\<lambda>_. addToRequestClients i)))"
  have rest: "sound (?at k) (?rest k) (\<lambda>_. ?N) ?N" for k
  proof (cases "k = key")
    case True
    show ?thesis
      unfolding sound_def
    proof (intro allI impI)
      fix s assume "?at k s"
      then obtain d where d: "joining key j d0 i s" "heap s i = Some d" "request_str d = key" using True by auto
      show "case ?rest k s of Done a t \<Rightarrow> ?N t | Raise e t \<Rightarrow> ?N t | _ \<Rightarrow> True"
        using joins [OF d] d(2,3) True
        by (auto simp: andThen_def get_def setC_def getC_def hasClientsWithRequest_def addToRequestClients_def map_set_def modify_def)
    qed
  next
    case False
    have "stays (neglected key j d0 {i} {}) (?rest k)"
      by (intro stays_rules quiet setClient_other setC_other prepare_other add_other) simp_all
    then show ?thesis
      by (rule sound_conseq) (use False in \<open>auto simp: joining_def neglected_def\<close>)
  qed
  have str: "sound (joining key j d0 i) (getC i request_str) ?at ?N"
    by (simp add: sound_def getC_def joining_def split: option.split)
  have "sound (joining key j d0 i) (getHttpRequest K i) (\<lambda>_. joining key j d0 i) ?N"
    by (rule sound_conseq [OF getHttpRequest_joining]) (assumption, assumption, simp add: joining_def)
  then have body: "sound (joining key j d0 i) (andThen (getHttpRequest K i) (\<lambda>_. andThen (getC i request_str) ?rest)) (\<lambda>_. ?N) ?N"
    by (rule sound_andThen) (rule sound_andThen [OF str rest])
  show ?thesis
  proof (cases "i = j")
    case True
    then show ?thesis by (simp add: joining_def sound_def)
  next
    case False
    show ?thesis
      unfolding readRequestFromClient_def
      by (rule sound_tryCatch [OF body]) (use False in \<open>simp_all add: discard_still\<close>)
  qed
qed

section \<open>Any event of another client\<close>

lemma event_neglected:
  assumes safe: "safe s" and n: "neglected key j d0 {} {} s" and i: "i \<noteq> j"
    and run: "handleClientSocketEvents K i revents s = Done () t"
  shows "neglected key j d0 {} {} t"
proof -
  let ?N = "neglected key j d0 {} {}"
  let ?body = "if and revents (or POLLERR POLLNVAL) \<noteq> 0 then discardClient K i else andThen (getC i state) (handle_state K i revents)"
  have state: "case andThen (getC i state) (handle_state K i revents) s of Done _ t \<Rightarrow> ?N t | Raise _ t \<Rightarrow> ?N t | _ \<Rightarrow> True"
  proof (cases "heap s i")
    case (Some c)
    let ?goal = "case handle_state K i revents (state c) s of Done _ t \<Rightarrow> ?N t | Raise _ t \<Rightarrow> ?N t | _ \<Rightarrow> True"
    have weaken: "sound (neglected key j d0 L S) m (\<lambda>_. ?N) ?N" if "stays (neglected key j d0 L S) m" for L S and m :: "unit server_act"
      by (rule sound_conseq [OF that]) (auto intro: neglected_weaken)
    consider "state c = waiting_for_request" | "request_str c \<noteq> key" "state c \<noteq> waiting_for_request"
      | "waits c" | "request_str c = key" "settled c"
      using n Some unfolding neglected_def unattended_def by blast
    then have ?goal
    proof cases
      case 1
      have "absent i s" using safe Some 1 unfolding absent_def server_inv_def requests_ok_def by fastforce
      then have "joining key j d0 i s" using n i Some 1 by (simp add: joining_def)
      then show ?thesis using readRequest_joining 1 unfolding sound_def by (simp add: handle_state_def)
    next
      case 2
      then have "neglected key j d0 {i} {} s" using n Some by (simp add: neglected_def)
      then show ?thesis using weaken [OF handle_other [of i "{i}" j "state c" key d0 "{}" K revents]] i 2(2) by (simp add: sound_def)
    next
      case 3
      then show ?thesis using n by (simp add: waits_def handle_state_def ret_def)
    next
      case 4
      then have "neglected key j d0 {} {i} s" "phase (state c) = 4" using n Some by (simp_all add: neglected_def settled_def)
      then show ?thesis using weaken [OF handle_settled [of i "{i}" j "state c" key d0 "{}" K revents]] i by (simp add: sound_def)
    qed
    then show ?thesis using Some by (simp add: andThen_def getC_def)
  qed (simp add: andThen_def getC_def)
  have "case ?body s of Done _ t \<Rightarrow> ?N t | Raise _ t \<Rightarrow> ?N t | _ \<Rightarrow> True"
    using state n discard_still [OF i, of key d0 "{}" "{}" K] by (simp add: sound_def)
  with run show ?thesis
    by (cases "?body s") (auto simp: handleClientSocketEvents_def tryCatch_def ret_def split: if_splits)
qed

section \<open>New connections\<close>

lemma with_client_neglected:
  assumes "safe (with_client fd s)" "server_inv {fd} s" "neglected key j d0 {} {} s"
  shows "neglected key j d0 {} {} (with_client fd s)"
proof -
  let ?m = "next_client s"
  have fresh: "heap s ?m = None" using assms(2) unfolding server_inv_def owners_ok_def by (cases "heap s ?m") fastforce+
  have ne: "?m \<noteq> j" using fresh assms(3) by (auto simp: neglected_def)
  have lists: "?m \<notin> set l" if "request_clients_map s k = Some l" for k l
    using assms(2) fresh that unfolding server_inv_def requests_ok_def by fastforce
  have slots: "slots (with_client fd s) ! nat (client_connection d) \<noteq> Some j"
    if "heap (with_client fd s) m = Some d" "m \<noteq> j" for m d
    using assms(1) that unfolding server_inv_def owners_ok_def by auto
  have "unattended key (with_client fd s)"
    using assms(3) by (auto simp: neglected_def unattended_def with_client_def client_create_def)
  then show ?thesis
    using assms(3) ne lists slots unfolding neglected_def by (auto simp: with_client_def)
qed

lemma accept_neglected:
  assumes K: "kernel_safe K" and safe: "safe s" and n: "neglected key j d0 {} {} s"
    and run: "handleServerSocketEvents K revents s = Done () t"
  shows "neglected key j d0 {} {} t"
proof -
  let ?N = "neglected key j d0 {} {}"
  have "kernel_fresh K" using K by (simp add: kernel_safe_def)
  then have inv: "wp True (socket_accept K (server_socket s)) (\<lambda>fd. server_inv {fd}) (\<lambda>_. safe) s"
    using hoareD [OF socket_accept_keeps] safe by blast
  have keep: "case socket_accept K (server_socket s) s of Done _ t \<Rightarrow> ?N t | Raise _ t \<Rightarrow> ?N t | _ \<Rightarrow> True"
    using neglected.socket_quiet(8) [of key j d0 "{}" "{}" K "server_socket s"] n unfolding sound_def by blast
  have "case server_acceptClient K s of Done _ t \<Rightarrow> ?N t | Raise _ t \<Rightarrow> ?N t | _ \<Rightarrow> True"
  proof (cases "socket_accept K (server_socket s) s")
    case (Done fd u)
    then have "server_inv {fd} u" "?N u" using inv keep by (simp_all add: wp_def)
    then show ?thesis
      using Done clients_acceptClient_run [of fd u] with_client_neglected [of fd u]
      by (auto simp: server_acceptClient_def andThen_def get_def)
  qed (use keep in \<open>simp_all add: server_acceptClient_def andThen_def get_def\<close>)
  then show ?thesis
    using run n
    by (auto simp: handleServerSocketEvents_def tryCatch_def raise_def ret_def split: if_splits outcome.splits)
qed

section \<open>A client that waits is not polled\<close>

lemma client_pollfds_value:
  "client_pollfds c s = Done ps t \<Longrightarrow> t = s \<and> (\<forall>p \<in> set ps. pfd_fd p \<in> set (fds_of c) \<and> \<not> waits c)"
  by (cases "state c"; cases "server_connection c")
    (auto simp: client_pollfds_def Let_def andThen_def assertThat_def call_abort_def ret_def fds_of_def waits_def split: if_splits)

lemma collect_value:
  "case collect_pollfds l s of
     Done ps t \<Rightarrow> t = s \<and> (\<forall>p \<in> set ps. \<exists>m c. heap s m = Some c \<and> pfd_fd p \<in> set (fds_of c) \<and> \<not> waits c) | _ \<Rightarrow> True"
proof (induction l rule: collect_pollfds.induct)
  case (3 i rest)
  show ?case
  proof (cases "heap s i")
    case (Some c)
    then show ?thesis
      using 3 client_pollfds_value [of c s]
      by (cases "client_pollfds c s"; cases "collect_pollfds rest s") (fastforce simp: andThen_def getC_def ret_def)+
  qed (simp add: andThen_def getC_def)
qed (simp_all add: ret_def)

lemma poll_value:
  assumes "server_poll K s = Done pfds t" "p \<in> set pfds"
  shows "pfd_fd p = listen_fd (server_socket s) \<or> (\<exists>m c. heap s m = Some c \<and> pfd_fd p \<in> set (fds_of c) \<and> \<not> waits c)"
proof -
  obtain ps where ps: "collect_pollfds (slots s) s = Done ps s"
    using assms(1) collect_value [where l = "slots s" and s = s]
    by (cases "collect_pollfds (slots s) s")
      (auto simp: server_poll_def server_getPollfds_def clients_getPollfds_def andThen_def get_def)
  have fds: "pfd_fd ` set (filter P (map (\<lambda>(p, r). p\<lparr>pfd_revents := r\<rparr>) (zip qs rs))) \<subseteq> pfd_fd ` set qs"
    for P rs and qs :: "pollfd list"
    by (auto dest: set_zip_leftD)
  obtain qs where qs: "server_getPollfds s = Done qs s" "pfd_fd ` set qs = insert (listen_fd (server_socket s)) (pfd_fd ` set ps)"
    using ps by (simp add: server_getPollfds_def clients_getPollfds_def andThen_def get_def ret_def)
  obtain n rs where k: "k_poll K (trace s) qs = (n, rs)" by (cases "k_poll K (trace s) qs")
  have "n > 0 \<and> pfds = filter (\<lambda>p. pfd_revents p \<noteq> 0) (map (\<lambda>(p, r). p\<lparr>pfd_revents := r\<rparr>) (zip qs rs))"
    using assms qs(1) k
    by (cases "n < 0"; cases "n = 0") (simp_all add: server_poll_def andThen_def get_def ret_def raise_def log_event_def modify_def)
  then have "pfd_fd p \<in> pfd_fd ` set qs" using assms(2) fds [of "\<lambda>p. pfd_revents p \<noteq> 0" qs rs] by blast
  then have "pfd_fd p \<in> insert (listen_fd (server_socket s)) (pfd_fd ` set ps)" using qs(2) by simp
  then show ?thesis using collect_value [where l = "slots s" and s = s] ps by auto
qed

lemma find_client_value:
  "case find_client fd l s of
     Done r t \<Rightarrow> t = s \<and> (\<forall>i. r = Some i \<longrightarrow> (\<exists>c. heap s i = Some c \<and> fd \<in> set (fds_of c))) | _ \<Rightarrow> True"
proof (induction fd l rule: find_client.induct)
  case (3 fd i rest)
  then show ?case by (cases "heap s i") (auto simp: andThen_def getC_def ret_def fds_of_def split: option.split)
qed (simp_all add: ret_def)

lemma getClient_value:
  assumes "safe s" "getClient fd s = Done i t"
  shows "t = s \<and> (\<exists>c. heap s i = Some c \<and> fd \<in> set (fds_of c))"
proof -
  have own: "slots s ! nat fd = Some i \<Longrightarrow> 0 \<le> fd \<Longrightarrow> nat fd < length (slots s) \<Longrightarrow> \<exists>c. heap s i = Some c \<and> fd \<in> set (fds_of c)" for i
    using assms(1) unfolding server_inv_def owners_ok_def fds_of_def by fastforce
  show ?thesis
    using assms(2) own find_client_value [where fd = fd and l = "slots s" and s = s]
    by (cases "find_client fd (slots s) s")
      (auto simp: getClient_def andThen_def get_def ret_def slot_at_def undefined_behaviour_def split: option.splits if_splits)
qed

section \<open>Turns of the event loop\<close>

lemma pollfd_neglected:
  assumes K: "kernel_safe K" and safe: "safe s" and n: "neglected key j d0 {} {} s"
    and fd: "pfd_fd p \<notin> set (fds_of d0)" and run: "handle_pollfd K p s = Done () t"
  shows "safe t \<and> neglected key j d0 {} {} t"
proof
  show "safe t" using hoareD [OF handle_pollfd_preserves [OF K], of s p] safe run by (simp add: wp_def)
  show "neglected key j d0 {} {} t"
  proof (cases "socket_eq (listen_fd (server_socket s)) (pfd_fd p)")
    case True
    then show ?thesis using accept_neglected [OF K safe n] run by (simp add: handle_pollfd_def andThen_def get_def)
  next
    case False
    then obtain i u where i: "getClient (pfd_fd p) s = Done i u" "handleClientSocketEvents K i (pfd_revents p) u = Done () t"
      using run by (cases "getClient (pfd_fd p) s") (simp_all add: handle_pollfd_def andThen_def get_def)
    then have "u = s" "i \<noteq> j" using getClient_value [OF safe i(1)] n fd by (auto simp: neglected_def)
    then show ?thesis using event_neglected [OF safe n] i(2) by blast
  qed
qed

lemma turn_neglected:
  assumes K: "kernel_safe K" and safe: "safe s" and n: "neglected key j d0 {} {} s" and run: "turn K s t"
  shows "safe t \<and> neglected key j d0 {} {} t"
proof -
  obtain pfds u where u: "server_poll K s = Done pfds u" "forEach pfds (handle_pollfd K) u = Done () t"
    using run by (cases "server_poll K s") (simp_all add: turn_def server_iteration_def andThen_def)
  have "waits d0" "heap s j = Some d0" using n by (simp_all add: neglected_def)
  have apart: "set (fds_of c) \<inter> set (fds_of d0) = {}" if "heap s m = Some c" "\<not> waits c" for m c
    using safe that n unfolding server_inv_def fds_ok_def neglected_def by (metis option.inject)
  have "listen_fd (server_socket s) \<notin> set (fds_of d0)"
    using safe \<open>heap s j = Some d0\<close> unfolding server_inv_def fds_ok_def owned_def by blast
  then have fds: "\<forall>p \<in> set pfds. pfd_fd p \<notin> set (fds_of d0)" using poll_value [OF u(1)] apart by fastforce
  have "stays (neglected key j d0 {} {}) (server_poll K)"
  proof -
    have pollfds: "stays (neglected key j d0 {} {}) (client_pollfds c)" for c
      by (cases "state c") (auto simp: client_pollfds_def Let_def intro!: stays_rules quiet)
    have "stays (neglected key j d0 {} {}) (collect_pollfds l)" for l
      by (induction l rule: collect_pollfds.induct) (auto intro!: stays_rules quiet pollfds)
    then show ?thesis
      unfolding server_poll_def server_getPollfds_def clients_getPollfds_def split_def by (intro stays_rules quiet)
  qed
  then have "neglected key j d0 {} {} u" using soundD n u(1) by fastforce
  moreover have "safe u" using hoareD [OF poll_preserves, of s K] safe u(1) by (simp add: wp_def)
  ultimately show ?thesis
    using u(2) fds
  proof (induction pfds arbitrary: u)
    case (Cons p pfds)
    then obtain v where v: "handle_pollfd K p u = Done () v" "forEach pfds (handle_pollfd K) v = Done () t"
      by (cases "handle_pollfd K p u") (simp_all add: andThen_def)
    then have "safe v \<and> neglected key j d0 {} {} v" using pollfd_neglected [OF K Cons.prems(2,1) _ v(1)] Cons.prems(4) by simp
    then show ?case using Cons.IH [of v] v(2) Cons.prems(4) by auto
  qed (simp add: ret_def)
qed

lemma start_neglected:
  assumes "safe s" "heap s j = Some d" "waits d" "unattended (request_str d) s"
    "request_clients_map s (request_str d) = Some l" "j \<in> set l"
  shows "neglected (request_str d) j d {} {} s"
proof -
  have "request_str c = k" if "request_clients_map s k = Some l'" "m \<in> set l'" "heap s m = Some c" for k l' m c
  proof -
    have "requests_ok s" using assms(1) by (simp add: server_inv_def)
    then show ?thesis using that unfolding requests_ok_def by fastforce
  qed
  moreover have "slots s ! nat (client_connection c) = Some m" if "heap s m = Some c" for m c
    using assms(1) that unfolding server_inv_def owners_ok_def by blast
  ultimately have "\<forall>k l. request_clients_map s k = Some l \<longrightarrow> (\<forall>m \<in> set l. \<forall>c. heap s m = Some c \<longrightarrow>
      (request_str c = request_str d \<longleftrightarrow> k = request_str d))"
    "\<forall>m c. heap s m = Some c \<longrightarrow> m \<noteq> j \<longrightarrow> slots s ! nat (client_connection c) \<noteq> Some j"
    by (blast, simp)
  then show ?thesis using assms(2-6) unfolding neglected_def by simp
qed

lemma turns_neglected:
  assumes "kernel_safe K" "rtranclp (turn K) s t" "safe s" "neglected key j d0 {} {} s"
  shows "safe t \<and> neglected key j d0 {} {} t"
  using assms(2-) by (induction rule: rtranclp_induct) (use turn_neglected [OF assms(1)] in blast)+

section \<open>How clients come to be forgotten\<close>

text \<open>The origin hangs up before the client that was to fetch the response has sent the request.\<close>

lemma hangup_unattended:
  assumes K: "kernel_safe K" and safe: "safe s" and c: "heap s i = Some c" "state c = sending_request"
    and l: "request_clients_map s (request_str c) = Some l" and new: "lookup (the_cache s) (request_str c) = None"
    and others: "\<forall>m d. heap s m = Some d \<longrightarrow> m \<noteq> i \<longrightarrow> request_str d = request_str c \<longrightarrow>
      state d \<noteq> waiting_for_request \<longrightarrow> waits d \<or> settled d"
  shows "\<exists>u. handleClientSocketEvents K i POLLHUP s = Done () u \<and> safe u \<and> unattended (request_str c) u \<and>
    heap u = (heap s)(i := None) \<and> request_clients_map u (request_str c) = Some (filter (\<lambda>m. m \<noteq> i) l) \<and>
    trace u = trace s @ map Ev_close (rev (fds_of c)) \<and> slots u = (slots s)[nat (client_connection c) := None] \<and>
    server_socket u = server_socket s"
proof -
  have "state c \<noteq> waiting_response" using c(2) by simp
  then obtain u where u: "discardClient K i s = Done () u" "heap u = (heap s)(i := None)"
    "trace u = trace s @ map Ev_close (rev (fds_of c))" "slots u = (slots s)[nat (client_connection c) := None]"
    "request_clients_map u = (request_clients_map s)(request_str c \<mapsto> filter (\<lambda>m. m \<noteq> i) l)"
    "server_socket u = server_socket s" "abs_cache (the_cache u) = store_disuse (request_str c) (abs_cache (the_cache s))"
    using discardClient_run [OF safe c(1) l, of K] by blast
  have run: "handleClientSocketEvents K i POLLHUP s = Done () u"
    using c u(1) by (simp add: handleClientSocketEvents_def handle_state_def tryCatch_def andThen_def getC_def poll_defs)
  have "safe u" by (rule handler_safe [OF K safe run])
  moreover have "lookup (the_cache u) (request_str c) = None"
    using u(7) new by (simp add: lookup_def)
  moreover from calculation have "lacks (request_str c) (the_cache u)"
    using wf_hash_None [of "the_cache u"] by (simp add: contains_def server_inv_def cache_ok_def)
  moreover have "\<forall>m d. heap u m = Some d \<longrightarrow> request_str d = request_str c \<longrightarrow> state d \<noteq> waiting_for_request \<longrightarrow> waits d \<or> settled d"
    using others u(2) by simp
  ultimately show ?thesis using run u by (intro exI [of _ u]) (simp add: unattended_def)
qed

end
