(* ===== verification/Server_Refused.thy ===== *)
theory Server_Refused
  imports Server_Waiting
begin

text \<open>
  A response with status 200 whose first chunk finds no room in the cache although other clients
  wait for it. At that moment only the client that fetches counts as a user of the new entry, so the
  entry is dropped when it falls back, and falling back fails for the next client of the list.
\<close>

text \<open>What falling back does to a client when the entry is gone.\<close>

definition cut_off :: "client \<Rightarrow> client" where
  "cut_off d = d\<lparr>should_read_from_cache := False, state := getting_response_from_another_client\<rparr>"

lemma fallback_one_gone:
  assumes "cache_ok (the_cache s)" "heap s j = Some d" "lookup (the_cache s) (request_str d) = None"
  shows "fallback_one K chunk j s = Raise KeyNotFoundException (s\<lparr>heap := (heap s)(j \<mapsto> cut_off d)\<rparr>)"
proof -
  have "hash_table (the_cache s) (request_str d) = None"
    using assms(1,3) wf_hash_None by (simp add: cache_ok_def)
  then have "getEntry (request_str d) (the_cache s) = Raise KeyNotFoundException (the_cache s)"
    by (simp add: getEntry_def makeMostRecentlyUsed_def andThen_def)
  then show ?thesis
    using assms(2) by (simp add: fallback_one_def andThen_def getC_def setC_def onCache_def zoom_def cut_off_def)
qed

lemma refused_write:
  assumes ok: "cache_ok (the_cache s)" and fr: "intact (k_freed K)" and ne: "i \<noteq> j"
    and c: "heap s i = Some c" and d: "heap s j = Some d" "request_str d = request_str c"
    and l: "request_clients_map s (request_str c) = Some (i # j # rest)"
    and e: "lookup (the_cache s) (request_str c) = Some new_entry"
    and q: "cache_room (the_cache s) < length q" "length q \<le> MAX_CHUNK_SIZE"
  shows "\<exists>m. writeResponseChunkToCache K i q s = Raise KeyNotFoundException (s\<lparr>the_cache := m,
      heap := (heap s)(i \<mapsto> to_buffer new_entry q c, j \<mapsto> cut_off d)\<rparr>) \<and> cache_ok m \<and> lookup m (request_str c) = None"
proof -
  let ?key = "request_str c"
  have use: "entry_inUse new_entry" "disposable (entry_decrementUse new_entry)" "length q < 2 ^ 64"
    using q(2) by (simp_all add: entry_inUse_def new_entry_def disposable_def entry_decrementUse_def entry_isCompleted_def MAX_CHUNK_SIZE_def)
  obtain m1 where m1: "cache_write (k_freed K) ?key q (the_cache s) = Raise AllInUseException m1" "cache_ok m1"
    "lookup m1 ?key = Some new_entry"
    using cache_write_refused [OF ok fr e use(1) q(1) use(3)] by blast
  obtain m where m: "fallback_one K q i (s\<lparr>the_cache := m1\<rparr>) =
      Done () (s\<lparr>heap := (heap s)(i \<mapsto> to_buffer new_entry q c), the_cache := m\<rparr>)" "cache_ok m" "lookup m ?key = None"
    using fallback_one_run [of "s\<lparr>the_cache := m1\<rparr>" i c ?key new_entry K q] m1(2,3) c use(2) by auto
  let ?t = "s\<lparr>heap := (heap s)(i \<mapsto> to_buffer new_entry q c), the_cache := m\<rparr>"
  have "fallback_one K q j ?t = Raise KeyNotFoundException (?t\<lparr>heap := (heap ?t)(j \<mapsto> cut_off d)\<rparr>)"
    using m(2,3) d ne by (intro fallback_one_gone) simp_all
  then have "forEach (i # j # rest) (fallback_one K q) (s\<lparr>the_cache := m1\<rparr>) =
      Raise KeyNotFoundException (?t\<lparr>heap := (heap ?t)(j \<mapsto> cut_off d)\<rparr>)"
    using m(1) by (simp add: andThen_def)
  with m1(1) c l m(2,3) show ?thesis
    by (intro exI [of _ m]) (simp add: writeResponseChunkToCache_def fallbackToClientBuffer_def andThen_def getC_def tryCatch_def
        onCache_def zoom_def map_at_def del: forEach.simps)
qed

lemma refused_start:
  assumes K: "kernel_safe K" and safe: "safe s"
    and c: "heap s i = Some c" "state c = waiting_response_status_code" "server_connection c = Some fd"
    and d: "heap s j = Some d" "waits d" and l: "request_clients_map s (request_str c) = Some [i, j]"
    and new: "lookup (the_cache s) (request_str c) = None"
    and q: "k_recv K (trace s) fd MAX_CHUNK_SIZE = Some q" "q \<noteq> []" "status_200 q" "cache_room (the_cache s) < length q"
  shows "\<exists>u. handleClientSocketEvents K i POLLIN s = Done () u \<and> heap u = (heap s)(i := None, j \<mapsto> cut_off d) \<and>
    request_clients_map u (request_str c) = Some [j] \<and> lookup (the_cache u) (request_str c) = None"
proof -
  let ?key = "request_str c" let ?c = "c\<lparr>should_write_to_cache := True, should_read_from_cache := True\<rparr>"
  let ?s = "s\<lparr>trace := trace s @ [Ev_recv fd MAX_CHUNK_SIZE (Some q)]\<rparr>"
  have ok: "cache_ok (the_cache s)" and fr: "intact (k_freed K)" using safe K by (simp_all add: server_inv_def kernel_safe_def)
  have ne: "i \<noteq> j" using c(1,2) d by (auto simp: waits_def)
  have str: "request_str d = ?key" using safe l d(1) unfolding server_inv_def requests_ok_def by fastforce
  obtain k1 where k1: "useEntry ?key (the_cache s) = Done () k1" "cache_ok k1" "cache_room k1 = cache_room (the_cache s)"
    "lookup k1 ?key = Some new_entry"
    using useEntry_room [OF ok, of ?key] new by auto
  let ?t1 = "?s\<lparr>heap := (heap s)(i \<mapsto> ?c), the_cache := k1\<rparr>"
  obtain c' where c': "c' = to_buffer new_entry q ?c" by simp
  have own: "request_str c' = ?key" "state c' = getting_response_from_another_client" "fds_of c' = fds_of c"
    by (simp_all add: c' to_buffer_def fds_of_def)
  have twist: "(heap s)(i \<mapsto> ?c, i \<mapsto> c', j \<mapsto> cut_off d) = (heap s)(i \<mapsto> c', j \<mapsto> cut_off d)" by simp
  obtain m where m: "writeResponseChunkToCache K i q ?t1 = Raise KeyNotFoundException (?t1\<lparr>the_cache := m,
      heap := (heap s)(i \<mapsto> c', j \<mapsto> cut_off d)\<rparr>)" "cache_ok m" "lookup m ?key = None"
    using refused_write [of ?t1 K i j ?c d "[]" q] k1 fr ne d(1) str l q(4) chunk_bound [OF K q(1)] twist
    unfolding c' [symmetric] by auto
  let ?t = "?s\<lparr>the_cache := m, heap := (heap s)(i \<mapsto> c', j \<mapsto> cut_off d)\<rparr>"
  have now: "((heap s)(i \<mapsto> c', j \<mapsto> cut_off d)) i = Some c'" using ne by simp
  have body: "readResponseStatusCodeFromServer K i s = andThen (prepareAllWaitingClientsForSending K ?key) (\<lambda>_. discardClient K i) ?t"
    using c q(1-3) k1(1) m(1) own(1) now
    by (simp add: read_status_unfold tryCatch_def readResponseChunk_def server_conn_def receive_def status_code_def status_200_def
        andThen_def getC_def setC_def get_def log_event_def modify_def ret_def onCache_def zoom_def del: fun_upd_apply)
  have skip: "prepareAllWaitingClientsForSending K ?key ?t = Done () ?t"
    using l ne by (simp add: prepareAll_unfold release_def andThen_def map_at_def getC_def ret_def own cut_off_def)
  have lists: "\<forall>k l. request_clients_map s k = Some l \<longrightarrow> (i \<in> set l \<longrightarrow> ?key = k) \<and> (j \<in> set l \<longrightarrow> ?key = k)"
    using safe c(1) d(1) str unfolding server_inv_def requests_ok_def by fastforce
  have "safe ?s" using safe by (intro inv_trace) simp_all
  then have "safe (?s\<lparr>the_cache := m\<rparr>)" using m(2) by (simp add: server_inv_def)
  then have "safe (?s\<lparr>the_cache := m, heap := (heap s)(i \<mapsto> c')\<rparr>)" (is "safe ?v")
    using inv_update [of "{}" "?s\<lparr>the_cache := m\<rparr>" i c c'] c(1) by (simp add: own lists)
  then have "safe (?v\<lparr>heap := (heap ?v)(j \<mapsto> cut_off d)\<rparr>)"
    using d(1) ne by (intro inv_update [of "{}" ?v j d "cut_off d"]) (simp_all add: cut_off_def fds_of_def lists str)
  then have st: "safe ?t" by simp
  obtain u where u: "discardClient K i ?t = Done () u" "heap u = (heap ?t)(i := None)"
    "request_clients_map u = (request_clients_map ?t)(?key \<mapsto> filter (\<lambda>m. m \<noteq> i) [i, j])"
    "abs_cache (the_cache u) = store_disuse ?key (abs_cache m)"
    using discardClient_run [OF st, of i c' "[i, j]" K] ne l by (auto simp: own)
  have "lookup (the_cache u) ?key = None" using u(4) m(3) by (simp add: lookup_def)
  moreover have "handleClientSocketEvents K i POLLIN s = Done () u"
    using c(1,2) body skip u(1)
    by (simp add: handleClientSocketEvents_def handle_state_def tryCatch_def andThen_def getC_def poll_defs)
  ultimately show ?thesis using u(2,3) ne by (intro exI [of _ u]) (auto simp: fun_upd_twist)
qed

text \<open>The client that is left is polled for writing, and every report of it changes nothing.\<close>

lemma cut_off_idle:
  assumes "heap t j = Some (cut_off d)" "chunks d = []"
  shows "handleClientSocketEvents K j POLLOUT t = Done () t"
  using assms
  by (simp add: handleClientSocketEvents_def handle_state_def handle_sending_def sendResponseToClient_def
      sendUncachedResponseToClient_def tryCatch_def andThen_def getC_def ret_def cut_off_def poll_defs)

end
