(* ===== verification/Server_Forward.thy ===== *)
theory Server_Forward
  imports Server_Requests
begin

text \<open>
  A response that is not cached, as one with a status other than 200: the bytes go through the
  queue of chunks of its client. Whatever the sizes of the pieces in which the origin sends and
  the client's socket takes, none is lost, repeated or reordered.
\<close>

fun got_from :: "fd \<Rightarrow> event \<Rightarrow> string" where
  "got_from fd (Ev_recv fd' _ (Some bs)) = (if fd' = fd then bs else [])"
| "got_from fd _ = []"

definition received :: "fd \<Rightarrow> history \<Rightarrow> string" where
  "received fd tr = concat (map (got_from fd) tr)"

lemma received_simps [simp]:
  "received fd (tr @ tr') = received fd tr @ received fd tr'" "received fd [] = []"
  "received fd (e # tr) = got_from fd e @ received fd tr"
  by (simp_all add: received_def)

lemma delivered_simps [simp]: "delivered fd [] = []" "delivered fd (e # tr) = sent_on fd e @ delivered fd tr"
  by (simp_all add: delivered_def)

definition uncached :: "client \<Rightarrow> bool" where
  "uncached c \<longleftrightarrow> (state c = waiting_response \<or> state c = got_response) \<and>
     \<not> should_write_to_cache c \<and> \<not> should_write_to_all c \<and> \<not> should_read_from_cache c"

text \<open>Between two states: what came in is what went out and what is still queued.\<close>

definition passes_on :: "client_id \<Rightarrow> fd \<Rightarrow> server \<Rightarrow> client \<Rightarrow> server \<Rightarrow> client \<Rightarrow> bool" where
  "passes_on i fd s c t d \<longleftrightarrow> heap t i = Some d \<and> uncached d \<and> server_connection d = server_connection c \<and>
     client_connection d = client_connection c \<and> request_str d = request_str c \<and>
     request_clients_map t = request_clients_map s \<and>
     (\<exists>tr. trace t = trace s @ tr \<and>
        delivered (client_connection c) tr @ concat (chunks d) = concat (chunks c) @ received fd tr)"

lemma passes_on_refl: "heap s i = Some c \<Longrightarrow> uncached c \<Longrightarrow> passes_on i fd s c s c"
  by (simp add: passes_on_def)

lemma passes_on_trans:
  assumes "passes_on i fd s c t d" "passes_on i fd t d v e"
  shows "passes_on i fd s c v e"
  using assms by (fastforce simp: passes_on_def)

text \<open>A client that has left: all was delivered, or a call on one of its sockets failed.\<close>

fun call_failed :: "event \<Rightarrow> bool" where
  "call_failed (Ev_recv _ _ None) = True"
| "call_failed (Ev_send _ _ None) = True"
| "call_failed _ = False"

definition has_left :: "client_id \<Rightarrow> fd \<Rightarrow> server \<Rightarrow> client \<Rightarrow> server \<Rightarrow> bool" where
  "has_left i fd s c t \<longleftrightarrow> heap t i = None \<and>
     (\<exists>tr rest. trace t = trace s @ tr \<and> delivered (client_connection c) tr @ rest = concat (chunks c) @ received fd tr \<and>
        (rest = [] \<or> (\<exists>e \<in> set tr. call_failed e)))"

lemma passes_on_left:
  assumes "passes_on i fd s c t d" "has_left i fd t d v"
  shows "has_left i fd s c v"
proof -
  obtain tr where tr: "trace t = trace s @ tr" "client_connection d = client_connection c"
    "delivered (client_connection c) tr @ concat (chunks d) = concat (chunks c) @ received fd tr"
    using assms(1) by (auto simp: passes_on_def)
  obtain tr' rest where tr': "heap v i = None" "trace v = trace t @ tr'"
    "delivered (client_connection d) tr' @ rest = concat (chunks d) @ received fd tr'"
    "rest = [] \<or> (\<exists>e \<in> set tr'. call_failed e)"
    using assms(2) by (auto simp: has_left_def)
  have "delivered (client_connection c) (tr @ tr') @ rest = concat (chunks c) @ received fd (tr @ tr')"
    using tr(2,3) tr'(3) by (metis append.assoc delivered_append received_simps(1))
  then show ?thesis
    using tr(1) tr'(1,2,4) unfolding has_left_def by (intro conjI exI [of _ "tr @ tr'"] exI [of _ rest]) auto
qed

lemma received_closed: "received fd (map Ev_close l) = []" "delivered fd (map Ev_close l) = []"
  by (induction l) simp_all

lemma discard_returns:
  assumes "safe s" "heap s i = Some c" "request_clients_map s (request_str c) = Some [i]"
  shows "\<exists>t. discardClient K i s = Done () t \<and> heap t i = None \<and> trace t = trace s @ map Ev_close (rev (fds_of c))"
  using discardClient_run [OF assms, of K] by auto

lemma safe_log: "safe s \<Longrightarrow> neutral e \<Longrightarrow> safe (s\<lparr>trace := trace s @ [e]\<rparr>)"
  by (rule inv_trace)

lemma safe_setC:
  assumes "safe s" "heap s i = Some c" "harmless f"
  shows "safe (s\<lparr>heap := (heap s)(i \<mapsto> f c)\<rparr>)"
  using hoareD [OF setC_harmless [OF assms(3)] assms(1), of i] assms(2) by (simp add: wp_setC)

section \<open>One event\<close>

lemma readable_step:
  assumes "safe s" "heap s i = Some c" "uncached c" "server_connection c = Some fd" "client_connection c \<noteq> fd"
    "request_clients_map s (request_str c) = Some [i]"
  shows "\<exists>t. handleClientSocketEvents K i POLLIN s = Done () t \<and> (has_left i fd s c t \<or> (\<exists>d. passes_on i fd s c t d))"
proof (cases "state c = waiting_response")
  case False
  then have "handleClientSocketEvents K i POLLIN s = Done () s"
    using assms(2,3) by (auto simp: uncached_def handleClientSocketEvents_def handle_state_def handle_sending_def tryCatch_def
        andThen_def getC_def ret_def poll_defs)
  then show ?thesis using passes_on_refl [OF assms(2,3)] by blast
next
  case st: True
  let ?recv = "k_recv K (trace s) fd MAX_CHUNK_SIZE"
  let ?t = "s\<lparr>trace := trace s @ [Ev_recv fd MAX_CHUNK_SIZE ?recv]\<rparr>"
  note run = handleClientSocketEvents_def handle_state_def handle_sending_def readResponseFromServer_def finish_response_def
    writeResponseChunkToClientBuffer_def tryCatch_def readResponseChunk_def server_conn_def receive_def andThen_def getC_def
    setC_def get_def log_event_def modify_def ret_def raise_def poll_defs
  consider (error) "?recv = None" | (eof) "?recv = Some []" | (data) bs where "?recv = Some bs" "bs \<noteq> []"
    by (cases ?recv) auto
  then show ?thesis
  proof cases
    case error
    obtain v where v: "discardClient K i ?t = Done () v" "heap v i = None" "trace v = trace ?t @ map Ev_close (rev (fds_of c))"
      using discard_returns [OF safe_log [OF assms(1)], of "Ev_recv fd MAX_CHUNK_SIZE ?recv" i c K] assms(2,6) by auto
    then have "handleClientSocketEvents K i POLLIN s = Done () v"
      using assms(2,4) st error by (simp add: run)
    moreover have "has_left i fd s c v"
      using v(2,3) error unfolding has_left_def
      by (intro conjI exI [of _ "Ev_recv fd MAX_CHUNK_SIZE None # map Ev_close (rev (fds_of c))"] exI [of _ "concat (chunks c)"])
        (simp_all add: received_closed)
    ultimately show ?thesis by blast
  next
    case eof
    let ?d = "c\<lparr>state := got_response\<rparr>"
    have "handleClientSocketEvents K i POLLIN s = Done () (?t\<lparr>heap := (heap s)(i \<mapsto> ?d)\<rparr>)"
      using assms(2-4) st eof by (simp add: run uncached_def)
    moreover have "passes_on i fd s c (?t\<lparr>heap := (heap s)(i \<mapsto> ?d)\<rparr>) ?d"
      using assms(3,5) eof by (simp add: passes_on_def uncached_def)
    ultimately show ?thesis by blast
  next
    case data
    let ?d = "c\<lparr>chunks := chunks c @ [bs]\<rparr>"
    have "handleClientSocketEvents K i POLLIN s = Done () (?t\<lparr>heap := (heap s)(i \<mapsto> ?d)\<rparr>)"
      using assms(2-4) st data by (simp add: run uncached_def)
    moreover have "passes_on i fd s c (?t\<lparr>heap := (heap s)(i \<mapsto> ?d)\<rparr>) ?d"
      using assms(3,5) data by (simp add: passes_on_def uncached_def)
    ultimately show ?thesis by blast
  qed
qed

lemma writable_step:
  assumes "safe s" "heap s i = Some c" "uncached c" "server_connection c = Some fd" "client_connection c \<noteq> fd"
    "request_clients_map s (request_str c) = Some [i]"
  shows "\<exists>t. handleClientSocketEvents K i POLLOUT s = Done () t \<and> (has_left i fd s c t \<or> (\<exists>d. passes_on i fd s c t d))"
proof -
  note run = handleClientSocketEvents_def handle_state_def handle_sending_def sendResponseToClient_def
    sendUncachedResponseToClient_def sendToClientFromChunks_def sendToClient_def send_bytes_def tryCatch_def andThen_def
    getC_def setC_def get_def log_event_def modify_def ret_def raise_def poll_defs
  have un: "\<not> should_read_from_cache c" "state c = waiting_response \<or> state c = got_response"
    using assms(3) by (simp_all add: uncached_def)
  show ?thesis
  proof (cases "chunks c")
    case Nil
    show ?thesis
    proof (cases "state c = got_response")
      case True
      obtain v where v: "discardClient K i s = Done () v" "heap v i = None" "trace v = trace s @ map Ev_close (rev (fds_of c))"
        using discard_returns [OF assms(1,2,6), of K] by blast
      then have "handleClientSocketEvents K i POLLOUT s = Done () v"
        using assms(2) un(1) True Nil by (simp add: run)
      moreover have "has_left i fd s c v"
        using v(2,3) Nil unfolding has_left_def
        by (intro conjI exI [of _ "map Ev_close (rev (fds_of c))"] exI [of _ "[]"]) (simp_all add: received_closed)
      ultimately show ?thesis by blast
    next
      case False
      then have "handleClientSocketEvents K i POLLOUT s = Done () s"
        using assms(2) un Nil by (auto simp: run)
      then show ?thesis using passes_on_refl [OF assms(2,3)] by blast
    qed
  next
    case (Cons b bs)
    let ?fd = "client_connection c" let ?send = "k_send K (trace s) (client_connection c) b"
    let ?d0 = "c\<lparr>chunks := bs\<rparr>"
    let ?t = "s\<lparr>heap := (heap s)(i \<mapsto> ?d0), trace := trace s @ [Ev_send ?fd b ?send]\<rparr>"
    show ?thesis
    proof (cases ?send)
      case None
      have "safe (s\<lparr>heap := (heap s)(i \<mapsto> ?d0)\<rparr>)"
        by (rule safe_setC [OF assms(1,2), of "\<lambda>c. c\<lparr>chunks := bs\<rparr>"]) (simp add: harmless_def fds_of_def)
      then have "safe ?t" using safe_log [of "s\<lparr>heap := (heap s)(i \<mapsto> ?d0)\<rparr>" "Ev_send ?fd b ?send"] by simp
      then obtain v where v: "discardClient K i ?t = Done () v" "heap v i = None"
        "trace v = trace ?t @ map Ev_close (rev (fds_of ?d0))"
        using discard_returns [of ?t i ?d0 K] assms(6) by auto
      then have "handleClientSocketEvents K i POLLOUT s = Done () v"
        using assms(2) un Cons None by (auto simp: run)
      moreover have "has_left i fd s c v"
        using v(2,3) None unfolding has_left_def
        by (intro conjI exI [of _ "Ev_send ?fd b None # map Ev_close (rev (fds_of ?d0))"] exI [of _ "concat (chunks c)"])
          (simp_all add: received_closed)
      ultimately show ?thesis by blast
    next
      case (Some n)
      let ?d = "c\<lparr>chunks := (if n = length b then bs else drop n b # bs), sent_bytes := sent_bytes c + n\<rparr>"
      have order: "c\<lparr>sent_bytes := m, chunks := l\<rparr> = c\<lparr>chunks := l, sent_bytes := m\<rparr>" for m l
        by (cases c) simp
      have "handleClientSocketEvents K i POLLOUT s = Done () (?t\<lparr>heap := (heap s)(i \<mapsto> ?d)\<rparr>)"
        using assms(2) un Cons Some by (auto simp: run order)
      moreover have "passes_on i fd s c (?t\<lparr>heap := (heap s)(i \<mapsto> ?d)\<rparr>) ?d"
        using assms(3) Cons Some by (auto simp: passes_on_def uncached_def)
      ultimately show ?thesis by blast
    qed
  qed
qed

section \<open>Any sequence of events\<close>

text \<open>
  Either all the events are handled and the client is still there, or it leaves during one of
  them; in both cases every handler up to that point returns.
\<close>

lemma forward_events:
  assumes "kernel_safe K" "safe s" "heap s i = Some c" "uncached c" "server_connection c = Some fd" "client_connection c \<noteq> fd"
    "request_clients_map s (request_str c) = Some [i]" "set evs \<subseteq> {POLLIN, POLLOUT}"
  shows "\<exists>n t. n \<le> length evs \<and> forEach (take n evs) (handleClientSocketEvents K i) s = Done () t \<and>
    (has_left i fd s c t \<or> n = length evs \<and> (\<exists>d. passes_on i fd s c t d))"
  using assms(2-8)
proof (induction evs arbitrary: s c)
  case Nil
  then show ?case using passes_on_refl [of s i c fd] by (auto simp: ret_def)
next
  case (Cons ev evs)
  have "ev = POLLIN \<or> ev = POLLOUT" using Cons.prems(7) by auto
  then obtain v where v: "handleClientSocketEvents K i ev s = Done () v"
    "has_left i fd s c v \<or> (\<exists>e. passes_on i fd s c v e)"
    using readable_step [OF Cons.prems(1-6), of K] writable_step [OF Cons.prems(1-6), of K] by blast
  have "safe v"
    using hoareD [OF handleClient_preserves [OF assms(1)] Cons.prems(1), of i ev] v(1) by (simp add: wp_def)
  from v(2) show ?case
  proof
    assume "has_left i fd s c v"
    then show ?thesis using v(1) by (intro exI [of _ 1] exI [of _ v]) (simp add: andThen_def ret_def)
  next
    assume "\<exists>e. passes_on i fd s c v e"
    then obtain e where e: "passes_on i fd s c v e" ..
    then have "heap v i = Some e" "uncached e" "server_connection e = Some fd" "client_connection e \<noteq> fd"
      "request_clients_map v (request_str e) = Some [i]"
      using Cons.prems(4-6) by (simp_all add: passes_on_def)
    then obtain n t where n: "n \<le> length evs" "forEach (take n evs) (handleClientSocketEvents K i) v = Done () t"
      "has_left i fd v e t \<or> n = length evs \<and> (\<exists>d. passes_on i fd v e t d)"
      using Cons.IH [OF \<open>safe v\<close>] Cons.prems(7) by auto
    have "has_left i fd s c t \<or> n = length evs \<and> (\<exists>d. passes_on i fd s c t d)"
      using n(3) passes_on_left [OF e] passes_on_trans [OF e] by blast
    then show ?thesis
      using n(1,2) v(1) by (intro exI [of _ "Suc n"] exI [of _ t]) (simp add: andThen_def)
  qed
qed

end
