(* ===== verification/Server_Examples.thy ===== *)
theory Server_Examples
  imports Server_Miss Server_Turns Server_Neglect Server_Refused
begin

text \<open>
  A small world in which the hypotheses of the proxy's theorems hold: a kernel that gives out
  fresh descriptors, takes at most three bytes per \<open>send\<close> and reports every event asked for,
  and a server with a client in each state of interest.
\<close>

section \<open>A kernel\<close>

definition fresh_fd :: "history \<Rightarrow> fd" where
  "fresh_fd tr = foldr max (open_fds tr) 2 + 1"

lemma foldr_max_bound: "x \<in> set l \<Longrightarrow> (x::int) \<le> foldr max l a" "(a::int) \<le> foldr max l a"
  by (induction l) (auto simp: le_max_iff_disj)

lemma fresh_fd: "fresh_fd tr \<notin> set (open_fds tr)" "2 < fresh_fd tr"
  using foldr_max_bound(1) [of _ "open_fds tr" 2] foldr_max_bound(2) [of 2 "open_fds tr"]
  by (fastforce simp: fresh_fd_def)+

definition demo_request :: string where
  "demo_request = render_request ''GET'' (render_url ''http'' ''a'' None ''x'' None None) 1 0 []"

definition demo_key :: string where
  "demo_key = render_request ''GET'' ''/x'' 1 0 [] @ CRLF"

lemma digit_chars: "digit_char 0 = CHR ''0''" "digit_char (Suc 0) = CHR ''1''"
  by code_simp+

lemma demo_texts:
  "demo_request = ''GET http://a/x HTTP/1.0'' @ CRLF @ CRLF" "demo_key = ''GET /x HTTP/1.0'' @ CRLF @ CRLF @ CRLF"
  by (simp_all add: demo_request_def demo_key_def render_request_def render_url_def render_port_def render_tail_def
      show_nat.simps digit_chars CRLF_def)

text \<open>Descriptor 4 receives a request, 10 a reset, 12 a cut status line, 14 a bad one, others the end.\<close>

definition demo_recv :: "fd \<Rightarrow> nat \<Rightarrow> string option" where
  "demo_recv fd n =
     (if fd = 4 then Some (take n demo_request) else if fd = 10 then None
      else if fd = 12 then Some (take n ''HTTP/1.0'') else if fd = 14 then Some (take n ''HTTP/1.0 abc'')
      else Some [])"

definition demo_kernel :: kernel where
  "demo_kernel = \<lparr>k_socket = (\<lambda>tr _ _ _. fresh_fd tr), k_connect = (\<lambda>_ _ _. True),
     k_getaddrinfo = (\<lambda>_ _ _. Some [\<lparr>ai_family = AF_INET, ai_socktype = SOCK_STREAM, ai_protocol = 0, ai_addr = ''h''\<rparr>]),
     k_send = (\<lambda>_ _ bs. Some (min 3 (length bs))), k_recv = (\<lambda>_. demo_recv),
     k_shutdown = (\<lambda>_ _. True), k_setsockopt = (\<lambda>_ _. True), k_bind = (\<lambda>_ _ _. True), k_listen = (\<lambda>_ _ _. True),
     k_accept = (\<lambda>tr _. fresh_fd tr),
     k_poll = (\<lambda>_ pfds. (int (length (filter (\<lambda>r. r \<noteq> 0) (map pfd_events pfds))), map pfd_events pfds)),
     k_strerror = (\<lambda>_. ''error''), k_stack = (\<lambda>_. zeros MAX_REQUEST_SIZE), k_freed = Some,
     k_stopped = (\<lambda>tr. 100 < length tr)\<rparr>"

lemma demo_kernel_simps [simp]:
  "k_recv demo_kernel tr = demo_recv" "k_send demo_kernel tr fd bs = Some (min 3 (length bs))"
  "k_stack demo_kernel tr = zeros MAX_REQUEST_SIZE" "k_freed demo_kernel = Some"
  "k_accept demo_kernel tr fd = fresh_fd tr" "k_socket demo_kernel tr d t p = fresh_fd tr"
  "k_bind demo_kernel tr fd a" "k_listen demo_kernel tr fd n" "k_setsockopt demo_kernel tr fd"
  "k_getaddrinfo demo_kernel tr h a = Some [\<lparr>ai_family = AF_INET, ai_socktype = SOCK_STREAM, ai_protocol = 0, ai_addr = ''h''\<rparr>]"
  by (simp_all add: demo_kernel_def)

lemma demo_kernel_safe: "kernel_safe demo_kernel"
proof -
  have "INVALID_SOCKET_FD < fresh_fd tr" for tr using fresh_fd(2) [of tr] by (simp add: INVALID_SOCKET_FD_def)
  then have "0 \<le> fresh_fd tr" for tr using fresh_fd(2) [of tr] by simp
  then show ?thesis
    using fresh_fd(1)
    by (simp add: kernel_safe_def kernel_ok_def kernel_fresh_def intact_def poll_ok_def demo_recv_def demo_kernel_def
        split: if_splits)
qed

text \<open>
  Another one: the origin servers of descriptors 10, 12 and 15 send chunks, then close; 15 takes
  all it is sent; descriptor 4 receives a request for something else.
\<close>

definition other_request :: string where
  "other_request = render_request ''GET'' (render_url ''http'' ''b'' None ''y'' None None) 1 0 []"

definition other_key :: string where
  "other_key = render_request ''GET'' ''/y'' 1 0 [] @ CRLF"

lemma other_texts:
  "other_request = ''GET http://b/y HTTP/1.0'' @ CRLF @ CRLF" "other_key = ''GET /y HTTP/1.0'' @ CRLF @ CRLF @ CRLF"
  by (simp_all add: other_request_def other_key_def render_request_def render_url_def render_port_def render_tail_def
      show_nat.simps digit_chars CRLF_def)

definition stream_of :: "fd \<Rightarrow> string list" where
  "stream_of fd = (if fd = 4 then [other_request] else if fd = 10 then [''hello'']
     else if fd = 12 \<or> fd = 15 then [''HTTP/1.0 200 OK'', ''ab''] else [])"

definition stream_recv :: "history \<Rightarrow> fd \<Rightarrow> nat \<Rightarrow> string option" where
  "stream_recv tr fd n =
     Some (if receipts fd tr < length (stream_of fd) then take n (stream_of fd ! receipts fd tr) else [])"

definition stream_kernel :: kernel where
  "stream_kernel = demo_kernel\<lparr>k_recv := stream_recv,
     k_send := (\<lambda>_ fd bs. Some (if fd = 15 then length bs else min 3 (length bs)))\<rparr>"

lemma stream_kernel_simps [simp]:
  "k_recv stream_kernel = stream_recv" "k_shutdown stream_kernel tr fd" "k_connect stream_kernel tr fd a"
  "k_send stream_kernel tr fd bs = Some (if fd = 15 then length bs else min 3 (length bs))"
  "k_stack stream_kernel tr = zeros MAX_REQUEST_SIZE" "k_freed stream_kernel = Some" "k_socket stream_kernel tr d t p = fresh_fd tr"
  "k_getaddrinfo stream_kernel tr h a = Some [\<lparr>ai_family = AF_INET, ai_socktype = SOCK_STREAM, ai_protocol = 0, ai_addr = ''h''\<rparr>]"
  by (simp_all add: stream_kernel_def demo_kernel_def)

lemma stream_kernel_safe: "kernel_safe stream_kernel"
  using demo_kernel_safe
  by (simp add: stream_kernel_def kernel_safe_def kernel_ok_def kernel_fresh_def poll_ok_def stream_recv_def)

section \<open>A server\<close>

definition demo_client :: "fd \<Rightarrow> fd option \<Rightarrow> client_state \<Rightarrow> string \<Rightarrow> client" where
  "demo_client fd server_fd st str =
     (client_create fd)\<lparr>server_connection := server_fd, state := st, request_str := str,
       should_read_from_cache := (st = got_response)\<rparr>"

definition demo_clients :: "client list" where
  "demo_clients =
     [demo_client 4 None waiting_for_request [],
      demo_client 5 (Some 6) sending_request ''r'',
      demo_client 7 None waiting_for_response_for_another_client ''r'',
      demo_client 8 None got_response demo_key,
      demo_client 9 (Some 10) waiting_response ''w'',
      demo_client 11 (Some 12) waiting_response_status_code ''q'',
      demo_client 13 (Some 14) waiting_response_status_code ''p'']"

definition demo_entry :: entry where
  "demo_entry = \<lparr>buffer = ''abcd'', completed = True, in_use = 1\<rparr>"

definition demo_server :: server where
  "demo_server = \<lparr>
     trace = [Ev_socket 3, Ev_accept 3 4, Ev_accept 3 5, Ev_socket 6, Ev_accept 3 7, Ev_accept 3 8, Ev_accept 3 9,
       Ev_socket 10, Ev_accept 3 11, Ev_socket 12, Ev_accept 3 13, Ev_socket 14],
     slots = [None, None, None, None, Some 0, Some 1, None, Some 2, Some 3, Some 4, None, Some 5, None, Some 6, None],
     heap = (\<lambda>i. if i < 7 then Some (demo_clients ! i) else None), next_client = 7,
     server_socket = \<lparr>listen_fd = 3, listen_port = 8080\<rparr>,
     the_cache = \<lparr>max_size = MAX_CACHE_SIZE, current_size = 4,
       lru_list = [\<lparr>it = 0, node_key = demo_key, node_entry = demo_entry\<rparr>], hash_table = [demo_key \<mapsto> 0], next_it = 1\<rparr>,
     request_clients_map = [''r'' \<mapsto> [1, 2], demo_key \<mapsto> [3], ''w'' \<mapsto> [4], ''q'' \<mapsto> [5], ''p'' \<mapsto> [6]],
     is_running = True\<rparr>"

lemma less_7: "i < (7::nat) \<longleftrightarrow> i \<in> {0, 1, 2, 3, 4, 5, 6}"
  by auto

lemma demo_heap:
  "heap demo_server i = Some c \<longleftrightarrow> i < 7 \<and> c = demo_clients ! i"
  by (auto simp: demo_server_def)

lemma demo_fds:
  "map fds_of demo_clients = [[4], [5, 6], [7], [8], [9, 10], [11, 12], [13, 14]]"
  by (simp add: demo_clients_def demo_client_def fds_of_def client_create_def)

lemma demo_client_simps [simp]:
  "request_str (demo_client fd sfd st str) = str" "client_connection (demo_client fd sfd st str) = fd"
  "server_connection (demo_client fd sfd st str) = sfd" "state (demo_client fd sfd st str) = st"
  "sent_bytes (demo_client fd sfd st str) = 0" "chunks (demo_client fd sfd st str) = []"
  "should_read_from_cache (demo_client fd sfd st str) = (st = got_response)"
  "unserved (demo_client fd sfd st str) \<longleftrightarrow> st \<noteq> got_response"
  by (simp_all add: demo_client_def client_create_def unserved_def)

lemma demo_clients_nth [simp]:
  "demo_clients ! 0 = demo_client 4 None waiting_for_request []"
  "demo_clients ! 1 = demo_client 5 (Some 6) sending_request ''r''"
  "demo_clients ! Suc 0 = demo_client 5 (Some 6) sending_request ''r''"
  "demo_clients ! 2 = demo_client 7 None waiting_for_response_for_another_client ''r''"
  "demo_clients ! 3 = demo_client 8 None got_response demo_key"
  "demo_clients ! 4 = demo_client 9 (Some 10) waiting_response ''w''"
  "demo_clients ! 5 = demo_client 11 (Some 12) waiting_response_status_code ''q''"
  "demo_clients ! 6 = demo_client 13 (Some 14) waiting_response_status_code ''p''"
  by (simp_all add: demo_clients_def)

lemma demo_owners: "owners_ok demo_server"
proof -
  have "\<forall>n<15. \<forall>i. slots demo_server ! n = Some i \<longrightarrow> i < 7 \<and> client_connection (demo_clients ! i) = int n"
    by (simp add: numeral_eq_Suc All_less_Suc demo_server_def demo_clients_def)
  moreover have "\<forall>i<7. 0 \<le> client_connection (demo_clients ! i) \<and> nat (client_connection (demo_clients ! i)) < 15 \<and>
      slots demo_server ! nat (client_connection (demo_clients ! i)) = Some i"
    by (auto simp: less_7 demo_server_def)
  moreover have "length (slots demo_server) = 15" "next_client demo_server = 7"
    by (simp_all add: demo_server_def)
  ultimately show ?thesis
    unfolding owners_ok_def demo_heap by auto
qed

lemma demo_owned: "owned demo_server = {4, 5, 6, 7, 8, 9, 10, 11, 12, 13, 14}"
proof -
  have "owned demo_server = (\<Union>i \<in> {i. i < 7}. set (fds_of (demo_clients ! i)))"
    unfolding owned_def demo_heap by blast
  also have "{i. i < 7} = {0, 1, 2, 3, 4, 5, 6 :: nat}" by (auto simp: less_7)
  finally show ?thesis by (simp add: fds_of_def insert_commute)
qed

lemma demo_listen [simp]: "listen_fd (server_socket demo_server) = 3"
  by (simp add: demo_server_def)

lemma demo_fds_disjoint:
  "\<forall>i<7. distinct (fds_of (demo_clients ! i)) \<and>
     (\<forall>j<7. i \<noteq> j \<longrightarrow> set (fds_of (demo_clients ! i)) \<inter> set (fds_of (demo_clients ! j)) = {})"
  by (simp add: less_7 fds_of_def)

lemma demo_fds_ok: "fds_ok {} demo_server"
proof -
  have "open_fds (trace demo_server) = [14, 13, 12, 11, 10, 9, 8, 7, 6, 5, 4, 3]"
    by (simp add: demo_server_def open_fds_def socket_isValid_def INVALID_SOCKET_FD_def)
  then have "set (open_fds (trace demo_server)) = insert 3 ({} \<union> owned demo_server)"
    by (simp add: demo_owned insert_commute)
  then show ?thesis
    unfolding fds_ok_def demo_heap demo_listen using demo_fds_disjoint
    by (auto simp: demo_owned INVALID_SOCKET_FD_def)
qed

lemma demo_requests_ok: "requests_ok demo_server"
  unfolding requests_ok_def demo_heap by (auto simp: demo_server_def)

lemma demo_cache_ok: "cache_ok (the_cache demo_server)"
  by (auto simp: demo_server_def cache_ok_def cache_wf_def total_bytes_def entry_size_def demo_entry_def MAX_CACHE_SIZE_def)

lemma demo_server_safe: "safe demo_server"
  using demo_owners demo_fds_ok demo_requests_ok demo_cache_ok by (simp add: server_inv_def)

lemma demo_lookup: "lookup (the_cache demo_server) k = (if k = demo_key then Some demo_entry else None)"
  by (simp add: demo_server_def lookup_def abs_cache_def abs_nodes_def)

section \<open>Runs\<close>

lemma CRLF_chars: "CRLF = [CHR 0x0D, CHR 0x0A]"
  by (simp add: CRLF_def)

text \<open>The request of client 0 arrives in one piece.\<close>

lemma demo_delivers: "delivers demo_kernel 4 tr [demo_request]"
  by (simp add: delivers_def demo_recv_def demo_texts CRLF_chars has_null_def BUFSIZ_def MAX_REQUEST_SIZE_def)

text \<open>The same server with nothing cached, and a client already waiting for the request.\<close>

definition demo_server2 :: server where
  "demo_server2 = demo_server\<lparr>the_cache := cache_create MAX_CACHE_SIZE\<rparr>"

lemma demo_server2_safe: "safe demo_server2"
  unfolding demo_server2_def by (rule safe_cache [OF demo_server_safe cache_create_ok])

lemma demo_lookup2: "lookup (the_cache demo_server2) k = None"
  by (simp add: demo_server2_def cache_create_def lookup_def abs_cache_def abs_nodes_def)

lemma demo_accepts: "accepts_data demo_kernel fd"
  by (auto simp: accepts_data_def)

lemma demo_request_ok:
  "url_parts_ok ''http'' ''a'' None ''x'' None"
  "request_parts_ok ''GET'' (render_url ''http'' ''a'' None ''x'' None None) 1 0 []" "\<not> takes_body ''GET''"
  by (simp_all add: url_parts_ok_def scheme_char_def host_char_def isUnreserved_def ctype_defs request_parts_ok_def
      render_url_def render_port_def render_tail_def uri_ok_def uri_char_def path_char_def version_ok_def INT_MAX_def
      takes_body_def isToken_def isChar_code isControl_code isSpecial_def)

lemma demo_lists:
  "request_clients_map demo_server ''r'' = Some [1, 2]" "request_clients_map demo_server demo_key = Some [3]"
  "request_clients_map demo_server ''w'' = Some [4]" "delivered 8 (trace demo_server) = []"
  by (simp_all add: demo_server_def demo_texts delivered_def)

lemma other_delivers:
  "receipts 4 tr = 0 \<Longrightarrow> delivers stream_kernel 4 tr [other_request]"
  by (simp add: delivers_def stream_recv_def stream_of_def other_texts CRLF_chars has_null_def BUFSIZ_def MAX_REQUEST_SIZE_def)

lemma other_request_ok:
  "url_parts_ok ''http'' ''b'' None ''y'' None"
  "request_parts_ok ''GET'' (render_url ''http'' ''b'' None ''y'' None None) 1 0 []"
  by (simp_all add: url_parts_ok_def scheme_char_def host_char_def isUnreserved_def ctype_defs request_parts_ok_def
      render_url_def render_port_def render_tail_def uri_ok_def uri_char_def path_char_def version_ok_def INT_MAX_def
      isToken_def isChar_code isControl_code isSpecial_def)

text \<open>What happens before the origin is asked.\<close>

definition asking_trace :: history where
  "asking_trace = trace demo_server @ recv_events 4 [other_request]"

definition asked_trace :: history where
  "asked_trace = asking_trace @ [Ev_getaddrinfo (Some ''b'') ''80'' (Some [\<lparr>ai_family = AF_INET, ai_socktype = SOCK_STREAM,
     ai_protocol = 0, ai_addr = ''h''\<rparr>]), Ev_socket 15, Ev_connect 15 ''h'' True]"

lemma demo_receipts: "receipts 4 (trace demo_server) = 0"
  by (simp add: receipts_def demo_server_def)

lemma other_lookup: "lookup (the_cache demo_server) other_key = None" "\<not> hasClientsWithRequest other_key demo_server"
proof -
  have "other_key \<noteq> demo_key" by (simp add: other_texts demo_texts)
  then show "lookup (the_cache demo_server) other_key = None" by (simp add: demo_lookup)
  show "\<not> hasClientsWithRequest other_key demo_server"
    using \<open>other_key \<noteq> demo_key\<close> by (simp add: hasClientsWithRequest_def demo_server_def) (simp add: other_texts)
qed

lemma asking_open: "fresh_fd (asking_trace @ [Ev_getaddrinfo h a r]) = 15"
  by (simp add: asking_trace_def fresh_fd_def open_fds_def recv_events_def demo_server_def socket_isValid_def INVALID_SOCKET_FD_def)

lemma demo_room: "n \<le> 1000 \<Longrightarrow> n \<le> cache_room (the_cache demo_server)"
  by (simp add: cache_room_def demo_server_def abs_cache_def abs_nodes_def MAX_CACHE_SIZE_def)

lemma asked_attempts:
  "attempts stream_kernel [\<lparr>ai_family = AF_INET, ai_socktype = SOCK_STREAM, ai_protocol = 0, ai_addr = ''h''\<rparr>]
     (asking_trace @ [Ev_getaddrinfo (Some ''b'') ''80'' (Some [\<lparr>ai_family = AF_INET, ai_socktype = SOCK_STREAM,
        ai_protocol = 0, ai_addr = ''h''\<rparr>])]) = (asked_trace, Some 15)"
  by (simp add: Let_def asking_open asked_trace_def socket_isValid_def INVALID_SOCKET_FD_def)

lemma asked_streams:
  "streams stream_kernel 15 (asked_trace @ [Ev_send 15 other_key (Some n), Ev_shutdown 15 True]) [''HTTP/1.0 200 OK'', ''ab'']"
  by (simp add: stream_recv_def stream_of_def receipts_def asked_trace_def asking_trace_def recv_events_def demo_server_def
      MAX_CHUNK_SIZE_def)

lemma status_line_200: "status_200 ''HTTP/1.0 200 OK''"
  by code_simp

text \<open>A run: the constructor, \<open>listen\<close>, a call of \<open>poll\<close>, and the first client is accepted.\<close>

definition demo_listening :: server where
  "demo_listening = \<lparr>trace = [Ev_socket 3, Ev_setsockopt 3 True, Ev_setsockopt 3 True,
       Ev_getaddrinfo None ''8080'' (Some [\<lparr>ai_family = AF_INET, ai_socktype = SOCK_STREAM, ai_protocol = 0, ai_addr = ''h''\<rparr>]),
       Ev_bind 3 ''h'' True, Ev_listen 3 5 True],
     slots = replicate 30 None, heap = Map.empty, next_client = 0,
     server_socket = \<lparr>listen_fd = 3, listen_port = 8080\<rparr>, the_cache = cache_create MAX_CACHE_SIZE,
     request_clients_map = Map.empty, is_running = True\<rparr>"

definition demo_polled :: server where
  "demo_polled = demo_listening\<lparr>trace := trace demo_listening @
     [Ev_poll [\<lparr>pfd_fd = 3, pfd_events = POLLIN, pfd_revents = 0\<rparr>] 1 [POLLIN]]\<rparr>"

definition demo_accepted :: server where
  "demo_accepted = demo_polled\<lparr>trace := trace demo_polled @ [Ev_accept 3 4],
     slots := (replicate 30 None)[4 := Some 0], heap := [0 \<mapsto> client_create 4], next_client := 1\<rparr>"

lemma demo_port: "show_nat 8080 = ''8080''"
proof -
  have "digit_char 8 = CHR ''8''" by code_simp
  then show ?thesis
    by (simp add: show_nat.simps [of 8080] show_nat.simps [of 808] show_nat.simps [of 80] show_nat.simps [of 8] digit_chars)
qed

lemma demo_fresh:
  "fresh_fd [] = 3" "fresh_fd (trace demo_polled) = 4"
  by (simp_all add: fresh_fd_def open_fds_def demo_polled_def demo_listening_def socket_isValid_def INVALID_SOCKET_FD_def)

lemma demo_started: "loop_reach demo_kernel 8080 64 [] demo_listening"
proof -
  let ?n = "\<lparr>trace = butlast (trace demo_listening)\<rparr>"
  have ps: "passive_create demo_kernel 8080 \<lparr>trace = []\<rparr> = Done (server_socket demo_listening) ?n"
    by (simp add: passive_create_def tcp_socket_def onException_def tryCatch_def set_reuse_def getaddrinfo_def andThen_def
        get_def log_event_def modify_def ret_def demo_fresh demo_port INVALID_SOCKET_FD_def demo_listening_def)
  let ?s = "demo_listening\<lparr>trace := butlast (trace demo_listening), is_running := False\<rparr>"
  have new: "server_new demo_kernel 8080 64 \<lparr>trace = []\<rparr> = Done ?s ?n"
    using ps by (simp add: server_new_def ClientsList_def calculateMaximumClients_def andThen_def ret_def get_def
        demo_listening_def)
  have listen: "socket_listen demo_kernel (server_socket ?s) PENDING_CONNECTIONS_QUEUE_LEN ?s =
      Done () (demo_listening\<lparr>is_running := False\<rparr>)"
    by (simp add: socket_listen_def andThen_def get_def log_event_def modify_def ret_def
        demo_listening_def PENDING_CONNECTIONS_QUEUE_LEN_def)
  from loop_reach.started [OF new listen] show ?thesis by (simp add: demo_listening_def)
qed

lemma collect_none: "collect_pollfds (replicate n None) s = Done [] s"
  by (induction n) (simp_all add: ret_def)

lemma demo_accepted_reach: "loop_reach demo_kernel 8080 64 [] demo_accepted"
proof -
  let ?p = "\<lparr>pfd_fd = 3, pfd_events = POLLIN, pfd_revents = POLLIN\<rparr>"
  have "slots demo_listening = replicate 30 None" by (simp add: demo_listening_def)
  then have "server_getPollfds demo_listening = Done [?p\<lparr>pfd_revents := 0\<rparr>] demo_listening"
    by (simp add: server_getPollfds_def clients_getPollfds_def andThen_def get_def ret_def collect_none)
      (simp add: demo_listening_def)
  then have "server_poll demo_kernel demo_listening = Done [?p] demo_polled"
    by (simp add: server_poll_def andThen_def get_def log_event_def modify_def demo_polled_def poll_defs)
      (simp add: demo_kernel_def ret_def poll_defs)
  moreover have "is_running demo_listening" "\<not> k_stopped demo_kernel (trace demo_listening)"
    by (simp_all add: demo_listening_def demo_kernel_def)
  ultimately have polled: "loop_reach demo_kernel 8080 64 [?p] demo_polled"
    using loop_reach.polled [OF demo_started] by blast
  have fields: "listen_fd (server_socket demo_polled) = 3" "next_client demo_polled = 0" "heap demo_polled = Map.empty"
    "slots demo_polled = replicate 30 None"
    by (simp_all add: demo_polled_def demo_listening_def)
  have "handle_pollfd demo_kernel ?p demo_polled = Done () demo_accepted"
    by (simp add: handle_pollfd_def socket_eq_def handleServerSocketEvents_def server_acceptClient_def socket_accept_def
        clients_acceptClient_def assign_slot_def slot_at_def tryCatch_def andThen_def get_def log_event_def modify_def
        ret_def poll_defs fields demo_fresh INVALID_SOCKET_FD_def demo_accepted_def)
  with polled show ?thesis by (rule loop_reach.handled)
qed

lemma demo_accepted_client: "heap demo_accepted 0 = Some (client_create 4)"
  by (simp add: demo_accepted_def)

text \<open>A table for four descriptors, all of them taken.\<close>

definition demo_full :: server where
  "demo_full = demo_listening\<lparr>slots := replicate 4 None, trace := trace demo_listening @
     [Ev_socket 10, Ev_socket 11]\<rparr>"

lemma demo_full_values:
  "ClientsList 12 () = Done (slots demo_full) ()" "fresh_fd (trace demo_full) = 12" "listen_fd (server_socket demo_full) = 3"
  by (simp_all add: demo_full_def demo_listening_def ClientsList_def calculateMaximumClients_def ret_def fresh_fd_def
      open_fds_def socket_isValid_def INVALID_SOCKET_FD_def)

text \<open>A turn in which \<open>poll\<close> reports one event: the origin of client 1 can be sent the request.\<close>

definition poll_kernel :: kernel where
  "poll_kernel = demo_kernel\<lparr>k_poll := (\<lambda>_ pfds. (1, map (\<lambda>p. if pfd_fd p = 6 then POLLOUT else 0) pfds))\<rparr>"

definition demo_asked :: server where
  "demo_asked = (let p = (\<lambda>fd ev. \<lparr>pfd_fd = fd, pfd_events = ev, pfd_revents = 0\<rparr>) in
     demo_server\<lparr>trace := trace demo_server @ [Ev_poll [p 4 POLLIN, p 6 POLLOUT, p 8 POLLOUT, p 10 POLLIN, p 9 POLLOUT,
         p 12 POLLIN, p 14 POLLIN, p 3 POLLIN] 1 [0, POLLOUT, 0, 0, 0, 0, 0, 0], Ev_send 6 ''r'' (Some 1), Ev_shutdown 6 True],
       heap := (heap demo_server)(1 \<mapsto> demo_client 5 (Some 6) waiting_response_status_code ''r'')\<rparr>)"

lemma demo_turn: "server_iteration poll_kernel demo_server = Done () demo_asked"
proof -
  let ?p = "\<lambda>fd ev rev. \<lparr>pfd_fd = fd, pfd_events = ev, pfd_revents = rev\<rparr>"
  let ?fds = "[?p 4 POLLIN 0, ?p 6 POLLOUT 0, ?p 8 POLLOUT 0, ?p 10 POLLIN 0, ?p 9 POLLOUT 0, ?p 12 POLLIN 0, ?p 14 POLLIN 0]"
  let ?s = "demo_server\<lparr>trace := trace demo_server @ [Ev_poll (?fds @ [?p 3 POLLIN 0]) 1 [0, POLLOUT, 0, 0, 0, 0, 0, 0]]\<rparr>"
  have heap: "heap demo_server 0 = Some (demo_clients ! 0)" "heap demo_server 1 = Some (demo_clients ! 1)"
    "heap demo_server (Suc 0) = Some (demo_clients ! 1)" "heap demo_server 2 = Some (demo_clients ! 2)"
    "heap demo_server 3 = Some (demo_clients ! 3)" "heap demo_server 4 = Some (demo_clients ! 4)"
    "heap demo_server 5 = Some (demo_clients ! 5)" "heap demo_server 6 = Some (demo_clients ! 6)"
    by (simp_all add: demo_heap)
  have slots: "slots demo_server =
      [None, None, None, None, Some 0, Some 1, None, Some 2, Some 3, Some 4, None, Some 5, None, Some 6, None]"
    by (simp add: demo_server_def)
  have "server_getPollfds demo_server = Done (?fds @ [?p 3 POLLIN 0]) demo_server"
    by (simp add: server_getPollfds_def clients_getPollfds_def slots client_pollfds_def assertThat_def andThen_def get_def
        getC_def ret_def heap)
  then have poll: "server_poll poll_kernel demo_server = Done [?p 6 POLLOUT POLLOUT] ?s"
    by (simp add: server_poll_def andThen_def get_def log_event_def modify_def ret_def poll_kernel_def poll_defs)
  have "getClient 6 ?s = Done 1 ?s"
    by (simp add: getClient_def slots andThen_def get_def getC_def ret_def heap)
  moreover have "handleClientSocketEvents poll_kernel 1 POLLOUT ?s = Done () demo_asked"
    using send_event [of ?s 1 "demo_clients ! 1" 6 poll_kernel 1] heap(2)
    by (simp add: poll_kernel_def demo_kernel_def has_null_def demo_asked_def demo_client_def client_create_def)
  ultimately have "handle_pollfd poll_kernel (?p 6 POLLOUT POLLOUT) ?s = Done () demo_asked"
    by (simp add: handle_pollfd_def andThen_def get_def socket_eq_def)
  with poll show ?thesis
    by (simp add: server_iteration_def andThen_def ret_def)
qed

text \<open>A server in which a second client waits for the response that client 5 is about to get.\<close>

definition demo_shared :: server where
  "demo_shared = demo_server\<lparr>
     heap := (heap demo_server)(2 \<mapsto> demo_client 7 None waiting_for_response_for_another_client ''q''),
     request_clients_map := [''r'' \<mapsto> [1], ''q'' \<mapsto> [5, 2]]\<rparr>"

lemma demo_shared_safe: "safe demo_shared"
proof -
  let ?d = "demo_client 7 None waiting_for_response_for_another_client ''q''"
  let ?s = "demo_server\<lparr>request_clients_map := Map.empty\<rparr>"
  have "safe ?s"
    using demo_server_safe by (simp add: server_inv_def owners_ok_def fds_ok_def requests_ok_def owned_def)
  then have "safe (?s\<lparr>heap := (heap ?s)(2 \<mapsto> ?d)\<rparr>)"
    by (rule inv_update [where c = "demo_clients ! 2"]) (simp_all add: demo_heap fds_of_def)
  moreover have "requests_ok demo_shared"
    by (auto simp: requests_ok_def demo_shared_def demo_heap)
  ultimately show ?thesis
    by (simp add: server_inv_def owners_ok_def fds_ok_def owned_def demo_shared_def)
qed

lemma demo_shared_heap:
  "heap demo_shared 5 = Some (demo_client 11 (Some 12) waiting_response_status_code ''q'')"
  "heap demo_shared 2 = Some (demo_client 7 None waiting_for_response_for_another_client ''q'')"
  "request_clients_map demo_shared ''q'' = Some [5, 2]" "lookup (the_cache demo_shared) k = lookup (the_cache demo_server) k"
  "cache_room (the_cache demo_shared) = cache_room (the_cache demo_server)" "trace demo_shared = trace demo_server"
  by (simp_all add: demo_shared_def demo_heap)

lemma demo_accepts_stream: "accepts_data stream_kernel fd"
  by (auto simp: accepts_data_def)

lemma demo_shared_request:
  "request_clients_map demo_shared (request_str (demo_client 11 (Some 12) waiting_response_status_code ''q'')) = Some [5, 2]"
  "lookup (the_cache demo_shared) (request_str (demo_client 11 (Some 12) waiting_response_status_code ''q'')) = None"
  by (simp_all add: demo_shared_heap demo_lookup demo_texts)

lemma demo_shared_recv: "sends stream_kernel 12 (trace demo_shared) [''HTTP/1.0 200 OK'', ''ab'']"
  by (auto simp: sends_def demo_shared_heap stream_recv_def stream_of_def demo_server_def MAX_CHUNK_SIZE_def nth_Cons'
      less_Suc_eq)

lemma demo_shared_begins: "begins 5 [5, 2] ''HTTP/1.0 200 OK'' demo_shared"
  using demo_room status_line_200 by (simp add: begins_def demo_shared_heap)

lemma demo_shared_clients:
  "\<forall>j \<in> set [5, 2]. \<forall>d. heap demo_shared j = Some d \<longrightarrow> unserved d \<and> accepts_data stream_kernel (client_connection d)"
  using demo_accepts_stream by (simp add: demo_shared_heap)

text \<open>The same server when the entry in use has left only sixteen bytes of the cache.\<close>

definition big_size :: nat where "big_size = 16777200"

definition big_entry :: entry where
  "big_entry = \<lparr>buffer = replicate big_size CHR ''x'', completed = True, in_use = 1\<rparr>"

definition demo_tight :: server where
  "demo_tight = demo_shared\<lparr>the_cache := \<lparr>max_size = MAX_CACHE_SIZE, current_size = 16777200,
     lru_list = [\<lparr>it = 0, node_key = demo_key, node_entry = big_entry\<rparr>], hash_table = [demo_key \<mapsto> 0], next_it = 1\<rparr>\<rparr>"

lemma demo_tight_values:
  "heap demo_tight = heap demo_shared" "request_clients_map demo_tight = request_clients_map demo_shared"
  "trace demo_tight = trace demo_shared" "lookup (the_cache demo_tight) k = (if k = demo_key then Some big_entry else None)"
  "cache_room (the_cache demo_tight) = 16"
  by (simp_all add: demo_tight_def lookup_def cache_room_def unused_bytes_def store_bytes_def abs_cache_def abs_nodes_def
      MAX_CACHE_SIZE_def big_entry_def entry_inUse_def)

lemma demo_tight_safe: "safe demo_tight"
proof -
  have "cache_ok (the_cache demo_tight)"
    by (auto simp: demo_tight_def cache_ok_def cache_wf_def total_bytes_def entry_size_def big_entry_def MAX_CACHE_SIZE_def
        big_size_def)
  then show ?thesis
    using demo_shared_safe by (simp add: server_inv_def owners_ok_def fds_ok_def requests_ok_def owned_def demo_tight_def)
qed

lemma demo_tight_clients:
  "heap demo_tight 5 = Some (demo_client 11 (Some 12) waiting_response_status_code ''q'')"
  "request_clients_map demo_tight (request_str (demo_client 11 (Some 12) waiting_response_status_code ''q'')) = Some [5, 2]"
  "lookup (the_cache demo_tight) (request_str (demo_client 11 (Some 12) waiting_response_status_code ''q'')) = None"
  "sends stream_kernel 12 (trace demo_tight) [''HTTP/1.0 200 OK'', ''ab'']" "begins 5 [5, 2] ''HTTP/1.0 200 OK'' demo_tight"
  "\<forall>j \<in> set [5, 2]. \<forall>d. heap demo_tight j = Some d \<longrightarrow> unserved d \<and> accepts_data stream_kernel (client_connection d)"
  using demo_shared_heap(1) demo_shared_request(1) demo_shared_recv demo_shared_clients status_line_200
  by (simp_all add: demo_tight_values demo_texts begins_def)

lemma count_list_replicate: "count_list (replicate n x) y = (if x = y then n else 0)"
  by (induction n) auto

text \<open>A server with two clients only, and a kernel for which everything asked for is ready.\<close>

definition ready_kernel :: kernel where
  "ready_kernel = stream_kernel\<lparr>k_poll := (\<lambda>_ pfds. let rs = map (\<lambda>p. if pfd_fd p = 3 then 0 else pfd_events p) pfds
     in (int (length (filter (\<lambda>r. r \<noteq> 0) rs)), rs))\<rparr>"

lemma ready_kernel_safe: "kernel_safe ready_kernel"
  using stream_kernel_safe
  by (simp add: ready_kernel_def kernel_safe_def kernel_ok_def kernel_fresh_def poll_ok_def Let_def)

lemma ready_kernel_ready: "all_ready ready_kernel 3"
  by (simp add: all_ready_def ready_kernel_def Let_def)

lemma ready_accepts: "accepts_data ready_kernel fd"
  by (auto simp: accepts_data_def ready_kernel_def)

definition demo_two :: server where
  "demo_two = \<lparr>
     trace = [Ev_socket 3, Ev_accept 3 11, Ev_socket 12, Ev_accept 3 7],
     slots = [None, None, None, None, None, None, None, Some 1, None, None, None, Some 0],
     heap = [0 \<mapsto> demo_client 11 (Some 12) waiting_response_status_code ''q'',
             1 \<mapsto> demo_client 7 None waiting_for_response_for_another_client ''q''], next_client = 2,
     server_socket = \<lparr>listen_fd = 3, listen_port = 8080\<rparr>,
     the_cache = cache_create MAX_CACHE_SIZE, request_clients_map = [''q'' \<mapsto> [0, 1]], is_running = True\<rparr>"

lemma demo_two_heap:
  "heap demo_two j = Some d \<longleftrightarrow> j = 0 \<and> d = demo_client 11 (Some 12) waiting_response_status_code ''q'' \<or>
     j = 1 \<and> d = demo_client 7 None waiting_for_response_for_another_client ''q''"
  by (auto simp: demo_two_def)

lemma demo_two_safe: "safe demo_two"
proof -
  have "\<forall>n<12. \<forall>j. slots demo_two ! n = Some j \<longrightarrow> (\<exists>c. heap demo_two j = Some c \<and> client_connection c = int n)"
    by (simp add: numeral_eq_Suc All_less_Suc demo_two_def)
  then have "owners_ok demo_two" by (auto simp: owners_ok_def demo_two_heap) (auto simp: demo_two_def)
  moreover have owned: "owned demo_two = {11, 12, 7}"
    unfolding owned_def demo_two_heap by (simp add: ex_disj_distrib conj_disj_distribR fds_of_def) auto
  have "set (open_fds (trace demo_two)) = {3, 11, 12, 7}" "listen_fd (server_socket demo_two) = 3"
    by (auto simp: demo_two_def open_fds_def socket_isValid_def INVALID_SOCKET_FD_def)
  then have "fds_ok {} demo_two"
    by (auto simp: fds_ok_def owned demo_two_heap INVALID_SOCKET_FD_def fds_of_def)
  moreover have "requests_ok demo_two" by (auto simp: requests_ok_def demo_two_def)
  moreover have "cache_ok (the_cache demo_two)"
    by (simp add: demo_two_def cache_create_def cache_ok_def cache_wf_def total_bytes_def)
  ultimately show ?thesis by (simp add: server_inv_def)
qed

lemma demo_two_values:
  "request_clients_map demo_two ''q'' = Some [0, 1]" "lookup (the_cache demo_two) k = None"
  "n \<le> 1000 \<Longrightarrow> n \<le> cache_room (the_cache demo_two)"
  "listen_fd (server_socket demo_two) = 3" "delivered fd (trace demo_two) = []"
  by (simp_all add: demo_two_def cache_create_def lookup_def cache_room_def abs_cache_def abs_nodes_def MAX_CACHE_SIZE_def
      delivered_def)

lemma demo_two_sends: "sends ready_kernel 12 (trace demo_two) [''HTTP/1.0 200 OK'', ''ab'']"
  by (auto simp: sends_def ready_kernel_def stream_recv_def stream_of_def demo_two_def MAX_CHUNK_SIZE_def nth_Cons'
      less_Suc_eq)

text \<open>
  The same server with a request for the client that waits, an origin that has nothing, and a
  resolver that finds the host, or does not.
\<close>

definition demo_http :: http_request where
  "demo_http = \<lparr>versionMajor = 1, versionMinor = 0, rq_method = ''GET'',
     rq_url = \<lparr>valid = True, the_url = url_of ''http'' ''a'' None ''x'' None None\<rparr>, rq_headers = []\<rparr>"

definition demo_waiting :: server where
  "demo_waiting = demo_two\<lparr>heap := (heap demo_two)(1 \<mapsto>
     (demo_client 7 None waiting_for_response_for_another_client ''q'')\<lparr>request := demo_http\<rparr>)\<rparr>"

definition missing_kernel :: "addrinfo list option \<Rightarrow> kernel" where
  "missing_kernel infos = stream_kernel\<lparr>k_recv := (\<lambda>tr fd n. Some (take n (if receipts fd tr = 0 then ''HTTP/1.0 404 no''
     else if receipts fd tr = 1 then ''sorry, no'' else []))), k_getaddrinfo := (\<lambda>_ _ _. infos)\<rparr>"

lemma missing_kernel_simps [simp]:
  "k_socket (missing_kernel infos) tr d t p = fresh_fd tr" "k_connect (missing_kernel infos) tr fd a"
  "k_getaddrinfo (missing_kernel infos) tr h v = infos"
  by (simp_all add: missing_kernel_def)

lemma missing_kernel_safe:
  "infos \<noteq> Some [] \<Longrightarrow> kernel_safe (missing_kernel infos)"
  using stream_kernel_safe
  by (simp add: missing_kernel_def kernel_safe_def kernel_ok_def kernel_fresh_def poll_ok_def)

lemma demo_waiting_values:
  "heap demo_waiting 0 = Some (demo_client 11 (Some 12) waiting_response_status_code ''q'')"
  "heap demo_waiting 1 = Some ((demo_client 7 None waiting_for_response_for_another_client ''q'')\<lparr>request := demo_http\<rparr>)"
  "heap demo_waiting (Suc 0) = Some ((demo_client 7 None waiting_for_response_for_another_client ''q'')\<lparr>request := demo_http\<rparr>)"
  "request_clients_map demo_waiting ''q'' = Some [0, 1]"
  "receipts 12 (trace demo_waiting) = 0"
  by (simp_all add: demo_waiting_def demo_two_heap demo_two_values demo_two_def)

lemma demo_waiting_safe: "safe demo_waiting"
proof -
  have "heap demo_two 1 = Some (demo_client 7 None waiting_for_response_for_another_client ''q'')" by (simp add: demo_two_heap)
  then show ?thesis
    unfolding demo_waiting_def by (rule inv_update [OF demo_two_safe]) (auto simp: fds_of_def demo_two_def split: if_splits)
qed

lemma demo_waiting_url:
  "isValid (rq_url demo_http)" "the_url (rq_url demo_http) = url_of ''http'' ''a'' None ''x'' None None" "\<forall>x \<in> set ''a''. host_char x"
  by (simp_all add: demo_http_def isValid_def url_of_def host_char_def isUnreserved_def ctype_defs)

lemma demo_waiting_reaches:
  "request d = demo_http \<Longrightarrow>
   reaches (missing_kernel (Some [\<lparr>ai_family = AF_INET, ai_socktype = SOCK_STREAM, ai_protocol = 0, ai_addr = ''h''\<rparr>])) d"
  "request d = demo_http \<Longrightarrow> unreachable (missing_kernel None) d"
proof -
  have valid: "socket_isValid (fresh_fd tr)" for tr using fresh_fd(2) [of tr] by (simp add: socket_isValid_def INVALID_SOCKET_FD_def)
  let ?infos = "[\<lparr>ai_family = AF_INET, ai_socktype = SOCK_STREAM, ai_protocol = 0, ai_addr = ''h''\<rparr>]"
  have att: "\<exists>tr' fd. attempts (missing_kernel (Some ?infos)) ?infos tr = (tr', Some fd)" for tr
    using valid by (simp add: Let_def)
  show "reaches (missing_kernel (Some ?infos)) d" if "request d = demo_http"
    unfolding reaches_def that using demo_waiting_url att
    by (intro exI [of _ "''http''"] exI [of _ "''a''"] exI [of _ "None"] exI [of _ "''x''"]) (simp del: attempts.simps)
  show "unreachable (missing_kernel None) d" if "request d = demo_http"
    unfolding unreachable_def that using demo_waiting_url
    by (intro exI [of _ "''http''"] exI [of _ "''a''"] exI [of _ "None"] exI [of _ "''x''"]) simp
qed

lemma demo_missing_sends: "sends (missing_kernel infos) 12 (trace demo_waiting) [''HTTP/1.0 404 no'', ''sorry, no'']"
  by (auto simp: sends_def missing_kernel_def demo_waiting_values MAX_CHUNK_SIZE_def nth_Cons' less_Suc_eq)

lemma status_line_404: "status_readable ''HTTP/1.0 404 no''" "\<not> status_200 ''HTTP/1.0 404 no''"
  by code_simp+

text \<open>The first client of two is about to send its request when the origin hangs up; then somebody connects.\<close>

definition demo_hangup :: server where
  "demo_hangup = demo_two\<lparr>heap := (heap demo_two)(0 \<mapsto> demo_client 11 (Some 12) sending_request ''q'')\<rparr>"

lemma demo_hangup_safe: "safe demo_hangup"
proof -
  have "heap demo_two 0 = Some (demo_client 11 (Some 12) waiting_response_status_code ''q'')" by (simp add: demo_two_heap)
  then show ?thesis
    unfolding demo_hangup_def by (rule inv_update [OF demo_two_safe]) (auto simp: fds_of_def demo_two_def split: if_splits)
qed

lemma demo_hangup_turn:
  "\<exists>t1 t2. handleClientSocketEvents demo_kernel 0 POLLHUP demo_hangup = Done () t1 \<and> safe t1 \<and>
    heap t1 1 = Some (demo_client 7 None waiting_for_response_for_another_client ''q'') \<and> unattended ''q'' t1 \<and>
    request_clients_map t1 ''q'' = Some [1] \<and> server_iteration demo_kernel t1 = Done () t2 \<and> (\<exists>k. heap t2 k = Some (client_create 8))"
proof -
  let ?c = "demo_client 11 (Some 12) sending_request ''q''" let ?d = "demo_client 7 None waiting_for_response_for_another_client ''q''"
  have c: "heap demo_hangup 0 = Some ?c" "state ?c = sending_request" "request_clients_map demo_hangup (request_str ?c) = Some [0, 1]"
    "lookup (the_cache demo_hangup) (request_str ?c) = None"
    by (simp_all add: demo_hangup_def demo_two_values)
  have others: "\<forall>m d. heap demo_hangup m = Some d \<longrightarrow> m \<noteq> 0 \<longrightarrow> request_str d = request_str ?c \<longrightarrow>
      state d \<noteq> waiting_for_request \<longrightarrow> waits d \<or> settled d"
    by (auto simp: demo_hangup_def demo_two_def waits_def split: if_splits)
  obtain t1 where t1: "handleClientSocketEvents demo_kernel 0 POLLHUP demo_hangup = Done () t1" "safe t1" "unattended ''q'' t1"
    "heap t1 = (heap demo_hangup)(0 := None)" "request_clients_map t1 ''q'' = Some [1]"
    "trace t1 = trace demo_hangup @ map Ev_close (rev (fds_of ?c))" "slots t1 = (slots demo_hangup)[11 := None]"
    "server_socket t1 = server_socket demo_hangup"
    using hangup_unattended [OF demo_kernel_safe demo_hangup_safe c others] by auto
  let ?p = "\<lambda>rev. \<lparr>pfd_fd = 3, pfd_events = POLLIN, pfd_revents = rev\<rparr>"
  have v: "heap t1 1 = Some ?d" "heap t1 (Suc 0) = Some ?d" "listen_fd (server_socket t1) = 3"
    "slots t1 = [None, None, None, None, None, None, None, Some 1, None, None, None, None]"
    "trace t1 = [Ev_socket 3, Ev_accept 3 11, Ev_socket 12, Ev_accept 3 7, Ev_close 12, Ev_close 11]"
    using t1(4,6-8) by (simp_all add: demo_hangup_def demo_two_def fds_of_def)
  let ?u = "t1\<lparr>trace := trace t1 @ [Ev_poll [?p 0] 1 [POLLIN]]\<rparr>"
  have poll: "server_poll demo_kernel t1 = Done [?p POLLIN] ?u"
    by (simp add: server_poll_def server_getPollfds_def clients_getPollfds_def v(2-4) client_pollfds_def andThen_def get_def getC_def
        ret_def log_event_def modify_def demo_kernel_def poll_defs)
  have fd: "fresh_fd (trace ?u) = 8"
    by (simp add: fresh_fd_def open_fds_def v(5) socket_isValid_def INVALID_SOCKET_FD_def)
  obtain t2 where "server_acceptClient demo_kernel ?u = Done () t2" "heap t2 (next_client t1) = Some (client_create 8)"
    using fd v(3,4)
    by (simp add: server_acceptClient_def socket_accept_def clients_acceptClient_def assign_slot_def slot_at_def andThen_def get_def
        modify_def log_event_def ret_def INVALID_SOCKET_FD_def socket_isValid_def)
  moreover from calculation have "server_iteration demo_kernel t1 = Done () t2"
    using v(3) poll
    by (simp add: server_iteration_def handle_pollfd_def handleServerSocketEvents_def tryCatch_def andThen_def get_def ret_def
        socket_eq_def poll_defs)
  ultimately show ?thesis using t1(1-3,5) v(1) by blast
qed

text \<open>An origin whose first chunk is longer than the room that is left.\<close>

definition short_kernel :: kernel where
  "short_kernel = stream_kernel\<lparr>k_recv := (\<lambda>_ _ n. Some (take n ''HTTP/1.0 200 fine''))\<rparr>"

lemma short_kernel_safe: "kernel_safe short_kernel"
  using stream_kernel_safe
  by (simp add: short_kernel_def kernel_safe_def kernel_ok_def kernel_fresh_def poll_ok_def)

lemma short_recv:
  "k_recv short_kernel (trace demo_tight) 12 MAX_CHUNK_SIZE = Some ''HTTP/1.0 200 fine''" "''HTTP/1.0 200 fine'' \<noteq> []"
  "status_200 ''HTTP/1.0 200 fine''" "cache_room (the_cache demo_tight) < length ''HTTP/1.0 200 fine''"
  by (simp add: short_kernel_def MAX_CHUNK_SIZE_def, simp, code_simp, simp add: demo_tight_values)

end
