(* ===== verification/Program.thy ===== *)
theory Program
  imports Server_Examples
begin

text \<open>
  \<open>main.cpp\<close>: the command line, the run of the server inside the top-level handlers, and the
  destruction of the server on every way out. The answer of \<open>getrlimit\<close> is a parameter.
\<close>

section \<open>The command line\<close>

definition PORT_MIN :: int where "PORT_MIN = 1"
definition PORT_MAX :: int where "PORT_MAX = 65535"
definition EXIT_SUCCESS :: int where "EXIT_SUCCESS = 0"
definition EXIT_FAILURE :: int where "EXIT_FAILURE = 1"

record arguments =
  arg_port :: uint16
  arg_max_fds :: size_t

definition Arguments :: arguments where
  "Arguments = \<lparr>arg_port = 0, arg_max_fds = 1024\<rparr>"

text \<open>\<open>Arguments::parse\<close>; \<open>rlim\<close> is the soft limit, \<open>None\<close> when \<open>getrlimit\<close> fails.\<close>

definition arguments_parse :: "size_t option \<Rightarrow> string list \<Rightarrow> (unit, arguments) act" where
  "arguments_parse rlim argv =
     (if length argv \<noteq> 2 then raise StdInvalidArgument
      else case stoi (argv ! 1) of
        Inl e \<Rightarrow> raise e
      | Inr port_unchecked \<Rightarrow>
          if port_unchecked < PORT_MIN \<or> PORT_MAX < port_unchecked then raise StdInvalidArgument
          else andThen (modify (\<lambda>a. a\<lparr>arg_port := word_of_int port_unchecked\<rparr>)) (\<lambda>_.
            case rlim of Some n \<Rightarrow> modify (\<lambda>a. a\<lparr>arg_max_fds := n\<rparr>) | None \<Rightarrow> ret ()))"

section \<open>The run\<close>

text \<open>The destructor: the clients in the order of the vector, then the listening socket.\<close>

fun destroy_clients :: "client_id option list \<Rightarrow> (unit, 'r world_scheme) act" where
  "destroy_clients [] = ret ()"
| "destroy_clients (None # rest) = destroy_clients rest"
| "destroy_clients (Some i # rest) = andThen (client_destroy i) (\<lambda>_. destroy_clients rest)"

definition server_destroy :: "unit server_act" where
  "server_destroy =
     andThen (get slots) (\<lambda>os.
     andThen (destroy_clients os) (\<lambda>_.
     andThen (get (listen_fd \<circ> server_socket)) (\<lambda>fd.
     socket_destroy fd)))"

text \<open>A local \<open>Server\<close> object: what its members do to the world, seen from outside.\<close>

definition run_in :: "('a, server) act \<Rightarrow> server \<Rightarrow> ('a, net) act" where
  "run_in m s = (\<lambda>_. case m s of
       Done a t \<Rightarrow> Done a \<lparr>trace = trace t\<rparr> | Raise e t \<Rightarrow> Raise e \<lparr>trace = trace t\<rparr>
     | Abort \<Rightarrow> Abort | Undef \<Rightarrow> Undef | Hang \<Rightarrow> Hang)"

definition run_server :: "kernel \<Rightarrow> uint16 \<Rightarrow> size_t \<Rightarrow> (int, net) act" where
  "run_server K port_number max_fds = tryCatch (\<lambda>_. True)
     (andThen (server_new K port_number max_fds) (\<lambda>s.
      andThen (run_in (andThen (onException (server_start K) server_destroy) (\<lambda>_. server_destroy)) s) (\<lambda>_.
      ret EXIT_SUCCESS)))
     (\<lambda>_. ret EXIT_FAILURE)"

text \<open>\<open>main\<close>: of the exceptions of the parsing only \<open>std::invalid_argument\<close> is caught.\<close>

definition spx_main :: "kernel \<Rightarrow> size_t option \<Rightarrow> string list \<Rightarrow> (int, net) act" where
  "spx_main K rlim argv = (case arguments_parse rlim argv Arguments of
       Done _ args \<Rightarrow> run_server K (arg_port args) (arg_max_fds args)
     | Raise e _ \<Rightarrow> if e = StdInvalidArgument then ret EXIT_FAILURE else call_abort
     | Abort \<Rightarrow> call_abort
     | Undef \<Rightarrow> undefined_behaviour
     | Hang \<Rightarrow> (\<lambda>_. Hang))"

section \<open>Reading the port\<close>

lemma digits_plain:
  assumes "s \<noteq> []" "\<forall>c \<in> set s. isdigit c"
  shows "c_str s = s" "dropWhile isspace s = s" "hd s \<noteq> CHR ''-''" "hd s \<noteq> CHR ''+''" "isdigit (hd s)"
proof -
  have c: "isdigit c \<Longrightarrow> c \<noteq> CHR 0x00 \<and> \<not> isspace c \<and> c \<noteq> CHR ''-'' \<and> c \<noteq> CHR ''+''" for c
    by (auto simp: ctype_defs)
  show "c_str s = s" using c assms(2) by (auto simp: c_str_def takeWhile_eq_all_conv)
  show "dropWhile isspace s = s" "hd s \<noteq> CHR ''-''" "hd s \<noteq> CHR ''+''" "isdigit (hd s)"
    using c assms by (cases s; auto)+
qed

lemma stoi_show_nat:
  "stoi (show_nat n) = (if n < 2 ^ 31 then Inr (int n) else Inl StdOutOfRange)"
proof -
  note d = digits_plain [OF show_nat_not_Nil show_nat_digits, of n]
  have "strtol 10 (show_nat n) = min LONG_MAX (int n)"
    using d by (simp add: strtol_def digits_value_show_nat)
  moreover have "skip_sign (show_nat n) = show_nat n" using d(3,4) by (simp add: skip_sign_def)
  ultimately show ?thesis
    using d(1,2,5) by (auto simp: stoi_def Let_def LONG_MAX_def min_def)
qed

lemma main_of_number:
  "spx_main K rlim [prog, show_nat n] s =
    (if 2 ^ 31 \<le> n then Abort
     else if n < 1 \<or> 65535 < n then Done EXIT_FAILURE s
     else run_server K (word_of_nat n) (case rlim of None \<Rightarrow> 1024 | Some m \<Rightarrow> m) s)"
  by (simp add: spx_main_def arguments_parse_def stoi_show_nat PORT_MIN_def PORT_MAX_def Arguments_def raise_def
      ret_def call_abort_def andThen_def modify_def split: option.split)

section \<open>Everything is closed on the way out\<close>

lemma client_destroy_run:
  assumes "heap s i = Some c" "INVALID_SOCKET_FD \<notin> set (fds_of c)"
  shows "client_destroy i s =
    Done () (s\<lparr>heap := (heap s)(i := None), trace := trace s @ map Ev_close (rev (fds_of c))\<rparr>)"
  using assms
  by (auto simp: client_destroy_def destroy_opt_def socket_destroy_def socket_isValid_def fds_of_def andThen_def getC_def
      modify_def log_event_def ret_def split: option.split)

definition slots_fds :: "'r world_scheme \<Rightarrow> client_id option list \<Rightarrow> fd set" where
  "slots_fds s l = {fd. \<exists>i c. Some i \<in> set l \<and> heap s i = Some c \<and> fd \<in> set (fds_of c)}"

lemma destroy_clients_run:
  assumes "distinct (filter (\<lambda>x. x \<noteq> None) l)" "\<forall>i. Some i \<in> set l \<longrightarrow> heap s i \<noteq> None" "INVALID_SOCKET_FD \<notin> slots_fds s l"
  shows "\<exists>h tr. destroy_clients l s = Done () (s\<lparr>heap := h, trace := tr\<rparr>) \<and>
    set (open_fds tr) = set (open_fds (trace s)) - slots_fds s l"
  using assms
proof (induction l arbitrary: s)
  case Nil
  then show ?case by (intro exI [of _ "heap s"] exI [of _ "trace s"]) (simp add: ret_def slots_fds_def)
next
  case (Cons x l)
  show ?case
  proof (cases x)
    case None
    with Cons show ?thesis by (simp add: slots_fds_def)
  next
    case (Some i)
    then obtain c where c: "heap s i = Some c" using Cons.prems(2) by auto
    have i: "Some i \<notin> set l" using Cons.prems(1) Some by auto
    let ?t = "s\<lparr>heap := (heap s)(i := None), trace := trace s @ map Ev_close (rev (fds_of c))\<rparr>"
    have fds: "slots_fds s (x # l) = set (fds_of c) \<union> slots_fds ?t l"
      using Some c i by (auto simp: slots_fds_def split: if_splits)
    then have "client_destroy i s = Done () ?t" using Cons.prems(3) by (intro client_destroy_run [OF c]) auto
    moreover obtain h tr where "destroy_clients l ?t = Done () (?t\<lparr>heap := h, trace := tr\<rparr>)"
      "set (open_fds tr) = set (open_fds (trace ?t)) - slots_fds ?t l"
      using Cons.IH [of ?t] Cons.prems i fds Some by fastforce
    ultimately show ?thesis
      using Some fds set_open_closes [of "trace s" "rev (fds_of c)"]
      by (intro exI [of _ h] exI [of _ tr]) (auto simp: andThen_def)
  qed
qed

lemma safe_slots:
  assumes "safe s"
  shows "distinct (filter (\<lambda>x. x \<noteq> None) (slots s))" "\<forall>i. Some i \<in> set (slots s) \<longrightarrow> heap s i \<noteq> None"
    "slots_fds s (slots s) = owned s"
proof -
  have ok: "owners_ok s" using assms by (simp add: server_inv_def)
  have inj: "m = n" if "m < length (slots s)" "n < length (slots s)" "slots s ! m = slots s ! n" "slots s ! m \<noteq> None" for m n
    using ok that unfolding owners_ok_def by (metis not_Some_eq of_nat_eq_iff option.inject)
  show "distinct (filter (\<lambda>x. x \<noteq> None) (slots s))"
    by (rule distinct_filter_nth) (use inj in blast)
  show "\<forall>i. Some i \<in> set (slots s) \<longrightarrow> heap s i \<noteq> None"
    using ok unfolding owners_ok_def in_set_conv_nth by (metis option.distinct(1))
  have "Some i \<in> set (slots s)" if "heap s i = Some c" for i c
    using ok that unfolding owners_ok_def by (metis nth_mem)
  then show "slots_fds s (slots s) = owned s" by (auto simp: slots_fds_def owned_def)
qed

lemma server_destroy_run:
  assumes "safe s"
  shows "\<exists>t. server_destroy s = Done () t \<and> open_fds (trace t) = []"
proof -
  have fds: "set (open_fds (trace s)) = insert (listen_fd (server_socket s)) (owned s)"
    "listen_fd (server_socket s) \<notin> owned s" "INVALID_SOCKET_FD \<notin> insert (listen_fd (server_socket s)) (owned s)"
    using assms by (simp_all add: server_inv_def fds_ok_def)
  obtain h tr where run: "destroy_clients (slots s) s = Done () (s\<lparr>heap := h, trace := tr\<rparr>)"
    "set (open_fds tr) = set (open_fds (trace s)) - owned s"
    using destroy_clients_run [of "slots s" s] safe_slots [OF assms] fds(3) by auto
  then have "set (open_fds tr) - {listen_fd (server_socket s)} = {}" using fds by auto
  then have "removeAll (listen_fd (server_socket s)) (open_fds tr) = []"
    by (metis set_removeAll set_empty)
  then show ?thesis
    using run(1) fds(3)
    by (auto simp: server_destroy_def andThen_def get_def socket_destroy_def socket_isValid_def log_event_def modify_def)
qed

lemma socket_listen_preserves: "preserves (socket_listen K ps n)"
  unfolding socket_listen_def by (intro preserves_rules keeps) simp_all

text \<open>However the loop ends, the server it ends in is consistent.\<close>

definition ends_safe :: "(unit, server) outcome \<Rightarrow> bool" where
  "ends_safe r \<longleftrightarrow> (case r of Done _ t \<Rightarrow> safe t | Raise _ t \<Rightarrow> safe t | _ \<Rightarrow> True)"

lemma event_loop_safe:
  assumes "event_loop K s = Some r" "kernel_safe K" "safe s"
  shows "ends_safe r"
proof -
  have "kernel_safe K \<longrightarrow> safe s \<longrightarrow> ends_safe r"
  proof (rule event_loop.raw_induct [OF _ assms(1), where P = "\<lambda>K s r. kernel_safe K \<longrightarrow> safe s \<longrightarrow> ends_safe r"], intro impI)
    fix loop K s r
    assume IH: "\<And>K s r. loop K s = Some r \<Longrightarrow> kernel_safe K \<longrightarrow> safe s \<longrightarrow> ends_safe r"
      and body: "(if is_running s \<and> \<not> k_stopped K (trace s)
        then (case server_iteration K s of Done _ t \<Rightarrow> loop K t | r \<Rightarrow> Some r) else Some (Done () s)) = Some r"
      and K: "kernel_safe K" and s: "safe s"
    have turn: "ends_safe (server_iteration K s)"
      using hoareD [OF server_iteration_preserves [OF K] s] by (auto simp: wp_def ends_safe_def split: outcome.splits)
    show "ends_safe r"
    proof (cases "is_running s \<and> \<not> k_stopped K (trace s) \<and> (\<exists>u t. server_iteration K s = Done u t)")
      case True
      then obtain u t where t: "server_iteration K s = Done u t" by blast
      then have "loop K t = Some r" "safe t" using True body turn by (simp_all add: ends_safe_def)
      then show ?thesis using IH K by blast
    next
      case False
      then have "r = Done () s \<or> r = server_iteration K s"
        using body by (cases "server_iteration K s") (auto split: if_splits)
      then show ?thesis using s turn by (auto simp: ends_safe_def)
    qed
  qed
  with assms(2,3) show ?thesis by simp
qed

lemma server_start_safe:
  assumes "kernel_safe K" "safe s"
  shows "ends_safe (server_start K s)"
proof (cases "socket_listen K (server_socket s) PENDING_CONNECTIONS_QUEUE_LEN s")
  case (Done x t)
  have "safe t"
    using hoareD [OF socket_listen_preserves assms(2), of K "server_socket s" PENDING_CONNECTIONS_QUEUE_LEN] Done
    by (simp add: wp_def)
  then have t: "safe (t\<lparr>is_running := True\<rparr>)" by (simp add: server_inv_def)
  show ?thesis
    using event_loop_safe [OF _ assms(1) t] Done
    by (auto simp: server_start_def andThen_def get_def modify_def ends_safe_def split: option.split)
next
  case (Raise e t)
  then show ?thesis
    using hoareD [OF socket_listen_preserves assms(2), of K "server_socket s" PENDING_CONNECTIONS_QUEUE_LEN]
    by (simp add: wp_def server_start_def andThen_def get_def ends_safe_def)
qed (simp_all add: server_start_def andThen_def get_def ends_safe_def)

text \<open>A local server object is gone, with all its descriptors, when control leaves its scope.\<close>

lemma scope_closes:
  assumes "kernel_safe K" "safe s"
    "run_in (andThen (onException (server_start K) server_destroy) (\<lambda>_. server_destroy)) s n = r"
  shows "(\<forall>u t. r = Done u t \<longrightarrow> open_fds (trace t) = []) \<and> (\<forall>e t. r = Raise e t \<longrightarrow> open_fds (trace t) = [])"
proof (cases "server_start K s")
  case (Done u t)
  then have "safe t" using server_start_safe [OF assms(1,2)] by (simp add: ends_safe_def)
  then obtain t' where t': "server_destroy t = Done () t'" "open_fds (trace t') = []"
    using server_destroy_run by blast
  show ?thesis
    using Done t' assms(3) by (auto simp: run_in_def andThen_def onException_def tryCatch_def)
next
  case (Raise e t)
  then have "safe t" using server_start_safe [OF assms(1,2)] by (simp add: ends_safe_def)
  then obtain t' where t': "server_destroy t = Done () t'" "open_fds (trace t') = []"
    using server_destroy_run by blast
  show ?thesis
    using Raise t' assms(3) by (auto simp: run_in_def andThen_def onException_def tryCatch_def raise_def)
qed (use assms(3) in \<open>auto simp: run_in_def andThen_def onException_def tryCatch_def\<close>)

lemma passive_create_Raise:
  assumes "passive_create K p \<lparr>trace = []\<rparr> = Raise e n"
  shows "open_fds (trace n) = []"
  using assms
  by (auto simp: passive_create_def tcp_socket_def onException_def tryCatch_def set_reuse_def getaddrinfo_def socket_destroy_def
      andThen_def get_def log_event_def modify_def ret_def raise_def undefined_behaviour_def open_fds_def
      socket_isValid_def split: if_splits option.splits list.splits outcome.splits)

lemma server_new_Raise:
  assumes "server_new K p m \<lparr>trace = []\<rparr> = Raise e n"
  shows "open_fds (trace n) = []"
  using assms passive_create_Raise
  by (auto simp: server_new_def ClientsList_def andThen_def get_def raise_def ret_def open_fds_def
      split: outcome.splits if_splits)

text \<open>The program never leaves with an exception of \<open>run_server\<close>, and it leaves no descriptor open.\<close>

lemma run_server_outcome:
  assumes "kernel_safe K"
  shows "run_server K p m \<lparr>trace = []\<rparr> \<noteq> Raise e t"
    "run_server K p m \<lparr>trace = []\<rparr> = Done code t \<Longrightarrow> code \<in> {EXIT_SUCCESS, EXIT_FAILURE} \<and> open_fds (trace t) = []"
proof -
  show "run_server K p m \<lparr>trace = []\<rparr> \<noteq> Raise e t"
    by (simp add: run_server_def tryCatch_def ret_def split: outcome.split)
  assume r: "run_server K p m \<lparr>trace = []\<rparr> = Done code t"
  show "code \<in> {EXIT_SUCCESS, EXIT_FAILURE} \<and> open_fds (trace t) = []"
  proof (cases "server_new K p m \<lparr>trace = []\<rparr>")
    case (Done s n)
    with r scope_closes [OF assms server_new_safe [OF Done] refl, of n] show ?thesis
      by (auto simp: run_server_def tryCatch_def andThen_def ret_def split: outcome.splits)
  next
    case (Raise e' n)
    with r server_new_Raise [OF Raise] show ?thesis
      by (auto simp: run_server_def tryCatch_def andThen_def ret_def)
  qed (use r in \<open>simp_all add: run_server_def tryCatch_def andThen_def\<close>)
qed

text \<open>A kernel on which \<open>listen\<close> fails: the run ends at once.\<close>

definition demo_kernel_busy :: kernel where
  "demo_kernel_busy = demo_kernel\<lparr>k_listen := \<lambda>_ _ _. False\<rparr>"

lemma demo_kernel_busy_safe: "kernel_safe demo_kernel_busy"
  using demo_kernel_safe by (simp add: demo_kernel_busy_def kernel_safe_def kernel_ok_def kernel_fresh_def poll_ok_def)

definition demo_busy_trace :: history where
  "demo_busy_trace = butlast (trace demo_listening) @ [Ev_listen 3 5 False, Ev_close 3]"

lemma destroy_none: "destroy_clients (replicate k None) s = Done () s"
  by (induction k) (simp_all add: ret_def)

lemma demo_busy_run: "run_server demo_kernel_busy 8080 1024 \<lparr>trace = []\<rparr> = Done EXIT_FAILURE \<lparr>trace = demo_busy_trace\<rparr>"
proof -
  let ?n = "\<lparr>trace = butlast (trace demo_listening)\<rparr>"
  have ps: "passive_create demo_kernel_busy 8080 \<lparr>trace = []\<rparr> = Done (server_socket demo_listening) ?n"
    by (simp add: passive_create_def tcp_socket_def onException_def tryCatch_def set_reuse_def getaddrinfo_def andThen_def
        get_def log_event_def modify_def ret_def demo_fresh demo_port INVALID_SOCKET_FD_def demo_listening_def
        demo_kernel_busy_def)
  show ?thesis
    using ps
    by (simp add: run_server_def run_in_def server_new_def ClientsList_def calculateMaximumClients_def server_start_def
        socket_listen_def server_destroy_def socket_destroy_def socket_isValid_def onException_def tryCatch_def andThen_def
        ret_def get_def raise_def log_event_def modify_def INVALID_SOCKET_FD_def PENDING_CONNECTIONS_QUEUE_LEN_def
        demo_busy_trace_def)
      (simp add: demo_kernel_busy_def demo_listening_def destroy_none ret_def raise_def log_event_def modify_def)
qed

lemma demo_busy_main:
  "spx_main demo_kernel_busy None [''spx'', show_nat 8080] \<lparr>trace = []\<rparr> = Done EXIT_FAILURE \<lparr>trace = demo_busy_trace\<rparr>"
  using demo_busy_run by (simp add: main_of_number)

lemma demo_busy_socket: "Ev_socket 3 \<in> set demo_busy_trace"
  by (simp add: demo_busy_trace_def demo_listening_def)

end
