(* ===== verification/Spec2Isabelle.thy ===== *)
theory Spec2Isabelle
  imports Cache_Interface Response_Correct Server_Turns Server_Neglect Server_Refused Server_Forward Program
begin

text \<open>
  A verification development of \<^bold>\<open>spx\<close>, a caching HTTP proxy in C++17 (\<open>src/src\<close>). One thread runs
  one \<open>poll\<close> loop over the listening socket, the clients and the origin servers; responses with
  status 200 are kept in a least-recently-used cache of 16 MiB under the text of the forwarded
  request, and clients that make the same request share one fetch.

  \<^bold>\<open>The program and its model.\<close>

  \<^item> \<open>cache/cache.cpp\<close>: \<open>Cache\<close> has the linked list with its iterators, the hash table, the entries
    with use counts and every operation; \<open>Cache_Invariant\<close> the well-formedness of list, table and
    byte count; \<open>Cache_Refinement\<close> an association list as abstract store and, operation by operation,
    the proof that the code implements it; \<open>Cache_Interface\<close> the contract of a cache as a locale,
    interpreted on the model, and the states that sequences of calls reach.
  \<^item> \<open>http/httpparser\<close>: \<open>Scanner\<close> is the shape of the three hand-written state machines, a loop over
    bytes that continues or returns, with a locale for its invariants. \<open>Url_Parser\<close> and
    \<open>Url_Correct\<close> are \<open>urlparser.hpp\<close>; \<open>Request_Parser\<close>, \<open>Request_Correct\<close> and \<open>Request_Bodies\<close>
    are \<open>request.hpp\<close> and \<open>httprequestparser.hpp\<close>; \<open>Response_Parser\<close> and \<open>Response_Correct\<close> are
    \<open>response.hpp\<close> and \<open>httpresponseparser.hpp\<close>, related to the request parser by a simulation, so that
    headers and bodies are proved once. \<open>Chars\<close> has what they call of the C library.
  \<^item> \<open>http/http_request.cpp\<close>: \<open>Http_Request\<close> and \<open>Http_Request_Correct\<close>, the request as the proxy
    keeps it and the text it forwards and uses as cache key.
  \<^item> \<open>net/\<close>: \<open>Sockets\<close>. A socket object is its descriptor. The operating system is the parameter
    \<open>K :: kernel\<close>, which answers every system call from the history of calls so far; the history is
    the state \<open>trace\<close>, so that statements about what was sent, received, opened and closed are
    statements about \<open>trace\<close>.
  \<^item> \<open>clients_list.cpp\<close>: \<open>Clients\<close>. Client objects live in \<open>heap\<close>, references to them are their
    identities, and \<open>slots\<close> is the vector of owners indexed by descriptor. \<open>Client_Reading\<close> has what
    reading a request returns.
  \<^item> \<open>server.cpp\<close>: \<open>Server\<close>, the state machine of each client, one definition per member function,
    the turn of the loop and the loop. \<open>Server_Invariant\<close>, \<open>Server_Safety\<close> and \<open>Server_Handlers\<close> prove
    by Hoare triples that every handler keeps the ownership of descriptors, the client vector, the
    lists per request and the cache consistent, and define the states a run reaches.
    \<open>Server_Requests\<close> describes what happens to a request: hit, wait, delivery from the cache,
    departure; \<open>Cache_Room\<close> the room the cache has for a response; \<open>Server_Fetch\<close> the event that
    brings the status line; \<open>Server_Forward\<close> a response that is passed to its client alone;
    \<open>Server_Miss\<close> a request nobody has made before, from the connection to the origin to the last
    byte for the client.
  \<^item> One fetch for several clients, while it goes on: \<open>Schedule\<close> is the contract as a locale (a
    quantity that every event of the origin moves on and every event of a client brings nearer to
    its end, in any interleaving); \<open>Server_Stream\<close> shows it for a response that fits into the cache,
    \<open>Server_Overflow\<close> for one that outgrows it and is then passed on to all, \<open>Server_Delivery\<close>
    joins the two and interprets the locale, \<open>Server_Turns\<close> lets the event loop itself produce the
    events, turn by turn.
  \<^item> What can go wrong with sharing: \<open>Server_Waiting\<close> has the fetch that is of no use to those that
    wait, and their release; \<open>Server_Refused\<close> a first chunk that finds no room; \<open>Server_Neglect\<close>
    the clients that nobody serves any more. \<open>Server_Triples\<close> has triples for partial correctness
    and, as a locale, the assertions that do not see the history; \<open>Server_Phases\<close> orders the states
    of a client and shows with them
    that no event sends a client back to an earlier state of its exchange, \<open>Server_Neglect\<close> that no
    event reaches a forgotten client. \<open>Server_Errors\<close> has the inputs that the handlers do not
    survive, \<open>Server_Examples\<close> concrete kernels and servers in which hypotheses are met.
  \<^item> \<open>main.cpp\<close>: \<open>Program\<close>, with the destruction of the server on every way out.
  \<^item> \<open>common/exception.h\<close> and the exception classes elsewhere are the type \<open>exn\<close> of \<open>Prelude\<close>.

  \<^bold>\<open>How code becomes definitions.\<close> A statement is an \<open>act\<close>: from a state to a value and a state, an
  exception and the state in which it was thrown, a call of \<open>abort\<close>, undefined behaviour, or no
  return. \<open>andThen\<close> is sequencing, \<open>tryCatch\<close> a handler, \<open>forEach\<close> a range-based \<open>for\<close>, \<open>zoom\<close> a call on
  a member object. Exceptions carry the state reached, so what a handler finds half done is what the
  code leaves half done. \<open>wp\<close> and \<open>hoare\<close> count not returning as a failure; only \<open>sound\<close> of \<open>Server_Triples\<close>
  does not. Sizes are 64-bit words, ports 16-bit, status codes 32-bit words; \<open>int\<close> values are integers with the overflow written
  out where it can happen. Strings, vectors and buffers are lists of 8-bit characters.

  \<^bold>\<open>Loops and fuel.\<close> No definition uses fuel. The loop that frees cache space and the event loop
  are partial functions whose value \<open>None\<close> is \<open>Hang\<close>; the first is proved to end on every well-formed
  cache, and with it one turn of the event loop; the second runs until a signal. The loop that reads a
  request ends because the bytes read so far grow and are at most 16384.

  \<^bold>\<open>What is assumed.\<close> \<open>kernel_safe\<close> states what the manual pages promise: counts within the
  buffers given, new descriptors that are not open already, one result per polled descriptor. It also
  says that a key freed during eviction still reads as it was (\<open>k_freed\<close>): the code reads it after
  freeing it, which the standard leaves undefined, and \<open>eviction_reads_freed_key\<close> shows that without
  that assumption no eviction is safe.

  The theorems about delivery add that the clients' sockets take at least one byte whenever they
  are polled writable (\<open>accepts_data\<close>), that the origin sends its chunks and then closes (\<open>sends\<close>),
  and, for turns of the loop, that \<open>poll\<close> reports every event asked for (\<open>all_ready\<close>); safety does not
  need them.

  \<^bold>\<open>What the properties show.\<close> The proxy: descriptors owned by exactly one client and all closed
  at the end, no dangling client in any list, every turn ends, bounded memory, states that only
  move forward; hits without connections; one fetch for all clients of a request, each of which gets
  the whole response and nothing else in any interleaving of events, whether or not it fits into the
  cache (its first chunk must, when others wait), and at any moment a beginning of it; waiting clients that get connections of their own when
  the fetch is of no use to them; the whole way of a request from its arrival to the closed
  connection. The cache: total, refining its store, evicting in order of use and never an entry in
  use, storing exactly what was written. The forwarded request: its exact text, and that it parses
  again. The parsers: no read outside a container on any input, well-formed results, round trips
  with written requests, URLs and responses, bodies by length and by chunks. Each group has the
  errors the code really has, stated as theorems about the model: among them clients that wait for
  ever, and clients cut off when the cache is full.

  \<^bold>\<open>Not modelled.\<close> Log and terminal output, including the stream operators; the time \<open>poll\<close> waits;
  the registration of the signal handlers (\<open>k_stopped\<close> says when a stop signal has arrived); failures
  of memory allocation other than the limits of \<open>reserve\<close> and of the vector of clients; the release
  of address lists, which the program can leak but never uses again; the C library's locales. The
  test origin server, the scripts and the build files are not part of the proxy.
\<close>

section \<open>Example states\<close>

text \<open>A cache of 8 bytes: a completed unused entry of 4 bytes, then an entry of 2 bytes in use.\<close>

definition demo_cache :: cache where
  "demo_cache = \<lparr>max_size = 8, current_size = 6, lru_list = [
      \<lparr>it = 0, node_key = ''a'', node_entry = \<lparr>buffer = ''abcd'', completed = True, in_use = 0\<rparr>\<rparr>,
      \<lparr>it = 1, node_key = ''b'', node_entry = \<lparr>buffer = ''xy'', completed = False, in_use = 1\<rparr>\<rparr>],
    hash_table = [''a'' \<mapsto> 0, ''b'' \<mapsto> 1], next_it = 2\<rparr>"

lemma demo_cache_wf: "cache_wf demo_cache"
  by (auto simp: demo_cache_def cache_wf_def total_bytes_def entry_size_def)

lemma demo_cache_values:
  "abs_cache demo_cache = [(''a'', \<lparr>buffer = ''abcd'', completed = True, in_use = 0\<rparr>), (''b'', new_entry\<lparr>buffer := ''xy''\<rparr>)]"
  "current_size demo_cache = 6" "max_size demo_cache = 8"
  by (simp_all add: demo_cache_def abs_cache_def abs_nodes_def new_entry_def)

lemma demo_cache_lookup:
  "lookup demo_cache k = (if k = ''a'' then Some \<lparr>buffer = ''abcd'', completed = True, in_use = 0\<rparr>
     else if k = ''b'' then Some (new_entry\<lparr>buffer := ''xy''\<rparr>) else None)"
  by (simp add: lookup_def demo_cache_values)

text \<open>The same cache with a third, empty entry in use.\<close>

definition demo_cache2 :: cache where
  "demo_cache2 = demo_cache\<lparr>lru_list := lru_list demo_cache @ [\<lparr>it = 2, node_key = ''c'', node_entry = new_entry\<rparr>],
     hash_table := [''a'' \<mapsto> 0, ''b'' \<mapsto> 1, ''c'' \<mapsto> 2], next_it := 3\<rparr>"

lemma demo_cache2_wf: "cache_wf demo_cache2"
  by (auto simp: demo_cache2_def demo_cache_def cache_wf_def total_bytes_def entry_size_def new_entry_def)

lemma demo_cache2_lookup:
  "lookup demo_cache2 k = (if k = ''c'' then Some new_entry else lookup demo_cache k)"
  by (simp add: lookup_def demo_cache2_def demo_cache_def abs_cache_def abs_nodes_def new_entry_def)

text \<open>The characters of the example requests.\<close>

lemma demo_parts:
  "request_parts_ok ''GET'' ''/'' 1 1 [\<lparr>hname = ''A'', hvalue = ''b''\<rparr>]"
  "request_parts_ok ''POST'' ''/'' 1 1 [\<lparr>hname = ''Content-Length'', hvalue = ''3''\<rparr>]"
  "request_parts_ok ''POST'' ''/'' 1 1 [\<lparr>hname = ''Content-Length'', hvalue = ''-1''\<rparr>]"
  "request_parts_ok ''PUT'' ''/'' 1 1 [\<lparr>hname = ''Transfer-Encoding'', hvalue = ''chunked''\<rparr>]"
  by (simp_all add: request_parts_ok_def header_ok_def uri_ok_def version_ok_def INT_MAX_def
      isToken_def isChar_code isControl_code isSpecial_def char_code_def value_char_def)

lemma demo_length:
  "strcaseeq ''Content-Length'' ''Content-Length''" "atoi ''3'' = 3" "atoi ''-1'' = - 1"
  by (simp_all add: strcaseeq_def, code_simp+)

lemma demo_chunked:
  "strcaseeq ''Transfer-Encoding'' ''Transfer-Encoding''" "strcaseeq ''chunked'' ''chunked''"
  "\<not> strcaseeq ''Transfer-Encoding'' ''Content-Length''"
  by (simp add: strcaseeq_def, simp add: strcaseeq_def, code_simp)

lemma demo_target:
  "url_parts_ok ''http'' ''a'' None [] None"
  "request_parts_ok ''GET'' (render_url ''http'' ''a'' None [] None None) 1 0 []" "\<not> takes_body ''GET''"
  by (simp_all add: url_parts_ok_def scheme_char_def host_char_def isUnreserved_def ctype_defs request_parts_ok_def
      render_url_def render_port_def render_tail_def uri_ok_def uri_char_def version_ok_def INT_MAX_def takes_body_def
      isToken_def isChar_code isControl_code isSpecial_def)


text \<open>A kept \<open>POST\<close> of three bytes.\<close>

definition demo_post :: http_request where
  "demo_post = demo_http\<lparr>rq_method := ''POST'', rq_headers := [(''Content-Length'', ''3'')]\<rparr>"

lemma demo_http_ok: "forwardable demo_http" "isValid (rq_url demo_http)"
  by (simp_all add: demo_http_def forwardable_def in_int_def INT_MAX_def headers_sorted_def isValid_def url_of_def
      url_wf_def scheme_char_def host_char_def path_char_def isUnreserved_def ctype_defs uri_char_def
      isToken_def isChar_code isControl_code isSpecial_def)

lemma demo_post_ok: "forwardable demo_post" "isValid (rq_url demo_post)"
  using demo_http_ok
  by (simp_all add: demo_post_def demo_http_def forwardable_def headers_sorted_def isValid_def forwarded_header_ok_def
      header_ok_def header_of_def value_char_def HEADERS_TO_REMOVE_def
      ctype_defs isToken_def isChar_code isControl_code isSpecial_def)

section \<open>The proxy\<close>

text \<open>
  C1. In every state that a run of the proxy reaches, over any kernel that keeps its promises,
  the open descriptors are exactly the listening one and those of the clients, no two clients
  share one, the client vector holds each client at its own descriptor, and the lists of clients
  per request name live clients only, each once.
\<close>

theorem server_reachable_safe:
  assumes "loop_reach K p m pfds s" "kernel_safe K"
  shows "set (open_fds (trace s)) = insert (listen_fd (server_socket s)) (owned s) \<and>
    listen_fd (server_socket s) \<notin> owned s \<and>
    (\<forall>i c. heap s i = Some c \<longrightarrow> distinct (fds_of c) \<and> 0 \<le> client_connection c \<and>
      nat (client_connection c) < length (slots s) \<and> slots s ! nat (client_connection c) = Some i) \<and>
    (\<forall>i j c d. heap s i = Some c \<longrightarrow> heap s j = Some d \<longrightarrow> i \<noteq> j \<longrightarrow> set (fds_of c) \<inter> set (fds_of d) = {}) \<and>
    (\<forall>n i. n < length (slots s) \<longrightarrow> slots s ! n = Some i \<longrightarrow> heap s i \<noteq> None) \<and>
    (\<forall>k l. request_clients_map s k = Some l \<longrightarrow> distinct l \<and> (\<forall>i \<in> set l. heap s i \<noteq> None))"
proof -
  have s: "owners_ok s" "fds_ok {} s" "requests_ok s"
    using loop_reach_safe [OF assms] by (simp_all add: server_inv_def)
  show ?thesis
    using s(1) unfolding owners_ok_def
    by (intro conjI) (use s(2,3) in \<open>auto simp: fds_ok_def requests_ok_def\<close>, fastforce+)
qed

theorem server_reachable_safe_witness:
  "\<exists>s. loop_reach demo_kernel 8080 64 [] s \<and> heap s 0 = Some (client_create 4) \<and>
    set (open_fds (trace s)) = insert (listen_fd (server_socket s)) (owned s)"
  using server_reachable_safe [OF demo_accepted_reach demo_kernel_safe] demo_accepted_reach
  by (intro exI [of _ demo_accepted]) (simp add: demo_accepted_client)





text \<open>
  C4. At every reachable point the bytes in the cache are at most what the cache counts, which
  is at most 16 MiB, and there are never more clients than the client vector has places.
\<close>

theorem server_memory_bounded:
  assumes "loop_reach K p m pfds s" "kernel_safe K"
  shows "store_bytes (abs_cache (the_cache s)) \<le> unat (current_size (the_cache s)) \<and>
    unat (current_size (the_cache s)) \<le> 16 * 1024 * 1024 \<and>
    finite (dom (heap s)) \<and> card (dom (heap s)) \<le> length (slots s)"
  using safe_bounds [OF loop_reach_safe [OF assms]] .

theorem server_memory_bounded_witness:
  "store_bytes (abs_cache (the_cache demo_accepted)) \<le> 16 * 1024 * 1024 \<and>
    card (dom (heap demo_accepted)) \<le> length (slots demo_accepted)"
  using server_memory_bounded [OF demo_accepted_reach demo_kernel_safe] by simp

text \<open>
  C5. A request of less than 16384 bytes, none of them null, that arrives in any pieces of which
  only the last completes the blank line is read whole and in order, by one recv per piece,
  provided that the array on the stack starts out as zeros.
\<close>

theorem request_is_joined:
  assumes "delivers K fd (trace s) ps"
  shows "readHttpRequest K fd s = Done (concat ps) (s\<lparr>trace := trace s @ recv_events fd ps\<rparr>)"
  using assms by (rule read_pieces)

theorem request_is_joined_witness:
  "readHttpRequest demo_kernel 4 \<lparr>trace = []\<rparr> =
    Done (''GET http://a/x HTTP/1.0'' @ CRLF @ CRLF) \<lparr>trace = recv_events 4 [demo_request]\<rparr>"
  using request_is_joined [of demo_kernel 4 "\<lparr>trace = []\<rparr>", OF demo_delivers] by (simp add: demo_texts)













text \<open>
  C12. When the status is not 200 and the host of a waiting client cannot be resolved, the
  exception leaves the handler twice, from the body and from its catch clause, before the state
  of the fetching client has been changed: the next chunk of the response is taken for a status
  line again. When it is shorter than twelve bytes the code reads beyond it, and when it holds
  no number at offset nine the proxy ends with an exception that nobody catches.
\<close>

theorem failed_release_misreads:
  assumes "heap s i = Some c" "state c = waiting_response_status_code" "server_connection c = Some fd"
    "request_clients_map s (request_str c) = Some [i, j]" "i \<noteq> j" "heap s j = Some d" "waits d" "unreachable K d"
    "sends K fd (trace s) (q # q' # qs)" "status_readable q" "\<not> status_200 q"
    "length q' < 12 \<or> stoi (take 3 (drop 9 q')) = Inl x"
  shows "\<exists>t. handleClientSocketEvents K i POLLIN s = Done () t \<and> heap t j = Some d \<and>
    handleClientSocketEvents K i POLLIN t =
      (if length q' < 12 then Undef else Raise x (t\<lparr>trace := trace t @ [Ev_recv fd MAX_CHUNK_SIZE (Some q')]\<rparr>))"
proof -
  obtain t c' where t: "handleClientSocketEvents K i POLLIN s = Done () t" "heap t i = Some c'" "state c' = waiting_response_status_code"
    "server_connection c' = Some fd" "heap t j = Some d" "sends K fd (trace t) (q' # qs)"
    using failed_release [OF assms(1-11)] by blast
  have "k_recv K (trace t) fd MAX_CHUNK_SIZE = Some q'" "q' \<noteq> []" using sends_next [OF t(6), of "[]"] by simp_all
  from status_event(1) [OF t(2-4) this, of POLLIN] status_event(2) [OF t(2-4) this, of POLLIN x] show ?thesis
    using stoi_exceptions assms(12) t(1,5)
    by (intro exI [of _ t]) (auto simp: STATUS_CODE_OFFSET_def STATUS_CODE_LEN_def poll_defs)
qed

theorem failed_release_misreads_witness:
  "\<exists>t. handleClientSocketEvents (missing_kernel None) 0 POLLIN demo_waiting = Done () t \<and>
    handleClientSocketEvents (missing_kernel None) 0 POLLIN t = Undef"
proof -
  let ?c = "demo_client 11 (Some 12) waiting_response_status_code ''q''"
  let ?d = "(demo_client 7 None waiting_for_response_for_another_client ''q'')\<lparr>request := demo_http\<rparr>"
  have c: "state ?c = waiting_response_status_code" "server_connection ?c = Some 12"
    "request_clients_map demo_waiting (request_str ?c) = Some [0, 1]" "0 \<noteq> (1 :: nat)" "waits ?d" "unreachable (missing_kernel None) ?d"
    using demo_waiting_reaches(2) [of ?d] by (simp_all add: demo_waiting_values waits_def)
  have short: "length ''sorry, no'' < 12 \<or> stoi (take 3 (drop 9 ''sorry, no'')) = Inl StdInvalidArgument" by simp
  from failed_release_misreads [OF demo_waiting_values(1) c(1-4) demo_waiting_values(2) c(5,6) demo_missing_sends status_line_404 short]
  show ?thesis by auto
qed

text \<open>
  C13. A client that waits for the response another client fetches depends on that fetch alone.
  Once nobody can bring the response any more (its text is not in the cache, and every other
  client of the request also waits or is past the point of sharing, as when the origin hangs up
  before the request was sent, or a client joins after the status was found not to be 200), the
  client is never touched again: after any number of turns of the event loop, whatever happens
  on all other connections, it is in exactly the same state, and so is everyone who made the
  same request meanwhile.
\<close>

theorem waiting_client_forgotten:
  assumes "kernel_safe K" "server_inv {} s" "heap s j = Some d" "waits d" "unattended (request_str d) s"
    "request_clients_map s (request_str d) = Some l" "j \<in> set l" "rtranclp (turn K) s t"
  shows "heap t j = Some d \<and> unattended (request_str d) t"
  using turns_neglected [OF assms(1,8,2) start_neglected [OF assms(2-7)]] by (simp add: neglected_def)

theorem waiting_client_forgotten_witness:
  "\<exists>t1 t2. handleClientSocketEvents demo_kernel 0 POLLHUP demo_hangup = Done () t1 \<and>
    server_iteration demo_kernel t1 = Done () t2 \<and> (\<exists>k. heap t2 k = Some (client_create 8)) \<and>
    heap t2 1 = Some (demo_client 7 None waiting_for_response_for_another_client ''q'') \<and> unattended ''q'' t2"
proof -
  let ?d = "demo_client 7 None waiting_for_response_for_another_client ''q''"
  obtain t1 t2 where t: "handleClientSocketEvents demo_kernel 0 POLLHUP demo_hangup = Done () t1" "safe t1"
    "heap t1 1 = Some ?d" "unattended (request_str ?d) t1" "request_clients_map t1 (request_str ?d) = Some [1]"
    "server_iteration demo_kernel t1 = Done () t2" "\<exists>k. heap t2 k = Some (client_create 8)"
    using demo_hangup_turn by auto
  then have "rtranclp (turn demo_kernel) t1 t2" by (simp add: turn_def r_into_rtranclp)
  moreover have "waits ?d" "1 \<in> set [1 :: nat]" by (simp_all add: waits_def)
  ultimately show ?thesis
    using waiting_client_forgotten [OF demo_kernel_safe t(2,3) _ t(4,5)] t(1,6,7) by auto
qed





text \<open>
  C16. A client of a complete cache entry is served to the end: if its socket takes at least one
  byte per send, then after at most one writable event per missing byte and one more it has been
  sent exactly the rest of the entry, in order and without repetition, its connection is closed
  and the client is gone.
\<close>

theorem cached_client_served:
  assumes "kernel_safe K" "server_inv {} s" "heap s i = Some c" "reads_from_cache c"
    "request_clients_map s (request_str c) = Some l"
    "lookup (the_cache s) (request_str c) = Some e" "entry_isCompleted e" "sent_bytes c \<le> entry_size e"
    "accepts_data K (client_connection c)"
  shows "\<exists>n t. n \<le> Suc (entry_size e - sent_bytes c) \<and>
    forEach (replicate n POLLOUT) (handleClientSocketEvents K i) s = Done () t \<and> heap t = (heap s)(i := None) \<and>
    delivered (client_connection c) (trace t) = delivered (client_connection c) (trace s) @ drop (sent_bytes c) (buffer e) \<and>
    client_connection c \<notin> set (open_fds (trace t))"
  using serve_complete [OF assms] by blast

theorem cached_client_served_witness:
  "\<exists>n t. n \<le> 5 \<and> forEach (replicate n POLLOUT) (handleClientSocketEvents demo_kernel 3) demo_server = Done () t \<and>
    heap t 3 = None \<and> delivered 8 (trace t) = ''abcd''"
proof -
  have c: "heap demo_server 3 = Some (demo_client 8 None got_response demo_key)" by (simp add: demo_heap)
  have e: "reads_from_cache (demo_client 8 None got_response demo_key)"
    "lookup (the_cache demo_server) demo_key = Some demo_entry" "entry_isCompleted demo_entry" "entry_size demo_entry = 4"
    "drop 0 (buffer demo_entry) = ''abcd''"
    by (simp_all add: reads_from_cache_def demo_lookup demo_entry_def entry_isCompleted_def entry_size_def)
  have "\<exists>n t. n \<le> Suc (entry_size demo_entry - 0) \<and>
      forEach (replicate n POLLOUT) (handleClientSocketEvents demo_kernel 3) demo_server = Done () t \<and>
      heap t = (heap demo_server)(3 := None) \<and>
      delivered 8 (trace t) = delivered 8 (trace demo_server) @ drop 0 (buffer demo_entry) \<and> 8 \<notin> set (open_fds (trace t))"
    using cached_client_served [OF demo_kernel_safe demo_server_safe c e(1), of "[3]" demo_entry] e demo_lists(2) demo_accepts
    by (simp only: demo_client_simps le0 simp_thms)
  then obtain n t where r: "n \<le> Suc (4 - 0)" "heap t = (heap demo_server)(3 := None)"
    "forEach (replicate n POLLOUT) (handleClientSocketEvents demo_kernel 3) demo_server = Done () t"
    "delivered 8 (trace t) = [] @ ''abcd''"
    unfolding e(4,5) demo_lists(4) by (elim exE conjE)
  show ?thesis by (intro exI [of _ n] exI [of _ t] conjI) (use r in simp_all)
qed



text \<open>
  C18. The first bytes of a response decide over the whole proxy: when the origin's first chunk
  is shorter than twelve bytes the status code is read beyond the vector, and when the three
  bytes at offset nine are not a number the exception of stoi, which is none of the proxy's own,
  leaves the handler and the event loop.
\<close>

theorem bad_response_start:
  assumes "heap s i = Some c" "state c = waiting_response_status_code" "server_connection c = Some fd"
    "k_recv K (trace s) fd MAX_CHUNK_SIZE = Some bs" "bs \<noteq> []" "and revents (or POLLERR POLLNVAL) = 0"
    "length bs < 12 \<or> stoi (take 3 (drop 9 bs)) = Inl x"
  shows "handleClientSocketEvents K i revents s =
    (if length bs < 12 then Undef else Raise x (s\<lparr>trace := trace s @ [Ev_recv fd MAX_CHUNK_SIZE (Some bs)]\<rparr>))"
  using status_event [OF assms(1-6)] stoi_exceptions assms(7)
  by (auto simp: STATUS_CODE_OFFSET_def STATUS_CODE_LEN_def)

theorem bad_response_start_witness:
  "handleClientSocketEvents demo_kernel 5 POLLIN demo_server = Undef \<and>
   handleClientSocketEvents demo_kernel 6 POLLIN demo_server =
     Raise StdInvalidArgument (demo_server\<lparr>trace := trace demo_server @ [Ev_recv 14 1024 (Some ''HTTP/1.0 abc'')]\<rparr>)"
proof -
  have c: "heap demo_server 5 = Some (demo_client 11 (Some 12) waiting_response_status_code ''q'')"
    "heap demo_server 6 = Some (demo_client 13 (Some 14) waiting_response_status_code ''p'')"
    by (simp_all add: demo_heap)
  have "stoi ''abc'' = Inl StdInvalidArgument" by code_simp
  with bad_response_start [OF c(1), of 12 demo_kernel "''HTTP/1.0''" POLLIN]
    bad_response_start [OF c(2), of 14 demo_kernel "''HTTP/1.0 abc''" POLLIN StdInvalidArgument]
  show ?thesis by (simp add: demo_recv_def MAX_CHUNK_SIZE_def poll_defs)
qed

text \<open>
  C19. A client that streams a response is polled on two descriptors. When the same turn reports
  an error on the origin's side and anything on the client's side, the first event discards the
  client and the second looks it up among the live ones, finds nobody and dereferences an empty
  pointer.
\<close>

theorem event_for_discarded_client:
  assumes "kernel_safe K" "server_inv {} s" "heap s i = Some c" "server_connection c = Some fd"
    "request_clients_map s (request_str c) = Some [i]"
    "and (pfd_revents p) (or POLLERR POLLNVAL) \<noteq> 0" "pfd_fd p = fd" "pfd_fd q = client_connection c"
  shows "forEach (p # q # ps) (handle_pollfd K) s = Undef"
  by (rule second_event_undefined [OF assms(2,1,3-8)])

theorem event_for_discarded_client_witness:
  "forEach [\<lparr>pfd_fd = 10, pfd_events = POLLIN, pfd_revents = POLLERR\<rparr>, \<lparr>pfd_fd = 9, pfd_events = POLLOUT, pfd_revents = POLLOUT\<rparr>]
     (handle_pollfd demo_kernel) demo_server = Undef"
proof -
  have c: "heap demo_server 4 = Some (demo_client 9 (Some 10) waiting_response ''w'')" by (simp add: demo_heap)
  show ?thesis
    by (rule event_for_discarded_client [OF demo_kernel_safe demo_server_safe c, of 10])
      (simp_all add: demo_lists poll_defs)
qed

section \<open>The cache\<close>







text \<open>
  C23. A response written chunk by chunk to an entry in use is stored as the concatenation of
  its chunks, in order.
\<close>

theorem cache_stores_concatenation:
  assumes "cache_wf c" "lookup c k = Some e" "entry_inUse e" "\<forall>b \<in> set bufs. length b < 2 ^ 64"
    "forEach bufs (cache_write Some k) c = Done () c'"
  shows "cache_wf c' \<and> lookup c' k = Some (entry_append (concat bufs) e)"
  using assms by (rule rs.store_chunks)

theorem cache_stores_concatenation_witness:
  "\<exists>c'. forEach [''p'', ''q''] (cache_write Some ''b'') demo_cache = Done () c' \<and>
    lookup c' ''b'' = Some (entry_append ''pq'' (new_entry\<lparr>buffer := ''xy''\<rparr>))"
proof -
  have "\<exists>c'. forEach [''p'', ''q''] (cache_write Some ''b'') demo_cache = Done () c'"
    by (simp add: demo_cache_def cache_op_defs act_defs freeSpace_loop.simps getFreeSpace_def find_node_def
        erase_node_def update_node_def)
  then obtain c' where c': "forEach [''p'', ''q''] (cache_write Some ''b'') demo_cache = Done () c'" by blast
  with cache_stores_concatenation [OF demo_cache_wf _ _ _ c', of "new_entry\<lparr>buffer := ''xy''\<rparr>"] show ?thesis
    by (simp add: demo_cache_lookup new_entry_def entry_inUse_def)
qed

text \<open>
  C24. Evicting an entry is undefined behaviour by the C++ standard: removeLeastRecentlyUsed
  passes the key inside the list node to drop, which erases the node and then erases that freed
  key from the hash table.
\<close>

theorem eviction_reads_freed_key:
  assumes "cache_wf c" "getFreeSpace c < n" "\<exists>p \<in> set (abs_cache c). \<not> entry_inUse (snd p)"
  shows "freeSpace (\<lambda>_. None) n c = Undef"
  using assms by (rule eviction_undefined)

theorem eviction_reads_freed_key_witness: "freeSpace (\<lambda>_. None) 4 demo_cache = Undef"
  by (rule eviction_reads_freed_key [OF demo_cache_wf])
    (simp_all add: demo_cache_values, simp add: demo_cache_def getFreeSpace_def, simp add: entry_inUse_def)

section \<open>The forwarded request\<close>

text \<open>
  C25. Whatever bytes a client sends, a request the constructor accepts has a token as method,
  header names that are tokens and header values without control characters (so no header can
  smuggle in another line), none of the removed headers, Connection set to close, and a path
  without spaces or control characters.
\<close>

theorem forwarded_request_safe:
  assumes "http_request_new str s = Done h s'"
  shows "forwardable h \<and> s' = s"
  using http_request_new_forwardable [OF assms] http_request_new_Done [OF assms] by metis

theorem forwarded_request_safe_witness:
  "\<exists>h. http_request_new (render_request ''GET'' ''http://a/'' 1 0 [] @ []) () = Done h () \<and> forwardable h"
proof -
  obtain h where "http_request_new (render_request ''GET'' (render_url ''http'' ''a'' None [] None None) 1 0 [] @ []) () = Done h ()"
    using forward_request [of "''http''" "''a''" None "[]" None "''GET''" None 1 0 "[]" "[]" "()"] demo_target by blast
  then have "http_request_new (render_request ''GET'' ''http://a/'' 1 0 [] @ []) () = Done h ()"
    by (simp add: render_url_def render_port_def render_tail_def)
  with forwarded_request_safe [OF this] show ?thesis by blast
qed

text \<open>
  C26. A kept request without body headers is written out as a request that parses back to
  exactly the method, the path, the version and the headers kept.
\<close>

theorem forwarded_request_parses:
  assumes "forwardable h" "isValid (rq_url h)" "versionMajor h + 48 \<le> INT_MAX" "versionMinor h + 48 \<le> INT_MAX"
    "\<not> takes_body (rq_method h) \<or> list_all no_body_header (map header_of (rq_headers h))"
  shows "\<exists>str p. toString h s = Done str s \<and> consume str HttpRequestParser = Result ParsingCompleted p \<and>
    req p = request_of (rq_method h) (url_path (the_url (rq_url h))) (nat (versionMajor h)) (nat (versionMinor h))
      (map header_of (rq_headers h)) []"
  using assms by (rule forwarded_parses)

theorem forwarded_request_parses_witness:
  "\<exists>str p. toString demo_http () = Done str () \<and> consume str HttpRequestParser = Result ParsingCompleted p \<and>
    r_uri (req p) = ''/x''"
  using forwarded_request_parses [OF demo_http_ok, of "()"]
  by (auto simp: demo_http_def takes_body_def INT_MAX_def request_of_def url_of_def)

text \<open>
  C27. For a request without a body to an absolute URL, what is sent to the origin server and
  used as cache key is the request line with the path alone, the kept headers in order of their
  names, and two blank lines: scheme, host, port, query, fragment and whatever followed the
  request have no influence on it.
\<close>

theorem forwarded_request_text:
  assumes "url_parts_ok sch host po pa qu" "request_parts_ok m (render_url sch host po pa qu fr) ma mi hs"
    "\<not> takes_body m \<or> list_all no_body_header hs"
  shows "\<exists>h. http_request_new (render_request m (render_url sch host po pa qu fr) ma mi hs @ rest) s = Done h s \<and>
    toString h s = Done (render_request m (CHR ''/'' # pa) ma mi (map header_of (keep_headers hs [])) @ CRLF) s \<and>
    headers_sorted (keep_headers hs []) \<and> map_of (keep_headers hs []) = forwarded hs"
  using forward_string [OF assms, of rest s] keep_headers_sorted [of "[]" hs] keep_headers_map_of [of hs "[]"]
  by (auto simp: headers_sorted_def)

theorem forwarded_request_text_witness:
  "\<exists>h. http_request_new (render_request ''GET'' (render_url ''http'' ''a'' None [] None None) 1 0 [] @ []) () = Done h () \<and>
    toString h () = Done (render_request ''GET'' ''/'' 1 0 [] @ CRLF) ()"
  using forwarded_request_text [of "''http''" "''a''" None "[]" None "''GET''" None 1 0 "[]" "[]" "()"] demo_target
  by (auto simp: keep_headers_def)



text \<open>
  C29. A kept POST or PUT with a Content-Length greater than 2 is written out with that header
  and without the body, so the text sent to the origin server is an incomplete request.
\<close>

theorem body_is_not_forwarded:
  assumes "forwardable h" "isValid (rq_url h)" "versionMajor h + 48 \<le> INT_MAX" "versionMinor h + 48 \<le> INT_MAX"
    "takes_body (rq_method h)" "map header_of (rq_headers h) = hs1 @ i # hs2" "list_all no_body_header (hs1 @ hs2)"
    "is_content_length i" "2 < atoi (hvalue i)"
  shows "\<exists>str p. toString h s = Done str s \<and> consume str HttpRequestParser = Result ParsingIncompleted p"
proof -
  have "int (length CRLF) < atoi (hvalue i)" using assms(9) by (simp add: CRLF_def)
  from consume_missing_body [OF forwardable_parts [OF assms(1-4), unfolded assms(6)] assms(5,7,8) this]
  show ?thesis using toString_valid [OF assms(1,2), unfolded assms(6)] by (elim exE) (intro exI conjI)
qed

theorem body_is_not_forwarded_witness:
  "\<exists>str p. toString demo_post () = Done str () \<and> consume str HttpRequestParser = Result ParsingIncompleted p"
  by (rule body_is_not_forwarded [OF demo_post_ok, of "[]" "\<lparr>hname = ''Content-Length'', hvalue = ''3''\<rparr>" "[]"])
    (simp_all add: demo_post_def demo_http_def header_of_def takes_body_def INT_MAX_def is_content_length_def demo_length)

text \<open>
  C30. A request with a target in origin form, such as GET /x, is accepted by the constructor,
  and writing it out aborts the proxy on the assertion that the URL is valid.
\<close>

theorem relative_target_aborts:
  assumes "request_parts_ok m (CHR ''/'' # pa) ma mi hs" "\<not> takes_body m \<or> list_all no_body_header hs"
  shows "\<exists>h. http_request_new (render_request m (CHR ''/'' # pa) ma mi hs @ rest) s = Done h s \<and> toString h s = Abort"
  using assms by (rule relative_target)

theorem relative_target_aborts_witness:
  "\<exists>h. http_request_new (render_request ''GET'' ''/'' 1 1 [\<lparr>hname = ''A'', hvalue = ''b''\<rparr>] @ []) () = Done h () \<and>
    toString h () = Abort"
  by (rule relative_target_aborts) (simp_all add: demo_parts takes_body_def del: One_nat_def)

section \<open>Requests\<close>

text \<open>
  C31. On every input, whatever the bytes and wherever they were cut, the parser never takes the
  back of an empty header list; and a request it reports as complete has a method and a target,
  and only legal characters and int-sized version numbers.
\<close>

theorem request_parser_safe:
  assumes "parser_inv p"
  shows "consume bytes p \<noteq> BackOfEmpty \<and>
    (\<forall>p'. consume bytes p = Result ParsingCompleted p' \<longrightarrow>
      request_wf (req p') \<and> r_method (req p') \<noteq> [] \<and> r_uri (req p') \<noteq> []) \<and>
    (\<forall>p'. consume bytes p = Result ParsingIncompleted p' \<longrightarrow> parser_inv p')"
  using consume_good [OF assms, of bytes] reqp.run_inv [OF assms, of bytes]
  by (auto simp: exit_good_def consume_incomplete)

theorem request_parser_safe_witness: "consume ''GET\<newline>'' HttpRequestParser \<noteq> BackOfEmpty"
  using request_parser_safe [OF HttpRequestParser_inv, of "''GET\<newline>''"] by blast

text \<open>
  C32. A request without a body, written out from its method, target, version and headers,
  parses to exactly these, to the keep-alive flag its Connection header or version implies, and
  ignores whatever follows.
\<close>

theorem request_roundtrip:
  assumes "request_parts_ok m v ma mi hs" "\<not> takes_body m \<or> list_all no_body_header hs"
  shows "\<exists>p. consume (render_request m v ma mi hs @ rest) HttpRequestParser = Result ParsingCompleted p \<and>
    req p = request_of m v ma mi hs []"
  using assms by (rule consume_no_body)

theorem request_roundtrip_witness:
  "\<exists>p. consume (render_request ''GET'' ''/'' 1 1 [\<lparr>hname = ''A'', hvalue = ''b''\<rparr>] @ ''zz'') HttpRequestParser =
      Result ParsingCompleted p \<and> req p = request_of ''GET'' ''/'' 1 1 [\<lparr>hname = ''A'', hvalue = ''b''\<rparr>] []"
  by (rule request_roundtrip) (simp_all add: demo_parts takes_body_def del: One_nat_def)

text \<open>
  C33. The body of a POST or PUT is read back exactly, and what follows it is left alone: with a
  Content-Length header as that many bytes, and with Transfer-Encoding: chunked as the
  concatenation of its chunks, for every division of the body into non-empty chunks.
\<close>

theorem request_body_roundtrip:
  assumes "request_parts_ok m v ma mi (hs1 @ h # hs2)" "takes_body m" "list_all no_body_header (hs1 @ hs2)" "carries h body wire"
  shows "\<exists>p. consume (render_request m v ma mi (hs1 @ h # hs2) @ wire @ rest) HttpRequestParser =
      Result ParsingCompleted p \<and> req p = request_of m v ma mi (hs1 @ h # hs2) body"
  using assms by (rule consume_body)

theorem request_body_roundtrip_witness:
  "(\<exists>p. consume (render_request ''POST'' ''/'' 1 1 [\<lparr>hname = ''Content-Length'', hvalue = ''3''\<rparr>] @ ''abc'' @ ''d'')
      HttpRequestParser = Result ParsingCompleted p \<and>
    req p = request_of ''POST'' ''/'' 1 1 [\<lparr>hname = ''Content-Length'', hvalue = ''3''\<rparr>] ''abc'') \<and>
   (\<exists>p. consume (render_request ''PUT'' ''/'' 1 1 [\<lparr>hname = ''Transfer-Encoding'', hvalue = ''chunked''\<rparr>] @
      encode_chunked [''ab'', ''c''] @ []) HttpRequestParser = Result ParsingCompleted p \<and>
    r_content (req p) = ''abc'')"
proof
  let ?f = "\<lparr>hname = ''Content-Length'', hvalue = ''3''\<rparr>" let ?c = "\<lparr>hname = ''Transfer-Encoding'', hvalue = ''chunked''\<rparr>"
  have "carries ?f ''abc'' ''abc''" by (rule carries.fixed) (simp_all add: is_content_length_def demo_length)
  from request_body_roundtrip [OF _ _ _ this, of "''POST''" "''/''" 1 1 "[]" "[]" "''d''"]
  show "\<exists>p. consume (render_request ''POST'' ''/'' 1 1 [?f] @ ''abc'' @ ''d'') HttpRequestParser = Result ParsingCompleted p \<and>
      req p = request_of ''POST'' ''/'' 1 1 [?f] ''abc''"
    by (simp add: demo_parts takes_body_def del: One_nat_def)
  have "carries ?c (concat [''ab'', ''c'']) (encode_chunked [''ab'', ''c''])"
    by (rule carries.chunked) (simp_all add: is_transfer_encoding_def is_content_length_def demo_chunked)
  from request_body_roundtrip [OF _ _ _ this, of "''PUT''" "''/''" 1 1 "[]" "[]" "[]"]
  show "\<exists>p. consume (render_request ''PUT'' ''/'' 1 1 [?c] @ encode_chunked [''ab'', ''c''] @ []) HttpRequestParser =
      Result ParsingCompleted p \<and> r_content (req p) = ''abc''"
    by (force simp: demo_parts takes_body_def request_of_def simp del: One_nat_def)
qed


text \<open>
  C35. A POST or PUT whose Content-Length is a negative number makes the parser throw
  std::length_error, which is none of the program's own exceptions.
\<close>

theorem negative_length_throws:
  assumes "request_parts_ok m v ma mi (hs @ [h])" "takes_body m" "list_all no_body_header hs"
    "is_content_length h" "atoi (hvalue h) < 0"
  shows "consume (render_request m v ma mi (hs @ [h]) @ rest) HttpRequestParser = Throws StdLengthError \<and>
    \<not> is_spx_exception StdLengthError"
  using consume_negative_length [OF assms] by simp

theorem negative_length_throws_witness:
  "consume (render_request ''POST'' ''/'' 1 1 [\<lparr>hname = ''Content-Length'', hvalue = ''-1''\<rparr>] @ []) HttpRequestParser =
    Throws StdLengthError"
  using negative_length_throws [of "''POST''" "''/''" 1 1 "[]" "\<lparr>hname = ''Content-Length'', hvalue = ''-1''\<rparr>" "[]"]
  by (simp add: demo_parts takes_body_def is_content_length_def demo_length del: One_nat_def)

section \<open>URLs\<close>





section \<open>Responses\<close>

text \<open>
  C38. Whatever bytes it is given, the response parser never reads the last header of an empty
  list, and a response it accepts has version numbers that are non-negative ints, a status code
  from 100 to 999, a non-empty reason of ASCII bytes, and headers with non-empty token names and
  values without control bytes.
\<close>

theorem response_accepted_wellformed:
  "resp_consume bytes HttpResponseParser \<noteq> RBackOfEmpty \<and>
    (\<forall>q. resp_consume bytes HttpResponseParser = RResult ParsingCompleted q \<longrightarrow>
      in_int (s_versionMajor (resp q)) \<and> in_int (s_versionMinor (resp q)) \<and>
      100 \<le> unat (s_statusCode (resp q)) \<and> unat (s_statusCode (resp q)) \<le> 999 \<and>
      s_status (resp q) \<noteq> [] \<and> list_all isChar (s_status (resp q)) \<and> list_all header_ok (s_headers (resp q)))"
  using resp_consume_good [OF HttpResponseParser_inv, of bytes]
  by (auto simp: resp_exit_good_def response_wf_def line_done_def word_le_nat_alt)

theorem response_accepted_wellformed_witness:
  "\<exists>q. resp_consume demo_response HttpResponseParser = RResult ParsingCompleted q \<and>
    100 \<le> unat (s_statusCode (resp q)) \<and> unat (s_statusCode (resp q)) \<le> 999"
  using demo_response_parses response_accepted_wellformed [of demo_response] by blast

text \<open>
  C39. A response written out from a status line, headers and a body that is absent, of
  announced length or chunked is read back exactly, whatever follows it: version, headers in
  order, body with the chunk framing removed, keep-alive flag and reason. The status code is
  read modulo 2^32, so a longer number can pass for a valid one, and a reason may begin with a
  carriage return: an empty reason takes the line that follows for its own.
\<close>

theorem response_roundtrip:
  assumes "version_ok ma" "version_ok mi" "100 \<le> code mod 2 ^ 32" "code mod 2 ^ 32 \<le> 999"
    "reason \<noteq> []" "list_all isChar reason" "CR \<notin> set (tl reason)"
    "list_all header_ok hs" "body_coded hs payload body"
  shows "\<exists>q. resp_consume (render_response ma mi code reason hs @ payload @ rest) HttpResponseParser =
      RResult ParsingCompleted q \<and>
    resp q = response_of ma mi code reason hs body \<and> unat (s_statusCode (resp q)) = code mod 2 ^ 32"
proof -
  have code: "unat (word_of_nat code :: 32 word) = code mod 2 ^ 32"
    by (simp add: unat_of_nat take_bit_eq_mod)
  then have "status_ok ma mi code reason"
    using assms(1-7) by (simp add: status_ok_def word_le_nat_alt)
  from resp_consume_rendered [OF this assms(8,9), where rest = rest] code show ?thesis
    by (auto simp: response_of_def)
qed

theorem response_roundtrip_witness:
  "\<exists>q. resp_consume (render_response 1 0 404 ''Not Found'' [\<lparr>hname = ''Content-Length'', hvalue = ''3''\<rparr>] @ ''abc'' @ ''x'')
      HttpResponseParser = RResult ParsingCompleted q \<and> s_content (resp q) = ''abc'' \<and> unat (s_statusCode (resp q)) = 404"
proof -
  have "version_ok 1" "version_ok 0" "list_all isChar ''Not Found''" "CR \<notin> set (tl ''Not Found'')"
    by (simp_all add: version_ok_def INT_MAX_def isChar_code char_code_def)
  moreover have "list_all header_ok [\<lparr>hname = ''Content-Length'', hvalue = ''3''\<rparr>]"
    using demo_parts(2) by (simp add: request_parts_ok_def)
  moreover have "body_coded ([] @ \<lparr>hname = ''Content-Length'', hvalue = ''3''\<rparr> # []) ''abc'' ''abc''"
    by (rule body_coded.fixed_body) (simp_all add: is_content_length_def demo_length)
  ultimately show ?thesis
    using response_roundtrip [of 1 0 404 "''Not Found''" "[\<lparr>hname = ''Content-Length'', hvalue = ''3''\<rparr>]" "''abc''" "''abc''" "''x''"]
    by (auto simp: response_of_def)
qed

section \<open>The program\<close>

text \<open>
  C40. Called with a decimal number, the program fails without a system call when the number is
  no port, dies of an uncaught exception when it is no int either, and otherwise runs the server
  on that port. The run throws nothing, and when it returns the status is success or failure and
  every descriptor it opened, the clients' and the origin servers' included, has been closed.
\<close>

theorem program_outcome:
  assumes "kernel_safe K"
  shows "spx_main K rlim [prog, show_nat n] \<lparr>trace = []\<rparr> =
      (if 2 ^ 31 \<le> n then Abort else if n < 1 \<or> 65535 < n then Done EXIT_FAILURE \<lparr>trace = []\<rparr>
       else run_server K (word_of_nat n) (case rlim of None \<Rightarrow> 1024 | Some m \<Rightarrow> m) \<lparr>trace = []\<rparr>) \<and>
    (\<forall>e t. spx_main K rlim [prog, show_nat n] \<lparr>trace = []\<rparr> \<noteq> Raise e t) \<and>
    (\<forall>code t. spx_main K rlim [prog, show_nat n] \<lparr>trace = []\<rparr> = Done code t \<longrightarrow>
      code \<in> {EXIT_SUCCESS, EXIT_FAILURE} \<and> open_fds (trace t) = [])"
  using run_server_outcome [OF assms] by (auto simp: main_of_number open_fds_def split: if_splits)

theorem program_outcome_witness:
  "\<exists>t. spx_main demo_kernel_busy None [''spx'', show_nat 8080] \<lparr>trace = []\<rparr> = Done EXIT_FAILURE t \<and>
    Ev_socket 3 \<in> set (trace t) \<and> open_fds (trace t) = []"
proof -
  have "open_fds (trace \<lparr>trace = demo_busy_trace\<rparr>) = []"
    using program_outcome [OF demo_kernel_busy_safe, of None "''spx''" 8080] demo_busy_main by blast
  then show ?thesis using demo_busy_main demo_busy_socket by simp
qed
end
